(* ===== verification/Psc_Prelude.thy ===== *)
theory Psc_Prelude
  imports Main "HOL-Library.Word"
begin

unbundle bit_operations_syntax

text \<open>
  What the components share: the machine integers of the C code, the result type of an
  operation that may run into undefined behaviour or not return, and the byte layout of
  integers in memory and on the wire, with the interface \<open>codec\<close> that every fixed-width
  layout of the program provides, the interface \<open>polling\<close> of the loops that wait for a device, and the
  interface \<open>unwinding\<close> of operations whose effect on one part of the state is to depend on their own
  kind alone.
\<close>

section \<open>Machine integers\<close>

type_synonym u8 = "8 word"
type_synonym u16 = "16 word"
type_synonym u32 = "32 word"
type_synonym s32 = "32 word"

text \<open>\<open>s32\<close> values are the same 32 bits as \<open>u32\<close>; \<^term>\<open>sint\<close> reads them as two's complement.\<close>

lemma unat_u32 [simp]: "n < 2 ^ 32 \<Longrightarrow> unat (word_of_nat n :: u32) = n"
  by (simp add: unsigned_of_nat take_bit_nat_eq_self)

lemma unat_less_u32: "unat (w :: u32) < 2 ^ 32"
  using unsigned_less [of w] by simp

section \<open>Results of C code\<close>

text \<open>
  A C function that gets as far as its return statement yields \<open>Ret\<close>. \<open>Undef\<close> is an
  execution that reaches an operation whose behaviour the C standard leaves undefined (the
  kinds the program can reach are listed in \<open>ub\<close>), \<open>Hang\<close> one that stays in a polling
  loop forever.
\<close>

datatype ub =
    Float_To_Int        \<comment> \<open>conversion of an out-of-range or NaN float to an integer type\<close>
  | Div_By_Zero         \<comment> \<open>integer division by zero\<close>
  | Signed_Overflow     \<comment> \<open>overflow of a signed operation\<close>
  | Out_Of_Bounds       \<comment> \<open>access outside an array\<close>

datatype 'a run = Ret 'a | Undef ub | Hang

definition run_bind :: "'a run \<Rightarrow> ('a \<Rightarrow> 'b run) \<Rightarrow> 'b run" where
  "run_bind r f = (case r of Ret x \<Rightarrow> f x | Undef u \<Rightarrow> Undef u | Hang \<Rightarrow> Hang)"

lemma run_bind_simps [simp]:
  "run_bind (Ret x) f = f x"
  "run_bind (Undef u) f = Undef u"
  "run_bind Hang f = Hang"
  by (simp_all add: run_bind_def)

lemma run_bind_assoc: "run_bind (run_bind r f) g = run_bind r (\<lambda>x. run_bind (f x) g)"
  by (cases r) simp_all

lemma run_bind_Ret_iff [simp]:
  "run_bind r f = Ret y \<longleftrightarrow> (\<exists>x. r = Ret x \<and> f x = Ret y)"
  by (cases r) auto

lemma run_bind_RetE:
  assumes "run_bind r f = Ret y"
  obtains x where "r = Ret x" "f x = Ret y"
  using assms by auto


text \<open>Running an operation over a list, stopping at the first undefined behaviour.\<close>

fun run_fold :: "('x \<Rightarrow> 's \<Rightarrow> 's run) \<Rightarrow> 'x list \<Rightarrow> 's \<Rightarrow> 's run" where
  "run_fold f [] s = Ret s"
| "run_fold f (x # xs) s = run_bind (f x s) (run_fold f xs)"

lemma run_fold_append:
  "run_fold f (xs @ ys) s = run_bind (run_fold f xs s) (run_fold f ys)"
proof (induction xs arbitrary: s)
  case (Cons x xs)
  then show ?case by (cases "f x s") simp_all
qed simp

lemma run_fold_inv:
  assumes "run_fold f xs s = Ret t" "P s"
    and "\<And>x s t. x \<in> set xs \<Longrightarrow> f x s = Ret t \<Longrightarrow> P s \<Longrightarrow> P t"
  shows "P t"
  using assms
proof (induction xs arbitrary: s)
  case (Cons x xs)
  from Cons.prems(1) obtain s' where s': "f x s = Ret s'" "run_fold f xs s' = Ret t"
    by auto
  have "P s'" by (rule Cons.prems(3) [OF _ s'(1) Cons.prems(2)]) simp
  with s'(2) show ?case by (rule Cons.IH) (auto intro: Cons.prems(3))
qed simp

text \<open>
  Several parties take steps on one state. If what one of them sees of the state changes by its own
  steps only, and these depend on nothing else, then in any run it sees what it would have seen alone.
  \<open>good\<close> are the steps for which this is claimed.
\<close>

locale unwinding =
  fixes step :: "'m \<Rightarrow> 's \<Rightarrow> 's run" and mine :: "'m \<Rightarrow> bool" and good :: "'m \<Rightarrow> bool" and view :: "'s \<Rightarrow> 's \<Rightarrow> bool"
  assumes consistent: "mine m \<Longrightarrow> good m \<Longrightarrow> view s t \<Longrightarrow> step m s = Ret s' \<Longrightarrow> \<exists>t'. step m t = Ret t' \<and> view s' t'"
    and respects: "\<not> mine m \<Longrightarrow> view s t \<Longrightarrow> step m s = Ret s' \<Longrightarrow> view s' t"
begin

lemma purged:
  "\<forall>m \<in> set ms. mine m \<longrightarrow> good m \<Longrightarrow> view s t \<Longrightarrow> run_fold step ms s = Ret s' \<Longrightarrow>
     \<exists>t'. run_fold step (filter mine ms) t = Ret t' \<and> view s' t'"
proof (induction ms arbitrary: s t)
  case (Cons m ms)
  obtain s1 where s1: "step m s = Ret s1" "run_fold step ms s1 = Ret s'" using Cons.prems(3) by auto
  show ?case
  proof (cases "mine m")
    case True
    then obtain t1 where "step m t = Ret t1" "view s1 t1" using consistent [OF True _ Cons.prems(2) s1(1)] Cons.prems(1) by auto
    then show ?thesis using Cons.IH [of s1 t1] Cons.prems(1) s1(2) True by auto
  next
    case False
    then show ?thesis using respects [OF False Cons.prems(2) s1(1)] Cons.IH [of s1 t] Cons.prems(1) s1(2) by auto
  qed
qed simp

end

section \<open>Bytes of an integer\<close>

definition of_bytes4 :: "u8 \<Rightarrow> u8 \<Rightarrow> u8 \<Rightarrow> u8 \<Rightarrow> u32" where
  "of_bytes4 a b c d =
     push_bit 24 (ucast a) OR push_bit 16 (ucast b) OR push_bit 8 (ucast c) OR ucast d"

definition of_bytes2 :: "u8 \<Rightarrow> u8 \<Rightarrow> u16" where
  "of_bytes2 a b = push_bit 8 (ucast a) OR ucast b"

lemma of_bytes4_split [simp]:
  "of_bytes4 (ucast (drop_bit 24 w)) (ucast (drop_bit 16 w)) (ucast (drop_bit 8 w)) (ucast w) = w"
proof (rule bit_word_eqI)
  fix n assume "n < LENGTH(32)"
  then show "bit (of_bytes4 (ucast (drop_bit 24 w)) (ucast (drop_bit 16 w))
      (ucast (drop_bit 8 w)) (ucast w)) n = bit w n"
    by (cases "n < 8"; cases "n < 16"; cases "n < 24") (auto simp: of_bytes4_def bit_simps)
qed

lemma of_bytes2_split [simp]: "of_bytes2 (ucast (drop_bit 8 w)) (ucast w) = w"
proof (rule bit_word_eqI)
  fix n assume "n < LENGTH(16)"
  then show "bit (of_bytes2 (ucast (drop_bit 8 w)) (ucast w)) n = bit w n"
    by (cases "n < 8") (auto simp: of_bytes2_def bit_simps)
qed

lemma byte_of_bytes4 [simp]:
  "ucast (drop_bit 24 (of_bytes4 a b c d)) = a"
  "ucast (drop_bit 16 (of_bytes4 a b c d)) = b"
  "ucast (drop_bit 8 (of_bytes4 a b c d)) = c"
  "ucast (of_bytes4 a b c d) = d"
  by (rule bit_word_eqI; force simp: of_bytes4_def bit_simps dest: bit_imp_le_length)+

lemma byte_of_bytes2 [simp]:
  "ucast (drop_bit 8 (of_bytes2 a b)) = a"
  "ucast (of_bytes2 a b) = b"
  by (rule bit_word_eqI; force simp: of_bytes2_def bit_simps dest: bit_imp_le_length)+

text \<open>
  \<open>be\<close>: network byte order. \<open>le\<close>: the order of the target's memory (the Cortex-A9 runs
  little-endian), so a pointer cast between \<open>char *\<close> and \<open>u32 *\<close> goes through \<open>le32\<close>.
\<close>

definition be32 :: "u32 \<Rightarrow> u8 list" where
  "be32 w = [ucast (drop_bit 24 w), ucast (drop_bit 16 w), ucast (drop_bit 8 w), ucast w]"

definition le32 :: "u32 \<Rightarrow> u8 list" where
  "le32 w = [ucast w, ucast (drop_bit 8 w), ucast (drop_bit 16 w), ucast (drop_bit 24 w)]"

definition be16 :: "u16 \<Rightarrow> u8 list" where
  "be16 w = [ucast (drop_bit 8 w), ucast w]"

definition of_be32 :: "u8 list \<Rightarrow> u32" where
  "of_be32 bs = of_bytes4 (bs ! 0) (bs ! 1) (bs ! 2) (bs ! 3)"

definition of_le32 :: "u8 list \<Rightarrow> u32" where
  "of_le32 bs = of_bytes4 (bs ! 3) (bs ! 2) (bs ! 1) (bs ! 0)"

definition of_be16 :: "u8 list \<Rightarrow> u16" where
  "of_be16 bs = of_bytes2 (bs ! 0) (bs ! 1)"

text \<open>\<open>htonl\<close> and \<open>ntohl\<close> on the little-endian target: the bytes in reverse order.\<close>

definition htonl :: "u32 \<Rightarrow> u32" where
  "htonl w = of_bytes4 (ucast w) (ucast (drop_bit 8 w)) (ucast (drop_bit 16 w)) (ucast (drop_bit 24 w))"

lemma htonl_htonl [simp]: "htonl (htonl w) = w"
  by (simp add: htonl_def)

lemma htonl_of_le32: "htonl (of_le32 bs) = of_be32 bs"
  by (simp add: htonl_def of_le32_def of_be32_def)

lemma le32_htonl: "le32 (htonl w) = be32 w"
  by (simp add: htonl_def le32_def be32_def)

section \<open>Fixed-width layouts\<close>

text \<open>
  Every structure the program copies in or out of a byte buffer has a fixed width and can be
  read back from its bytes (\<open>layout\<close>). Where the structure has no constant fields and no
  padding, any bytes of that width are the layout of some value (\<open>codec\<close>).
\<close>

locale layout =
  fixes enc :: "'a \<Rightarrow> u8 list" and dec :: "u8 list \<Rightarrow> 'a" and width :: nat
  assumes length_enc: "length (enc x) = width"
    and dec_enc: "dec (enc x) = x"
begin

lemma dec_take: "dec (take width (enc x @ ys)) = x"
  by (simp add: length_enc dec_enc)

lemma enc_inj: "enc x = enc y \<longleftrightarrow> x = y"
  by (metis dec_enc)

lemma enc_append_eq: "enc x @ xs = enc y @ ys \<longleftrightarrow> x = y \<and> xs = ys"
  by (auto simp: length_enc enc_inj append_eq_append_conv)

lemma length_concat_enc: "length (concat (map enc xs)) = width * length xs"
  by (induction xs) (simp_all add: length_enc)

lemma take_concat_enc: "take (width * n) (concat (map enc xs)) = concat (map enc (take n xs))"
proof (induction xs arbitrary: n)
  case (Cons x xs)
  then show ?case by (cases n) (simp_all add: length_enc)
qed simp

lemma drop_concat_enc: "drop (width * n) (concat (map enc xs)) = concat (map enc (drop n xs))"
proof (induction xs arbitrary: n)
  case (Cons x xs)
  then show ?case by (cases n) (simp_all add: length_enc)
qed simp

lemma nth_concat_enc:
  "i < length xs \<Longrightarrow> dec (take width (drop (width * i) (concat (map enc xs)))) = xs ! i"
  by (simp add: drop_concat_enc Cons_nth_drop_Suc [symmetric] length_enc dec_enc)

end

locale codec = layout +
  assumes enc_dec: "length bs = width \<Longrightarrow> enc (dec bs) = bs"
begin

lemma dec_inj: "length bs = width \<Longrightarrow> length cs = width \<Longrightarrow> dec bs = dec cs \<longleftrightarrow> bs = cs"
  by (metis enc_dec)

lemma dec_eq_iff: "length bs = width \<Longrightarrow> dec bs = x \<longleftrightarrow> bs = enc x"
  by (metis enc_dec dec_enc)

end

text \<open>
  A loop that polls a device until it is ready: every turn is a \<open>poll\<close>, and the loop returns the state
  after the first poll that finds the device ready. It may poll for ever.
\<close>

definition or_hang :: "'a option \<Rightarrow> 'a run" where
  "or_hang r = (case r of None \<Rightarrow> Hang | Some x \<Rightarrow> Ret x)"

lemma or_hang_simps [simp]:
  "or_hang (Some x) = Ret x" "or_hang None = Hang"
  "or_hang r = Ret x \<longleftrightarrow> r = Some x"
  by (simp_all add: or_hang_def split: option.split)

locale polling =
  fixes loop :: "'s \<Rightarrow> 's option" and poll :: "'s \<Rightarrow> 's" and ready :: "'s \<Rightarrow> bool"
  assumes step: "loop s = (if ready (poll s) then Some (poll s) else loop (poll s))"
    and ends: "loop s = Some t \<Longrightarrow> \<exists>k. t = (poll ^^ Suc k) s \<and> ready t"
begin

lemma returns: "ready ((poll ^^ Suc k) s) \<Longrightarrow> \<exists>t. loop s = Some t"
proof (induction k arbitrary: s)
  case 0
  then show ?case using step [of s] by simp
next
  case (Suc k)
  then have "\<exists>t. loop (poll s) = Some t" by (simp add: funpow_swap1)
  then show ?case using step [of s] by simp
qed

lemma returns_iff: "(\<exists>t. loop s = Some t) \<longleftrightarrow> (\<exists>k. ready ((poll ^^ Suc k) s))"
  using returns ends by metis

lemma polls: "loop s = Some t \<Longrightarrow> \<exists>n. t = (poll ^^ n) s"
  using ends by blast

lemma or_hang_Ret: "ready ((poll ^^ Suc k) s) \<Longrightarrow> \<exists>n. or_hang (loop s) = Ret ((poll ^^ n) s)"
  using returns polls by (metis or_hang_simps(1))

end

text \<open>The partial correctness of a loop, in the form its induction rule gives it.\<close>

lemma poll_once: "t = f s \<and> P t \<or> (\<exists>k. t = (f ^^ Suc k) (f s) \<and> P t) \<Longrightarrow> \<exists>k. t = (f ^^ Suc k) s \<and> P t"
proof (elim disjE exE)
  fix k assume "t = (f ^^ Suc k) (f s) \<and> P t"
  then show "\<exists>k. t = (f ^^ Suc k) s \<and> P t" by (intro exI [of _ "Suc k"]) (auto simp: funpow_swap1)
qed (intro exI [of _ 0], auto)

lemma funpow_snoc: "((\<lambda>h. h @ [e]) ^^ n) h = h @ replicate n e"
  by (induction n) (simp_all add: replicate_append_same)

lemma length4_cases:
  assumes "length bs = 4"
  obtains a b c d where "bs = [a, b, c, d]"
  using assms by (auto simp: numeral_eq_Suc length_Suc_conv)

lemma length2_cases:
  assumes "length bs = 2"
  obtains a b where "bs = [a, b]"
  using assms by (auto simp: numeral_eq_Suc length_Suc_conv)

interpretation be32: codec be32 of_be32 4
proof unfold_locales
  fix bs :: "u8 list" assume "length bs = 4"
  then show "be32 (of_be32 bs) = bs"
    by (rule length4_cases) (simp add: be32_def of_be32_def)
qed (simp_all add: be32_def of_be32_def)

interpretation le32: codec le32 of_le32 4
proof unfold_locales
  fix bs :: "u8 list" assume "length bs = 4"
  then show "le32 (of_le32 bs) = bs"
    by (rule length4_cases) (simp add: le32_def of_le32_def)
qed (simp_all add: le32_def of_le32_def)

interpretation be16: codec be16 of_be16 2
proof unfold_locales
  fix bs :: "u8 list" assume "length bs = 2"
  then show "be16 (of_be16 bs) = bs"
    by (rule length2_cases) (simp add: be16_def of_be16_def)
qed (simp_all add: be16_def of_be16_def)

text \<open>A buffer as an array of 32-bit words: the \<open>i\<close>-th word, and storing all of them.\<close>

definition ld32 :: "u8 list \<Rightarrow> nat \<Rightarrow> u32 run" where
  "ld32 buf i = (if 4 * i + 4 \<le> length buf then Ret (of_le32 (take 4 (drop (4 * i) buf)))
     else Undef Out_Of_Bounds)"

definition mem_words :: "u32 list \<Rightarrow> u8 list" where
  "mem_words ws = concat (map le32 ws)"

lemma length_mem_words [simp]: "length (mem_words ws) = 4 * length ws"
  by (simp add: mem_words_def le32.length_concat_enc)

lemma ld32_mem_words:
  assumes "i < length ws"
  shows "ld32 (mem_words ws @ ys) i = Ret (ws ! i)"
proof -
  have "4 * i + 4 \<le> 4 * length ws" using assms by simp
  then have "take 4 (drop (4 * i) (mem_words ws @ ys)) = take 4 (drop (4 * i) (mem_words ws))"
    by simp
  then show ?thesis
    using assms by (simp add: ld32_def mem_words_def le32.nth_concat_enc le32.length_concat_enc)
qed

text \<open>The other way round: the first \<open>n\<close> words of a buffer.\<close>

definition words_of :: "nat \<Rightarrow> u8 list \<Rightarrow> u32 list" where
  "words_of n bs = map (\<lambda>i. of_le32 (take 4 (drop (4 * i) bs))) [0..<n]"

lemma length_words_of [simp]: "length (words_of n bs) = n"
  by (simp add: words_of_def)

lemma words_of_mem_words: "length ws = n \<Longrightarrow> words_of n (mem_words ws) = ws"
  by (rule nth_equalityI) (simp_all add: words_of_def mem_words_def le32.nth_concat_enc)

lemma concat_chunks: "4 * n \<le> length bs \<Longrightarrow> concat (map (\<lambda>i. take 4 (drop (4 * i) bs)) [0..<n]) = take (4 * n) bs"
proof (induction n)
  case (Suc n)
  then show ?case by (simp add: take_add [symmetric] add.commute)
qed simp

lemma mem_words_words_of:
  assumes "length bs = 4 * n" shows "mem_words (words_of n bs) = bs"
proof -
  have "map (le32 \<circ> (\<lambda>i. of_le32 (take 4 (drop (4 * i) bs)))) [0..<n]
      = map (\<lambda>i. take 4 (drop (4 * i) bs)) [0..<n]"
    using assms by (auto intro!: le32.enc_dec)
  then have "mem_words (words_of n bs) = concat (map (\<lambda>i. take 4 (drop (4 * i) bs)) [0..<n])"
    by (simp only: mem_words_def words_of_def map_map)
  then show ?thesis using concat_chunks [of n bs] assms by simp
qed

text \<open>Bytes stored over the front of a buffer.\<close>

definition store :: "u8 list \<Rightarrow> u8 list \<Rightarrow> u8 list" where
  "store bs buf = bs @ drop (length bs) buf"

lemma length_store: "length bs \<le> length buf \<Longrightarrow> length (store bs buf) = length buf"
  by (simp add: store_def)

lemma take_store: "n \<le> length bs \<Longrightarrow> take n (store bs buf) = take n bs"
  by (simp add: store_def)

end
