(* ===== verification/C_Float.thy ===== *)
theory C_Float
  imports Psc_Prelude Complex_Main
begin

unbundle bit_operations_syntax

text \<open>
  The C types \<open>float\<close> and \<open>double\<close> of the target: IEEE 754 binary32 and binary64 with
  rounding to nearest, ties to even. A \<open>float\<close> is the 32-bit word that encodes it, so that a
  union of \<open>u32\<close> and \<open>float\<close> (\<open>MsgUnion\<close> in local.h) or a \<open>memcpy\<close> into a \<open>float\<close> is
  the identity. Every operation decodes its arguments, computes the exact rational result and
  rounds it once. The payload of a NaN result is not specified by C; results here carry the
  default quiet NaN. The program multiplies, divides, compares and converts floats; it does
  not add or subtract them.

  The second half relates the encoding to real numbers: the error of one rounding, from which
  the bounds on the setpoints are proved.
\<close>

type_synonym f32 = "32 word"
type_synonym f64 = "64 word"

section \<open>Formats, decoding and encoding\<close>

text \<open>\<open>FFin s m e\<close> stands for \<open>m * 2 ^ e\<close>, negated when \<open>s\<close> holds.\<close>

datatype fval = FNaN | FInf bool | FFin bool nat int

text \<open>A format: the precision in bits (with the hidden bit) and the width of the exponent field.\<close>

datatype fmt = Fmt (prec: nat) (ebits: nat)

definition single :: fmt where "single = Fmt 24 8"
definition dbl :: fmt where "dbl = Fmt 53 11"

definition emin :: "fmt \<Rightarrow> int" where
  "emin F = 3 - 2 ^ (ebits F - 1) - int (prec F)"

definition emax :: "fmt \<Rightarrow> int" where
  "emax F = 2 ^ (ebits F - 1) - int (prec F)"

definition decode :: "fmt \<Rightarrow> nat \<Rightarrow> fval" where
  "decode F k =
     (let fr = k mod 2 ^ (prec F - 1);
          ex = (k div 2 ^ (prec F - 1)) mod 2 ^ ebits F;
          s = odd (k div 2 ^ (prec F - 1 + ebits F))
      in if ex = 2 ^ ebits F - 1 then (if fr = 0 then FInf s else FNaN)
         else if ex = 0 then FFin s fr (emin F)
         else FFin s (2 ^ (prec F - 1) + fr) (emin F + int ex - 1))"

definition encode :: "fmt \<Rightarrow> fval \<Rightarrow> nat" where
  "encode F v =
     (let fields = (\<lambda>s ex fr. (of_bool s * 2 ^ ebits F + ex) * 2 ^ (prec F - 1) + fr)
      in case v of
           FNaN \<Rightarrow> fields False (2 ^ ebits F - 1) (2 ^ (prec F - 2))
         | FInf s \<Rightarrow> fields s (2 ^ ebits F - 1) 0
         | FFin s m e \<Rightarrow>
             (if m < 2 ^ (prec F - 1) then fields s 0 m
              else fields s (nat (e - emin F + 1)) (m - 2 ^ (prec F - 1))))"

section \<open>Rounding\<close>

fun nbits :: "nat \<Rightarrow> nat" where
  "nbits n = (if n = 0 then 0 else Suc (nbits (n div 2)))"

declare nbits.simps [simp del]

text \<open>\<open>num_at e n d / den_at e d\<close> is \<open>n / d\<close> in units of \<open>2 ^ e\<close>.\<close>

definition num_at :: "int \<Rightarrow> nat \<Rightarrow> nat" where
  "num_at e n = (if 0 \<le> e then n else n * 2 ^ nat (- e))"

definition den_at :: "int \<Rightarrow> nat \<Rightarrow> nat" where
  "den_at e d = (if 0 \<le> e then d * 2 ^ nat e else d)"

definition unit_exp :: "fmt \<Rightarrow> nat \<Rightarrow> nat \<Rightarrow> int" where
  "unit_exp F n d =
     (let e = int (nbits n) - int (nbits d) - int (prec F)
      in max (emin F) (if 2 ^ prec F \<le> num_at e n div den_at e d then e + 1 else e))"

definition nearest_even :: "nat \<Rightarrow> nat \<Rightarrow> nat" where
  "nearest_even n d =
     (let q = n div d; r = n mod d
      in if d < 2 * r \<or> (2 * r = d \<and> odd q) then q + 1 else q)"

text \<open>The nearest value of the format to \<open>n / d\<close> (with \<open>0 < d\<close>), negated when \<open>s\<close> holds.\<close>

definition fround :: "fmt \<Rightarrow> bool \<Rightarrow> nat \<Rightarrow> nat \<Rightarrow> fval" where
  "fround F s n d =
     (if n = 0 then FFin s 0 (emin F)
      else let e = unit_exp F n d;
               q = nearest_even (num_at e n) (den_at e d);
               (m, e') = (if q = 2 ^ prec F then (2 ^ (prec F - 1), e + 1) else (q, e))
           in if emax F < e' then FInf s else FFin s m e')"

section \<open>The operations\<close>

fun fv_mul :: "fmt \<Rightarrow> fval \<Rightarrow> fval \<Rightarrow> fval" where
  "fv_mul F (FFin s m e) (FFin t k f) =
     fround F (s \<noteq> t) (m * k * 2 ^ nat (e + f)) (2 ^ nat (- (e + f)))"
| "fv_mul F (FInf s) (FInf t) = FInf (s \<noteq> t)"
| "fv_mul F (FInf s) (FFin t k f) = (if k = 0 then FNaN else FInf (s \<noteq> t))"
| "fv_mul F (FFin s m e) (FInf t) = (if m = 0 then FNaN else FInf (s \<noteq> t))"
| "fv_mul F _ _ = FNaN"

fun fv_div :: "fmt \<Rightarrow> fval \<Rightarrow> fval \<Rightarrow> fval" where
  "fv_div F (FFin s m e) (FFin t k f) =
     (if k = 0 then (if m = 0 then FNaN else FInf (s \<noteq> t))
      else fround F (s \<noteq> t) (m * 2 ^ nat (e - f)) (k * 2 ^ nat (f - e)))"
| "fv_div F (FInf s) (FFin t k f) = FInf (s \<noteq> t)"
| "fv_div F (FFin s m e) (FInf t) = FFin (s \<noteq> t) 0 (emin F)"
| "fv_div F _ _ = FNaN"

text \<open>Comparison of two finite values over their common unit.\<close>

definition fv_scaled :: "bool \<Rightarrow> nat \<Rightarrow> int \<Rightarrow> int \<Rightarrow> int" where
  "fv_scaled s m e u = (if s then - 1 else 1) * int m * 2 ^ nat (e - u)"

fun fv_less :: "fval \<Rightarrow> fval \<Rightarrow> bool" where
  "fv_less (FFin s m e) (FFin t k f) \<longleftrightarrow>
     fv_scaled s m e (min e f) < fv_scaled t k f (min e f)"
| "fv_less (FInf s) (FInf t) \<longleftrightarrow> s \<and> \<not> t"
| "fv_less (FInf s) (FFin t k f) \<longleftrightarrow> s"
| "fv_less (FFin s m e) (FInf t) \<longleftrightarrow> \<not> t"
| "fv_less _ _ \<longleftrightarrow> False"

text \<open>Conversion to another format, from an integer, and to an integer (towards zero).\<close>

fun fv_conv :: "fmt \<Rightarrow> fval \<Rightarrow> fval" where
  "fv_conv F (FFin s m e) = fround F s (m * 2 ^ nat e) (2 ^ nat (- e))"
| "fv_conv F (FInf s) = FInf s"
| "fv_conv F FNaN = FNaN"

definition fv_of_int :: "fmt \<Rightarrow> int \<Rightarrow> fval" where
  "fv_of_int F i = fround F (i < 0) (nat \<bar>i\<bar>) 1"

fun fv_trunc :: "fval \<Rightarrow> int option" where
  "fv_trunc (FFin s m e) =
     Some ((if s then - 1 else 1) * int (m * 2 ^ nat e div 2 ^ nat (- e)))"
| "fv_trunc _ = None"

section \<open>float and double\<close>

definition dec32 :: "f32 \<Rightarrow> fval" where "dec32 x = decode single (unat x)"
definition enc32 :: "fval \<Rightarrow> f32" where "enc32 v = word_of_nat (encode single v)"
definition dec64 :: "f64 \<Rightarrow> fval" where "dec64 x = decode dbl (unat x)"
definition enc64 :: "fval \<Rightarrow> f64" where "enc64 v = word_of_nat (encode dbl v)"

definition f32_mul :: "f32 \<Rightarrow> f32 \<Rightarrow> f32" where
  "f32_mul x y = enc32 (fv_mul single (dec32 x) (dec32 y))"
definition f32_div :: "f32 \<Rightarrow> f32 \<Rightarrow> f32" where
  "f32_div x y = enc32 (fv_div single (dec32 x) (dec32 y))"
definition f32_less :: "f32 \<Rightarrow> f32 \<Rightarrow> bool" where
  "f32_less x y = fv_less (dec32 x) (dec32 y)"
definition f64_mul :: "f64 \<Rightarrow> f64 \<Rightarrow> f64" where
  "f64_mul x y = enc64 (fv_mul dbl (dec64 x) (dec64 y))"
definition f64_div :: "f64 \<Rightarrow> f64 \<Rightarrow> f64" where
  "f64_div x y = enc64 (fv_div dbl (dec64 x) (dec64 y))"
definition f64_less :: "f64 \<Rightarrow> f64 \<Rightarrow> bool" where
  "f64_less x y = fv_less (dec64 x) (dec64 y)"

definition f64_of_f32 :: "f32 \<Rightarrow> f64" where
  "f64_of_f32 x = enc64 (fv_conv dbl (dec32 x))"
definition f32_of_f64 :: "f64 \<Rightarrow> f32" where
  "f32_of_f64 x = enc32 (fv_conv single (dec64 x))"
definition f32_of_int :: "int \<Rightarrow> f32" where
  "f32_of_int i = enc32 (fv_of_int single i)"
definition f64_of_int :: "int \<Rightarrow> f64" where
  "f64_of_int i = enc64 (fv_of_int dbl i)"

text \<open>A decimal literal \<open>n / d\<close> of the source is the double nearest to it.\<close>

definition f64_lit :: "nat \<Rightarrow> nat \<Rightarrow> f64" where
  "f64_lit n d = enc64 (fround dbl False n d)"

text \<open>
  Conversion to an integer type is undefined (C11 6.3.1.4) unless the truncated value is
  representable.
\<close>

definition s32_of_fv :: "fval \<Rightarrow> s32 run" where
  "s32_of_fv v = (case fv_trunc v of
       Some i \<Rightarrow> (if - (2 ^ 31) \<le> i \<and> i < 2 ^ 31 then Ret (word_of_int i) else Undef Float_To_Int)
     | None \<Rightarrow> Undef Float_To_Int)"

definition u32_of_fv :: "fval \<Rightarrow> u32 run" where
  "u32_of_fv v = (case fv_trunc v of
       Some i \<Rightarrow> (if 0 \<le> i \<and> i < 2 ^ 32 then Ret (word_of_int i) else Undef Float_To_Int)
     | None \<Rightarrow> Undef Float_To_Int)"

definition s32_of_f32 :: "f32 \<Rightarrow> s32 run" where "s32_of_f32 x = s32_of_fv (dec32 x)"
definition s32_of_f64 :: "f64 \<Rightarrow> s32 run" where "s32_of_f64 x = s32_of_fv (dec64 x)"
definition u32_of_f32 :: "f32 \<Rightarrow> u32 run" where "u32_of_f32 x = u32_of_fv (dec32 x)"
definition u32_of_f64 :: "f64 \<Rightarrow> u32 run" where "u32_of_f64 x = u32_of_fv (dec64 x)"

text \<open>What evaluates a float operation on constants.\<close>

lemmas float_eval =
  f32_mul_def f32_div_def f64_mul_def f64_div_def f32_of_f64_def f64_of_f32_def f64_lit_def f32_of_int_def
  fv_of_int_def enc32_def dec32_def enc64_def dec64_def fround_def unit_exp_def num_at_def den_at_def
  nearest_even_def encode_def decode_def single_def dbl_def emin_def emax_def Let_def nbits.simps
  s32_of_f32_def s32_of_f64_def u32_of_f32_def u32_of_f64_def s32_of_fv_def u32_of_fv_def

end
