(* ===== verification/Float_Real.thy ===== *)
theory Float_Real
  imports C_Float
begin

text \<open>
  The floats of \<open>C_Float\<close> as real numbers: one rounding is within half a unit of the exact
  value (\<open>fround_finite\<close>), canonical values survive their encoding (\<open>decode_encode\<close>), and so
  every operation is the real operation up to a relative error of \<open>2 ^ -24\<close> (float) or
  \<open>2 ^ -53\<close> (double) and an absolute error below the least positive value. Comparison is exact
  and truncation is the integer part.
\<close>

section \<open>Values of floats\<close>

fun fv_real :: "fval \<Rightarrow> real" where
  "fv_real (FFin s m e) = (if s then - 1 else 1) * real m * 2 powi e"
| "fv_real _ = 0"

fun canonical :: "fmt \<Rightarrow> fval \<Rightarrow> bool" where
  "canonical F (FFin s m e) \<longleftrightarrow>
     m < 2 ^ prec F \<and> emin F \<le> e \<and> e \<le> emax F \<and> (e = emin F \<or> 2 ^ (prec F - 1) \<le> m)"
| "canonical F _ \<longleftrightarrow> False"

definition fmt_ok :: "fmt \<Rightarrow> bool" where
  "fmt_ok F \<longleftrightarrow> 2 \<le> prec F \<and> 2 \<le> ebits F"

lemma powi2_pos [simp]: "\<not> (2::real) powi e \<le> 0" "\<not> (2::real) powi e < 0"
  by (simp_all add: not_le not_less)

lemma fmt_ok_formats [simp]: "fmt_ok single" "fmt_ok dbl"
  by (simp_all add: fmt_ok_def single_def dbl_def)

lemma fmt_ok_range:
  assumes "fmt_ok F"
  shows "emin F < emax F"
proof -
  have "(2::int) ^ 1 \<le> 2 ^ (ebits F - 1)"
    using assms by (intro power_increasing) (auto simp: fmt_ok_def)
  then show ?thesis by (simp add: emin_def emax_def)
qed

lemma nbits_bounds: "0 < n \<Longrightarrow> 2 ^ (nbits n - 1) \<le> n \<and> n < 2 ^ nbits n"
proof (induction n rule: nbits.induct)
  case (1 n)
  show ?case
  proof (cases "n div 2 = 0")
    case True
    with "1.prems" have "n = 1" by auto
    then show ?thesis by (simp add: nbits.simps)
  next
    case False
    with 1 have IH: "2 ^ (nbits (n div 2) - 1) \<le> n div 2" "n div 2 < 2 ^ nbits (n div 2)" by auto
    from False have "0 < nbits (n div 2)" by (subst nbits.simps) auto
    then obtain b where b: "nbits (n div 2) = Suc b" by (cases "nbits (n div 2)") auto
    have "nbits n = Suc (Suc b)" using 1 b by (subst nbits.simps) auto
    with IH b have "2 ^ nbits n = 4 * (2 ^ b :: nat)" "2 ^ (nbits n - 1) = 2 * (2 ^ b :: nat)"
      "2 ^ b \<le> n div 2" "n div 2 < 2 * 2 ^ b" by simp_all
    then show ?thesis by linarith
  qed
qed

lemma den_at_pos [simp]: "0 < d \<Longrightarrow> 0 < den_at e d"
  by (simp add: den_at_def)

lemma num_den_at:
  "0 < d \<Longrightarrow> real (num_at e n) / real (den_at e d) = real n / real d / 2 powi e"
  by (auto simp: num_at_def den_at_def power_int_def field_simps)

lemma nearest_even_err:
  assumes "0 < d"
  shows "\<bar>real (nearest_even n d) - real n / real d\<bar> \<le> 1 / 2"
proof -
  have n: "real n = real (n div d) * real d + real (n mod d)"
    by (metis div_mult_mod_eq of_nat_add of_nat_mult)
  have r: "n mod d < d" using assms by simp
  have "real n / real d = real (n div d) + real (n mod d) / real d"
    using assms by (subst n) (simp add: field_simps)
  moreover have "real (n mod d) / real d \<le> 1 / 2" if "\<not> d < 2 * (n mod d)"
    using that assms by (simp add: field_simps)
  moreover have "1 / 2 \<le> real (n mod d) / real d" if "d \<le> 2 * (n mod d)"
    using that assms by (simp add: field_simps)
  moreover have "real (n mod d) / real d < 1" using r assms by simp
  moreover have "0 \<le> real (n mod d) / real d" by simp
  ultimately show ?thesis
    by (auto simp: nearest_even_def Let_def abs_le_iff)
qed

lemma nearest_even_lower: "a \<le> n div d \<Longrightarrow> a \<le> nearest_even n d"
  by (auto simp: nearest_even_def Let_def)

lemma nearest_even_upper: "n div d < a \<Longrightarrow> nearest_even n d \<le> a"
  by (auto simp: nearest_even_def Let_def)


section \<open>One rounding\<close>

lemma unit_exp_spec:
  assumes n: "0 < n" and d: "0 < d" and F: "fmt_ok F"
  defines "e \<equiv> unit_exp F n d"
  shows "emin F \<le> e"
    and "num_at e n div den_at e d < 2 ^ prec F"
    and "emin F < e \<Longrightarrow> 2 ^ (prec F - 1) * 2 powi e \<le> real n / real d"
proof -
  define x where "x = real n / real d"
  define k where "k = int (nbits n) - int (nbits d)"
  define e0 where "e0 = k - int (prec F)"
  have quot: "num_at f n div den_at f d < c \<longleftrightarrow> x / 2 powi f < real c" for f c
  proof -
    have pos: "0 < den_at f d" using d by simp
    have "num_at f n div den_at f d < c \<longleftrightarrow> num_at f n < c * den_at f d"
      using pos by (simp add: div_less_iff_less_mult)
    also have "\<dots> \<longleftrightarrow> real (num_at f n) < real c * real (den_at f d)"
      by (simp flip: of_nat_mult)
    also have "\<dots> \<longleftrightarrow> real (num_at f n) / real (den_at f d) < real c"
      using pos by (simp add: divide_less_eq)
    finally show ?thesis using d by (simp add: num_den_at x_def)
  qed
  have p: "0 < prec F" using F by (simp add: fmt_ok_def)
  have nb: "0 < nbits n" "0 < nbits d" using n d by (subst nbits.simps; simp)+
  have x: "2 powi (k - 1) < x" "x < 2 powi (k + 1)"
  proof -
    have n': "2 ^ (nbits n - 1) \<le> real n" "real n < 2 ^ nbits n"
      and d': "2 ^ (nbits d - 1) \<le> real d" "real d < 2 ^ nbits d"
      using nbits_bounds [OF n] nbits_bounds [OF d]
      by (metis of_nat_le_iff of_nat_numeral of_nat_power, metis of_nat_less_iff of_nat_numeral of_nat_power)+
    have "2 powi (k - 1) = (2 ^ (nbits n - 1) :: real) / 2 ^ nbits d"
      using nb by (simp add: k_def power_int_diff of_nat_diff power_diff)
    also have "\<dots> < x"
      unfolding x_def using n' d' d by (intro frac_less2) auto
    finally show "2 powi (k - 1) < x" .
    have "x < (2 ^ nbits n :: real) / 2 ^ (nbits d - 1)"
      unfolding x_def using n' d' n by (intro frac_less) auto
    also have "\<dots> = 2 powi (k + 1)"
      using nb by (simp add: k_def power_int_diff power_int_add of_nat_diff power_diff)
    finally show "x < 2 powi (k + 1)" .
  qed
  have e: "e = max (emin F) (if 2 ^ prec F \<le> num_at e0 n div den_at e0 d then e0 + 1 else e0)"
    by (simp add: e_def unit_exp_def Let_def e0_def k_def)
  have p: "0 < prec F" using F by (simp add: fmt_ok_def)
  have p2: "(2::real) ^ prec F = 2 powi int (prec F)" by simp
  have p1: "(2::real) ^ (prec F - 1) = 2 powi (int (prec F) - 1)"
    using p by (simp add: power_int_diff power_diff)
  have top: "2 ^ prec F * 2 powi (e0 + 1) = (2::real) powi (k + 1)"
    unfolding p2 by (subst power_int_add [symmetric]) (simp_all add: e0_def)
  have bot: "2 ^ (prec F - 1) * 2 powi e0 = (2::real) powi (k - 1)"
    unfolding p1 by (subst power_int_add [symmetric]) (simp_all add: e0_def)
  have step: "2 ^ (prec F - 1) * 2 powi (e0 + 1) = (2::real) ^ prec F * 2 powi e0"
    using p by (cases "prec F") (simp_all add: power_int_add)
  show "emin F \<le> e" by (simp add: e)
  show "num_at e n div den_at e d < 2 ^ prec F"
  proof -
    have mono: "x / 2 powi f < 2 ^ prec F" if "x / 2 powi g < 2 ^ prec F" "g \<le> f" for f g
    proof -
      have "(2::real) powi g \<le> 2 powi f" using that(2) by (intro power_int_increasing) auto
      then have "x / 2 powi f \<le> x / 2 powi g"
        by (intro divide_left_mono) (auto simp: x_def)
      with that(1) show ?thesis by simp
    qed
    have "x / 2 powi (e0 + 1) < 2 ^ prec F"
      using x(2) by (simp add: divide_less_eq top)
    moreover have "x / 2 powi e0 < 2 ^ prec F" if "num_at e0 n div den_at e0 d < 2 ^ prec F"
      using that quot [of e0 "2 ^ prec F"] by simp
    ultimately have "x / 2 powi e < 2 ^ prec F"
      by (cases "2 ^ prec F \<le> num_at e0 n div den_at e0 d")
        (rule mono, simp, simp add: e, rule mono, simp, simp add: e)
    with quot [of e "2 ^ prec F"] show ?thesis by simp
  qed
  show "2 ^ (prec F - 1) * 2 powi e \<le> real n / real d" if "emin F < e"
  proof (cases "2 ^ prec F \<le> num_at e0 n div den_at e0 d")
    case True
    with that have "e = e0 + 1" by (simp add: e max_def split: if_splits)
    moreover have "2 ^ prec F \<le> x / 2 powi e0" using True quot [of e0 "2 ^ prec F"] by simp
    ultimately show ?thesis
      using step by (simp add: x_def [symmetric] le_divide_eq)
  next
    case False
    with that have "e = e0" by (simp add: e max_def split: if_splits)
    then show ?thesis
      using x(1) bot by (simp add: x_def [symmetric])
  qed
qed

text \<open>
  Rounding \<open>n / d\<close> gives a canonical value of the format unless the exact value is out of
  range; its relative error is at most \<open>2 ^ - prec\<close>, or its absolute error half the least
  positive value.
\<close>

lemma fround_finite:
  assumes d: "0 < d" and F: "fmt_ok F"
    and range: "real n / real d < 2 ^ (prec F - 1) * 2 powi (emax F)"
  shows "\<exists>m e. fround F s n d = FFin s m e \<and> canonical F (FFin s m e) \<and>
    \<bar>real m * 2 powi e - real n / real d\<bar>
      \<le> max (real n / real d / 2 ^ prec F) (2 powi (emin F) / 2)"
proof (cases "n = 0")
  case True
  then show ?thesis using fmt_ok_range [OF F] by (simp add: fround_def)
next
  case False
  then have n: "0 < n" by simp
  define x where "x = real n / real d"
  define e where "e = unit_exp F n d"
  define q where "q = nearest_even (num_at e n) (den_at e d)"
  note spec = unit_exp_spec [OF n d F, folded e_def x_def]
  have p: "0 < prec F" using F by (simp add: fmt_ok_def)
  have q_le: "q \<le> 2 ^ prec F" unfolding q_def by (rule nearest_even_upper) (rule spec(2))
  have "\<bar>real q - x / 2 powi e\<bar> \<le> 1 / 2"
    unfolding q_def x_def using nearest_even_err [OF den_at_pos [OF d], of "num_at e n" e] d
    by (simp add: num_den_at)
  then have "\<bar>real q - x / 2 powi e\<bar> * 2 powi e \<le> 2 powi e / 2"
    by (simp add: mult_right_mono)
  moreover have "real q * 2 powi e - x = (real q - x / 2 powi e) * 2 powi e"
    by (simp add: left_diff_distrib)
  then have "\<bar>real q - x / 2 powi e\<bar> * 2 powi e = \<bar>real q * 2 powi e - x\<bar>"
    by (simp add: abs_mult)
  ultimately have err: "\<bar>real q * 2 powi e - x\<bar> \<le> 2 powi e / 2" by simp
  have bound: "2 powi e / 2 \<le> max (x / 2 ^ prec F) (2 powi (emin F) / 2)"
  proof (cases "emin F < e")
    case True
    with spec(3) have "2 ^ (prec F - 1) * 2 powi e \<le> x" by simp
    then have "2 powi e / 2 \<le> x / 2 ^ prec F"
      using p by (cases "prec F") (simp_all add: field_simps)
    then show ?thesis by (rule max.coboundedI1)
  next
    case False
    with spec(1) show ?thesis by simp
  qed
  have e_less: "e < emax F"
  proof (cases "emin F < e")
    case True
    with spec(3) have "2 ^ (prec F - 1) * 2 powi e \<le> x" by simp
    also have "\<dots> < 2 ^ (prec F - 1) * 2 powi emax F" using range by (simp add: x_def)
    finally have "(2::real) powi e < 2 powi emax F" by simp
    then show ?thesis
      using power_int_increasing [of "emax F" e "2::real"] by (auto simp: not_le [symmetric])
  next
    case False
    with spec(1) fmt_ok_range [OF F] show ?thesis by simp
  qed
  have q_ge: "2 ^ (prec F - 1) \<le> q" if "emin F < e"
  proof -
    have "2 ^ (prec F - 1) \<le> x / 2 powi e" using spec(3) that by (simp add: le_divide_eq)
    also have "x / 2 powi e = real (num_at e n) / real (den_at e d)"
      using d by (simp add: num_den_at x_def)
    finally have "real (2 ^ (prec F - 1) * den_at e d) \<le> real (num_at e n)"
      using den_at_pos [OF d] by (simp add: le_divide_eq)
    then have "2 ^ (prec F - 1) * den_at e d \<le> num_at e n" by (simp only: of_nat_le_iff)
    then have "2 ^ (prec F - 1) \<le> num_at e n div den_at e d"
      using den_at_pos [OF d] by (simp add: less_eq_div_iff_mult_less_eq)
    then show ?thesis unfolding q_def by (rule nearest_even_lower)
  qed
  show ?thesis
  proof (cases "q = 2 ^ prec F")
    case True
    then have "fround F s n d = FFin s (2 ^ (prec F - 1)) (e + 1)"
      using n e_less by (simp add: fround_def Let_def e_def q_def)
    moreover have "real (2 ^ (prec F - 1)) * 2 powi (e + 1) = real q * 2 powi e"
      using p True by (cases "prec F") (simp_all add: power_int_add)
    ultimately show ?thesis
      using e_less err bound spec(1) p by (auto simp: x_def)
  next
    case False
    then have "fround F s n d = FFin s q e"
      using n e_less by (simp add: fround_def Let_def e_def q_def)
    then show ?thesis
      using e_less err bound spec(1) q_le q_ge False by (fastforce simp: x_def)
  qed
qed

section \<open>Encoding canonical values\<close>

lemma encode_fields:
  fixes s :: bool
  assumes "ex < 2 ^ w" "fr < (2 ^ q :: nat)"
  defines "k \<equiv> (of_bool s * 2 ^ w + ex) * 2 ^ q + fr"
  shows "k mod 2 ^ q = fr" "k div 2 ^ q mod 2 ^ w = ex"
    and "odd (k div 2 ^ (q + w)) = s" "k < 2 ^ (q + w + 1)"
proof -
  have div: "k div 2 ^ q = of_bool s * 2 ^ w + ex" using assms by (simp add: k_def)
  show "k mod 2 ^ q = fr" using assms by (simp add: k_def)
  show "k div 2 ^ q mod 2 ^ w = ex" using assms(1) by (simp add: div)
  have "k div 2 ^ (q + w) = k div 2 ^ q div 2 ^ w" by (simp add: power_add div_mult2_eq)
  also have "\<dots> = of_bool s" using assms(1) by (simp add: div)
  finally show "odd (k div 2 ^ (q + w)) = s" by simp
  have "(of_bool s * 2 ^ w + ex) + 1 \<le> 2 * 2 ^ w" using assms(1) by (cases s) auto
  then have "((of_bool s * 2 ^ w + ex) + 1) * 2 ^ q \<le> (2 * 2 ^ w) * 2 ^ q" by (rule mult_le_mono1)
  then show "k < 2 ^ (q + w + 1)"
    using assms(2) by (simp add: k_def power_add algebra_simps)
qed

definition fields :: "nat \<Rightarrow> nat \<Rightarrow> bool \<Rightarrow> nat \<Rightarrow> nat \<Rightarrow> nat" where
  "fields w q s ex fr = (of_bool s * 2 ^ w + ex) * 2 ^ q + fr"

lemma encode_FFin:
  "encode F (FFin s m e) =
     (if m < 2 ^ (prec F - 1) then fields (ebits F) (prec F - 1) s 0 m
      else fields (ebits F) (prec F - 1) s (nat (e - emin F + 1)) (m - 2 ^ (prec F - 1)))"
  by (simp add: encode_def fields_def)

lemma decode_fields:
  assumes "ex < 2 ^ ebits F" "fr < 2 ^ (prec F - 1)" "fmt_ok F"
  shows "decode F (fields (ebits F) (prec F - 1) s ex fr) =
      (if ex = 2 ^ ebits F - 1 then (if fr = 0 then FInf s else FNaN)
       else if ex = 0 then FFin s fr (emin F)
       else FFin s (2 ^ (prec F - 1) + fr) (emin F + int ex - 1))"
    and "fields (ebits F) (prec F - 1) s ex fr < 2 ^ (prec F + ebits F)"
proof -
  define k where "k = fields (ebits F) (prec F - 1) s ex fr"
  note parts = encode_fields [OF assms(1,2), of s, folded fields_def, folded k_def]
  then show "decode F (fields (ebits F) (prec F - 1) s ex fr) =
      (if ex = 2 ^ ebits F - 1 then (if fr = 0 then FInf s else FNaN)
       else if ex = 0 then FFin s fr (emin F)
       else FFin s (2 ^ (prec F - 1) + fr) (emin F + int ex - 1))"
    by (simp only: k_def [symmetric] decode_def Let_def)
  have "prec F - 1 + ebits F + 1 = prec F + ebits F" using assms(3) by (simp add: fmt_ok_def)
  with parts(4) show "fields (ebits F) (prec F - 1) s ex fr < 2 ^ (prec F + ebits F)"
    by (simp only: k_def [symmetric])
qed

lemma decode_encode:
  assumes can: "canonical F (FFin s m e)" and F: "fmt_ok F"
  shows "decode F (encode F (FFin s m e)) = FFin s m e"
    and "encode F (FFin s m e) < 2 ^ (prec F + ebits F)"
proof -
  obtain w where w: "ebits F = Suc (Suc w)" using F by (auto simp: fmt_ok_def dest!: le_Suc_ex)
  have p: "(2::nat) ^ prec F = 2 * 2 ^ (prec F - 1)"
    using F by (cases "prec F") (simp_all add: fmt_ok_def)
  have pow: "2 ^ Suc (Suc w) = (4 * 2 ^ w :: nat)" "(1::nat) \<le> 2 ^ w" by simp_all
  have nz: "0 < (2::nat) ^ ebits F" "0 \<noteq> 2 ^ ebits F - (1::nat)" using pow unfolding w by linarith+
  define ex where "ex = nat (e - emin F + 1)"
  have rng: "emax F - emin F = 2 * 2 ^ Suc w - 3" using w by (simp add: emin_def emax_def)
  have e: "emin F \<le> e" "e \<le> emax F" "m < 2 ^ prec F" "e = emin F \<or> 2 ^ (prec F - 1) \<le> m"
    using can by simp_all
  have "int ex \<le> 2 * 2 ^ Suc w - 2" using e rng by (simp add: ex_def)
  then have "int ex < int (2 ^ ebits F - 1)" using w by (simp add: of_nat_diff)
  then have "ex < 2 ^ ebits F - 1" by (simp only: of_nat_less_iff)
  moreover have "ex \<noteq> 0" "emin F + int ex - 1 = e" using e by (simp_all add: ex_def)
  ultimately have ex: "ex \<noteq> 0" "ex \<noteq> 2 ^ ebits F - 1" "ex < 2 ^ ebits F" "emin F + int ex - 1 = e"
    by linarith+
  have "decode F (encode F (FFin s m e)) = FFin s m e \<and>
      encode F (FFin s m e) < 2 ^ (prec F + ebits F)"
  proof (cases "m < 2 ^ (prec F - 1)")
    case True
    with e have "e = emin F" by simp
    with decode_fields [OF nz(1) True F, of s] True nz show ?thesis
      by (simp only: encode_FFin if_True if_False) simp
  next
    case False
    then have fr: "m - 2 ^ (prec F - 1) < 2 ^ (prec F - 1)" using e(3) p by simp
    from decode_fields [OF ex(3) fr F, of s] ex False show ?thesis
      by (simp only: encode_FFin if_False ex_def [symmetric]) simp
  qed
  then show "decode F (encode F (FFin s m e)) = FFin s m e"
    and "encode F (FFin s m e) < 2 ^ (prec F + ebits F)" by auto
qed

lemma dec32_enc32:
  assumes "canonical single (FFin s m e)"
  shows "dec32 (enc32 (FFin s m e)) = FFin s m e"
proof -
  have "prec single + ebits single = 32" by (simp add: single_def)
  with decode_encode [OF assms fmt_ok_formats(1)] show ?thesis
    by (simp add: dec32_def enc32_def unat_of_nat take_bit_eq_mod)
qed

lemma dec64_enc64:
  assumes "canonical dbl (FFin s m e)"
  shows "dec64 (enc64 (FFin s m e)) = FFin s m e"
proof -
  have "prec dbl + ebits dbl = 64" by (simp add: dbl_def)
  with decode_encode [OF assms fmt_ok_formats(2)] show ?thesis
    by (simp add: dec64_def enc64_def unat_of_nat take_bit_eq_mod)
qed

section \<open>float and double as real numbers\<close>

definition sg :: "bool \<Rightarrow> real" where "sg s = (if s then - 1 else 1)"

lemma abs_sg [simp]: "\<bar>sg s * x\<bar> = \<bar>x\<bar>" "sg s * sg s = 1"
  by (simp_all add: sg_def)

lemma sg_neq: "sg (s \<noteq> t) = sg s * sg t"
  by (auto simp: sg_def)

lemma fv_real_FFin: "fv_real (FFin s m e) = sg s * (real m * 2 powi e)"
  by (simp add: sg_def)

fun fv_finite :: "fval \<Rightarrow> bool" where
  "fv_finite (FFin s m e) = True"
| "fv_finite _ = False"

lemma fv_finiteE:
  assumes "fv_finite v"
  obtains s m e where "v = FFin s m e"
  using assms by (cases v) auto

definition fin32 :: "f32 \<Rightarrow> bool" where "fin32 x = fv_finite (dec32 x)"
definition val32 :: "f32 \<Rightarrow> real" where "val32 x = fv_real (dec32 x)"
definition fin64 :: "f64 \<Rightarrow> bool" where "fin64 x = fv_finite (dec64 x)"
definition val64 :: "f64 \<Rightarrow> real" where "val64 x = fv_real (dec64 x)"

text \<open>\<open>near p t y x\<close>: \<open>y\<close> is \<open>x\<close> up to a relative error \<open>2 ^ - p\<close> and an absolute error \<open>t\<close>.\<close>

definition near :: "nat \<Rightarrow> real \<Rightarrow> real \<Rightarrow> real \<Rightarrow> bool" where
  "near p t y x \<longleftrightarrow> \<bar>y - x\<bar> \<le> \<bar>x\<bar> / 2 ^ p + t"

lemma near_sg: "near p t y x \<Longrightarrow> near p t (sg s * y) (sg s * x)"
  by (auto simp: near_def sg_def)

lemma near_upper: "near p t y x \<Longrightarrow> \<bar>y\<bar> \<le> \<bar>x\<bar> * (1 + 1 / 2 ^ p) + t"
  by (simp add: near_def algebra_simps)

abbreviation "tiny32 \<equiv> (2 powi (- 150) :: real)"
abbreviation "tiny64 \<equiv> (2 powi (- 1075) :: real)"

lemma fround_near:
  assumes "0 < d" "fmt_ok F" "real n / real d < 2 ^ (prec F - 1) * 2 powi (emax F)"
  shows "\<exists>m e. fround F s n d = FFin s m e \<and> canonical F (FFin s m e) \<and>
    near (prec F) (2 powi (emin F) / 2) (fv_real (FFin s m e)) (sg s * (real n / real d))"
proof -
  from fround_finite [OF assms, of s] obtain m e where me: "fround F s n d = FFin s m e"
      "canonical F (FFin s m e)"
      "\<bar>real m * 2 powi e - real n / real d\<bar> \<le> max (real n / real d / 2 ^ prec F) (2 powi (emin F) / 2)"
    by blast
  have mx: "max (real n / real d / 2 ^ prec F) (2 powi (emin F) / 2)
      \<le> real n / real d / 2 ^ prec F + 2 powi (emin F) / 2"
    by (simp add: max_def)
  have "near (prec F) (2 powi (emin F) / 2) (real m * 2 powi e) (real n / real d)"
    unfolding near_def using order_trans [OF me(3) mx] by simp
  then have "near (prec F) (2 powi (emin F) / 2) (fv_real (FFin s m e)) (sg s * (real n / real d))"
    unfolding fv_real_FFin by (rule near_sg)
  with me(1,2) show ?thesis by blast
qed

lemma single_consts: "prec single = 24" "emin single = - 149" "emax single = 104"
  by (simp_all add: single_def emin_def emax_def)

lemma dbl_consts: "prec dbl = 53" "emin dbl = - 1074" "emax dbl = 971"
  by (simp_all add: dbl_def emin_def emax_def)

lemma enc32_fround:
  assumes "0 < d" "real n / real d < 2 ^ 127"
  shows "fin32 (enc32 (fround single s n d))"
    and "near 24 tiny32 (val32 (enc32 (fround single s n d))) (sg s * (real n / real d))"
proof -
  have "2 ^ (prec single - 1) * 2 powi (emax single) = (2 ^ 127 :: real)"
    by (simp add: single_consts)
  with fround_near [of d single n s] assms obtain m e where
    "fround single s n d = FFin s m e" "canonical single (FFin s m e)"
    "near (prec single) (2 powi (emin single) / 2) (fv_real (FFin s m e)) (sg s * (real n / real d))"
    by auto
  moreover have "2 powi (emin single) / 2 = tiny32" by (simp add: single_consts power_int_minus)
  ultimately show "fin32 (enc32 (fround single s n d))"
    and "near 24 tiny32 (val32 (enc32 (fround single s n d))) (sg s * (real n / real d))"
    by (simp_all add: fin32_def val32_def dec32_enc32 single_consts del: fv_real.simps canonical.simps)
qed

lemma enc64_fround:
  assumes "0 < d" "real n / real d < 2 ^ 1023"
  shows "fin64 (enc64 (fround dbl s n d))"
    and "near 53 tiny64 (val64 (enc64 (fround dbl s n d))) (sg s * (real n / real d))"
proof -
  have "2 ^ (prec dbl - 1) * 2 powi (emax dbl) = (2 ^ 1023 :: real)"
    by (simp add: dbl_consts)
  with fround_near [of d dbl n s] assms obtain m e where
    "fround dbl s n d = FFin s m e" "canonical dbl (FFin s m e)"
    "near (prec dbl) (2 powi (emin dbl) / 2) (fv_real (FFin s m e)) (sg s * (real n / real d))"
    by auto
  moreover have "2 powi (emin dbl) / 2 = tiny64" by (simp add: dbl_consts power_int_minus)
  ultimately show "fin64 (enc64 (fround dbl s n d))"
    and "near 53 tiny64 (val64 (enc64 (fround dbl s n d))) (sg s * (real n / real d))"
    by (simp_all add: fin64_def val64_def dec64_enc64 dbl_consts del: fv_real.simps canonical.simps)
qed

text \<open>The quotient that each operation rounds is the exact result.\<close>

lemma pow_frac: "real (2 ^ nat e) / real (2 ^ nat (- e)) = 2 powi e"
  by (auto simp: power_int_def field_simps)

lemma pow_frac_diff: "real (2 ^ nat (e - f)) / real (2 ^ nat (f - e)) = 2 powi e / 2 powi f"
  using pow_frac [of "e - f"] by (simp add: power_int_diff)

lemma fv_mul_exact:
  assumes "fv_finite v" "fv_finite w"
  obtains s n d where "fv_mul F v w = fround F s n d" "0 < d"
    "sg s * (real n / real d) = fv_real v * fv_real w"
proof -
  from assms obtain s m e t k f where vw: "v = FFin s m e" "w = FFin t k f" by (metis fv_finiteE)
  let ?n = "m * k * 2 ^ nat (e + f)" and ?d = "(2::nat) ^ nat (- (e + f))"
  have "real ?n / real ?d = (real m * 2 powi e) * (real k * 2 powi f)"
    using pow_frac [of "e + f"] by (simp add: power_int_add times_divide_eq_right [symmetric]
        del: times_divide_eq_right)
  then have "sg (s \<noteq> t) * (real ?n / real ?d) = fv_real v * fv_real w"
    unfolding sg_neq vw fv_real_FFin by simp
  then show thesis by (rule that [rotated 2]) (simp_all add: vw)
qed

lemma fv_div_exact:
  assumes "fv_finite v" "fv_finite w" "fv_real w \<noteq> 0"
  obtains s n d where "fv_div F v w = fround F s n d" "0 < d"
    "sg s * (real n / real d) = fv_real v / fv_real w"
proof -
  from assms obtain s m e t k f where vw: "v = FFin s m e" "w = FFin t k f" by (metis fv_finiteE)
  let ?n = "m * 2 ^ nat (e - f)" and ?d = "k * 2 ^ nat (f - e)"
  have k: "k \<noteq> 0" using assms(3) by (auto simp: vw)
  have "real ?n / real ?d = real m / real k * (real (2 ^ nat (e - f)) / real (2 ^ nat (f - e)))"
    by simp
  then have "real ?n / real ?d = (real m * 2 powi e) / (real k * 2 powi f)"
    unfolding pow_frac_diff by simp
  moreover have "sg (s \<noteq> t) = sg s / sg t" by (simp add: sg_def)
  ultimately have "sg (s \<noteq> t) * (real ?n / real ?d) = fv_real v / fv_real w"
    unfolding vw fv_real_FFin by simp
  then show thesis by (rule that [rotated 2]) (use k in \<open>simp_all add: vw\<close>)
qed

lemma fv_conv_exact:
  assumes "fv_finite v"
  obtains s n d where "fv_conv F v = fround F s n d" "0 < d"
    "sg s * (real n / real d) = fv_real v"
proof -
  from assms obtain s m e where v: "v = FFin s m e" by (metis fv_finiteE)
  have "sg s * (real (m * 2 ^ nat e) / real (2 ^ nat (- e))) = fv_real v"
    using pow_frac [of e] by (simp add: v fv_real_FFin times_divide_eq_right [symmetric]
        del: times_divide_eq_right fv_real.simps)
  then show thesis by (rule that [rotated 2]) (simp_all add: v)
qed

lemma fv_of_int_exact:
  obtains s n d where "fv_of_int F i = fround F s n d" "0 < d"
    "sg s * (real n / real d) = real_of_int i"
proof
  show "fv_of_int F i = fround F (i < 0) (nat \<bar>i\<bar>) 1" by (simp add: fv_of_int_def)
  show "sg (i < 0) * (real (nat \<bar>i\<bar>) / real 1) = real_of_int i" by (simp add: sg_def)
qed simp

lemma near32I:
  assumes "v = fround single s n d" "0 < d" "sg s * (real n / real d) = x" "\<bar>x\<bar> < 2 ^ 127"
  shows "fin32 (enc32 v) \<and> near 24 tiny32 (val32 (enc32 v)) x"
proof -
  have "real n / real d = \<bar>x\<bar>" unfolding assms(3) [symmetric] by simp
  with assms(4) have "real n / real d < 2 ^ 127" by simp
  from enc32_fround [OF assms(2) this, of s] assms(1,3) show ?thesis by simp
qed

lemma near64I:
  assumes "v = fround dbl s n d" "0 < d" "sg s * (real n / real d) = x" "\<bar>x\<bar> < 2 ^ 1023"
  shows "fin64 (enc64 v) \<and> near 53 tiny64 (val64 (enc64 v)) x"
proof -
  have "real n / real d = \<bar>x\<bar>" unfolding assms(3) [symmetric] by simp
  with assms(4) have "real n / real d < 2 ^ 1023" by simp
  from enc64_fround [OF assms(2) this, of s] assms(1,3) show ?thesis by simp
qed

lemma f32_mul_near:
  "fin32 x \<Longrightarrow> fin32 y \<Longrightarrow> \<bar>val32 x * val32 y\<bar> < 2 ^ 127 \<Longrightarrow>
     fin32 (f32_mul x y) \<and> near 24 tiny32 (val32 (f32_mul x y)) (val32 x * val32 y)"
  unfolding f32_mul_def fin32_def [of x] fin32_def [of y] val32_def [of x] val32_def [of y]
  by (rule fv_mul_exact [of "dec32 x" "dec32 y" single]) (assumption+, rule near32I)

lemma f32_div_near:
  "fin32 x \<Longrightarrow> fin32 y \<Longrightarrow> val32 y \<noteq> 0 \<Longrightarrow> \<bar>val32 x / val32 y\<bar> < 2 ^ 127 \<Longrightarrow>
     fin32 (f32_div x y) \<and> near 24 tiny32 (val32 (f32_div x y)) (val32 x / val32 y)"
  unfolding f32_div_def fin32_def [of x] fin32_def [of y] val32_def [of x] val32_def [of y]
  by (rule fv_div_exact [of "dec32 x" "dec32 y" single]) (assumption+, rule near32I)

lemma f64_mul_near:
  "fin64 x \<Longrightarrow> fin64 y \<Longrightarrow> \<bar>val64 x * val64 y\<bar> < 2 ^ 1023 \<Longrightarrow>
     fin64 (f64_mul x y) \<and> near 53 tiny64 (val64 (f64_mul x y)) (val64 x * val64 y)"
  unfolding f64_mul_def fin64_def [of x] fin64_def [of y] val64_def [of x] val64_def [of y]
  by (rule fv_mul_exact [of "dec64 x" "dec64 y" dbl]) (assumption+, rule near64I)

lemma f64_div_near:
  "fin64 x \<Longrightarrow> fin64 y \<Longrightarrow> val64 y \<noteq> 0 \<Longrightarrow> \<bar>val64 x / val64 y\<bar> < 2 ^ 1023 \<Longrightarrow>
     fin64 (f64_div x y) \<and> near 53 tiny64 (val64 (f64_div x y)) (val64 x / val64 y)"
  unfolding f64_div_def fin64_def [of x] fin64_def [of y] val64_def [of x] val64_def [of y]
  by (rule fv_div_exact [of "dec64 x" "dec64 y" dbl]) (assumption+, rule near64I)

lemma f64_of_f32_near:
  "fin32 x \<Longrightarrow> \<bar>val32 x\<bar> < 2 ^ 1023 \<Longrightarrow>
     fin64 (f64_of_f32 x) \<and> near 53 tiny64 (val64 (f64_of_f32 x)) (val32 x)"
  unfolding f64_of_f32_def fin32_def [of x] val32_def [of x]
  by (elim fv_conv_exact [where F = dbl]) (rule near64I)

lemma f32_of_f64_near:
  "fin64 x \<Longrightarrow> \<bar>val64 x\<bar> < 2 ^ 127 \<Longrightarrow>
     fin32 (f32_of_f64 x) \<and> near 24 tiny32 (val32 (f32_of_f64 x)) (val64 x)"
  unfolding f32_of_f64_def fin64_def [of x] val64_def [of x]
  by (elim fv_conv_exact [where F = single]) (rule near32I)

lemma f32_of_int_near:
  "\<bar>real_of_int i\<bar> < 2 ^ 127 \<Longrightarrow>
     fin32 (f32_of_int i) \<and> near 24 tiny32 (val32 (f32_of_int i)) (real_of_int i)"
  unfolding f32_of_int_def
  by (rule fv_of_int_exact [where F = single and i = i]) (rule near32I)

lemma f64_lit_near:
  "0 < d \<Longrightarrow> real n / real d < 2 ^ 1023 \<Longrightarrow>
     fin64 (f64_lit n d) \<and> near 53 tiny64 (val64 (f64_lit n d)) (real n / real d)"
  using near64I [of _ False n d "real n / real d"] by (simp add: f64_lit_def sg_def)

lemma fv_less_real: "fv_finite v \<Longrightarrow> fv_finite w \<Longrightarrow> fv_less v w \<longleftrightarrow> fv_real v < fv_real w"
proof (elim fv_finiteE)
  fix s m e t k f assume vw: "v = FFin s m e" "w = FFin t k f"
  define u where "u = min e f"
  have ue: "u \<le> e" "u \<le> f" by (simp_all add: u_def)
  have scaled: "real_of_int (fv_scaled s' m' e' u) = fv_real (FFin s' m' e') / 2 powi u"
    if "u \<le> e'" for s' m' e'
    using that pow_frac [of "e' - u"]
    by (simp add: fv_scaled_def power_int_diff)
  have "fv_less v w \<longleftrightarrow> real_of_int (fv_scaled s m e u) < real_of_int (fv_scaled t k f u)"
    by (simp add: vw u_def del: of_int_less_iff) (simp only: of_int_less_iff)
  also have "\<dots> \<longleftrightarrow> fv_real v / 2 powi u < fv_real w / 2 powi u"
    by (simp only: vw scaled [OF ue(1)] scaled [OF ue(2)])
  finally show ?thesis by (simp add: divide_less_cancel)
qed

lemma f32_less_val: "fin32 x \<Longrightarrow> fin32 y \<Longrightarrow> f32_less x y \<longleftrightarrow> val32 x < val32 y"
  by (simp add: f32_less_def fin32_def val32_def fv_less_real)

lemma f64_less_val: "fin64 x \<Longrightarrow> fin64 y \<Longrightarrow> f64_less x y \<longleftrightarrow> val64 x < val64 y"
  by (simp add: f64_less_def fin64_def val64_def fv_less_real)

text \<open>Truncation: the integer part, and when the conversion to \<open>s32\<close> is defined.\<close>

lemma fv_trunc_real:
  assumes "fv_finite v"
  obtains i where "fv_trunc v = Some i" "\<bar>real_of_int i\<bar> \<le> \<bar>fv_real v\<bar>"
    "0 \<le> fv_real v \<Longrightarrow> i = \<lfloor>fv_real v\<rfloor>" "fv_real v \<le> 0 \<Longrightarrow> i = - \<lfloor>- fv_real v\<rfloor>"
proof -
  from assms obtain s m e where v: "v = FFin s m e" by (metis fv_finiteE)
  let ?a = "real m * 2 powi e"
  define q where "q = m * 2 ^ nat e div 2 ^ nat (- e)"
  have "real (m * 2 ^ nat e) / real (2 ^ nat (- e)) = ?a"
    using pow_frac [of e] by (simp add: times_divide_eq_right [symmetric] del: times_divide_eq_right)
  then have fl: "int q = \<lfloor>?a\<rfloor>"
    unfolding q_def by (metis floor_divide_of_nat_eq of_int_of_nat_eq)
  have a: "0 \<le> ?a" "0 < (2::real) powi e" by simp_all
  have t: "fv_trunc v = Some ((if s then - 1 else 1) * int q)" by (simp add: v q_def)
  show thesis
  proof (rule that [OF t])
    have "real_of_int \<lfloor>?a\<rfloor> \<le> ?a" by (rule of_int_floor_le)
    moreover have "0 \<le> real_of_int \<lfloor>?a\<rfloor>" using a by simp
    ultimately show "\<bar>real_of_int ((if s then - 1 else 1) * int q)\<bar> \<le> \<bar>fv_real v\<bar>"
      unfolding fl by (simp add: v abs_mult)
    show "(if s then - 1 else 1) * int q = \<lfloor>fv_real v\<rfloor>" if "0 \<le> fv_real v"
      using that a unfolding fl by (cases "?a = 0") (auto simp: v mult_le_0_iff)
    show "(if s then - 1 else 1) * int q = - \<lfloor>- fv_real v\<rfloor>" if "fv_real v \<le> 0"
      using that a unfolding fl by (cases "?a = 0") (auto simp: v mult_le_0_iff)
  qed
qed

end
