(* ===== verification/Pscmsg.thy ===== *)
theory Pscmsg
  imports Psc_Prelude
begin

text \<open>
  pscmsg.c: the framing of messages on a TCP connection. A message is an 8-byte header (the
  letters \<open>P\<close> and \<open>S\<close>, the message id and the length of the body in network byte order)
  followed by the body.

  The lwIP socket calls are parameters: \<open>rcv n w\<close> is \<open>recv\<close> with a buffer of \<open>n\<close> bytes in the
  network state \<open>w\<close>, \<open>tx bs w\<close> is \<open>send\<close> of the bytes \<open>bs\<close>. What the framing relies on is
  stated as \<open>recv_ok\<close> and \<open>send_ok\<close>, the documented behaviour of a stream socket: the bytes
  come in order, at most as many as asked for, in pieces of any size; a call may fail.
\<close>

section \<open>Sockets\<close>

datatype errno = EIO | ENOTCONN | Errno nat

datatype rx = Received "u8 list" | Recv_Error errno
datatype tx = Sent nat | Send_Error errno

type_synonym 'w receiver = "nat \<Rightarrow> 'w \<Rightarrow> rx \<times> 'w"
type_synonym 'w sender = "u8 list \<Rightarrow> 'w \<Rightarrow> tx \<times> 'w"

text \<open>
  \<open>pending\<close>: the bytes the peer has sent and \<open>recv\<close> has not yet returned; \<open>up\<close>: the
  connection delivers pending bytes rather than an error.
\<close>

definition recv_ok :: "'w receiver \<Rightarrow> ('w \<Rightarrow> u8 list) \<Rightarrow> ('w \<Rightarrow> bool) \<Rightarrow> bool" where
  "recv_ok rcv pending up \<longleftrightarrow>
     (\<forall>n w bs w'. rcv n w = (Received bs, w') \<longrightarrow> length bs \<le> n \<and> pending w = bs @ pending w') \<and>
     (\<forall>n w. up w \<longrightarrow> 0 < n \<longrightarrow> pending w \<noteq> [] \<longrightarrow>
        (\<exists>bs w'. rcv n w = (Received bs, w') \<and> bs \<noteq> [] \<and> up w'))"

text \<open>\<open>out\<close>: the bytes \<open>send\<close> has accepted.\<close>

definition send_ok :: "'w sender \<Rightarrow> ('w \<Rightarrow> u8 list) \<Rightarrow> bool" where
  "send_ok tx out \<longleftrightarrow>
     (\<forall>bs w n w'. tx bs w = (Sent n, w') \<longrightarrow> n \<le> length bs \<and> out w' = out w @ take n bs) \<and>
     (\<forall>bs w e w'. tx bs w = (Send_Error e, w') \<longrightarrow> out w' = out w)"

section \<open>Sending\<close>

text \<open>\<open>None\<close> is the return value 0, \<open>Some e\<close> an error code.\<close>

function psc_sendall :: "'w sender \<Rightarrow> u8 list \<Rightarrow> 'w \<Rightarrow> errno option \<times> 'w" where
  "psc_sendall tx buf w =
     (if buf = [] then (None, w)
      else case tx buf w of
          (Send_Error e, w') \<Rightarrow> (Some e, w')
        | (Sent n, w') \<Rightarrow>
            (if n = 0 then (Some ENOTCONN, w') else psc_sendall tx (drop n buf) w'))"
  by pat_completeness auto
termination
  by (relation "measure (\<lambda>(tx, buf, w). length buf)") auto

declare psc_sendall.simps [simp del]

definition psc_header :: "u16 \<times> u32 \<Rightarrow> u8 list" where
  "psc_header h = [0x50, 0x53] @ be16 (fst h) @ be32 (snd h)"

definition psc_sendhead :: "'w sender \<Rightarrow> u16 \<Rightarrow> u32 \<Rightarrow> 'w \<Rightarrow> errno option \<times> 'w" where
  "psc_sendhead tx msgid msglen w = psc_sendall tx (psc_header (msgid, msglen)) w"

text \<open>\<open>psc_sendmsg\<close>: the caller passes the body's length; \<open>msg\<close> is those bytes.\<close>

definition psc_sendmsg :: "'w sender \<Rightarrow> u16 \<Rightarrow> u8 list \<Rightarrow> 'w \<Rightarrow> errno option \<times> 'w" where
  "psc_sendmsg tx msgid msg w =
     (case psc_sendhead tx msgid (word_of_nat (length msg)) w of
        (Some e, w') \<Rightarrow> (Some e, w')
      | (None, w') \<Rightarrow> psc_sendall tx msg w')"

definition psc_sendmsgsingle ::
    "'w sender \<Rightarrow> u16 \<Rightarrow> u32 \<Rightarrow> u8 list \<Rightarrow> 'w \<Rightarrow> errno option \<times> 'w" where
  "psc_sendmsgsingle tx msgid regid msg w =
     (case psc_sendhead tx msgid (word_of_nat (length msg) + 4) w of
        (Some e, w') \<Rightarrow> (Some e, w')
      | (None, w') \<Rightarrow>
          (case psc_sendall tx (le32 (htonl regid)) w' of
             (Some e, w'') \<Rightarrow> (Some e, w'')
           | (None, w'') \<Rightarrow> psc_sendall tx msg w''))"

section \<open>Receiving\<close>

text \<open>
  The bytes stored in the buffer so far are returned with the status, since a failed call may
  have stored some.
\<close>

function psc_recvall :: "'w receiver \<Rightarrow> nat \<Rightarrow> 'w \<Rightarrow> errno option \<times> u8 list \<times> 'w" where
  "psc_recvall rcv buflen w =
     (if buflen = 0 then (None, [], w)
      else case rcv buflen w of
          (Recv_Error e, w') \<Rightarrow> (Some e, [], w')
        | (Received bs, w') \<Rightarrow>
            (if bs = [] then (Some ENOTCONN, [], w')
             else case psc_recvall rcv (buflen - length bs) w' of
                 (r, bs', w'') \<Rightarrow> (r, bs @ bs', w'')))"
  by pat_completeness auto
termination
  by (relation "measure (\<lambda>(rcv, buflen, w). buflen)") auto

declare psc_recvall.simps [simp del]

text \<open>
  \<open>psc_recvskip\<close> reads into \<open>char buf[128]\<close>. The loop leaves on an error as well as when at
  most 128 bytes remain, and the last call asks for all that remain: storing more than 128
  bytes runs over the buffer.
\<close>

definition recvskip_last :: "'w receiver \<Rightarrow> nat \<Rightarrow> 'w \<Rightarrow> errno option run \<times> 'w" where
  "recvskip_last rcv len w =
     (case psc_recvall rcv len w of
        (r, bs, w') \<Rightarrow> (if 128 < length bs then Undef Out_Of_Bounds else Ret r, w'))"

fun psc_recvskip :: "'w receiver \<Rightarrow> nat \<Rightarrow> 'w \<Rightarrow> errno option run \<times> 'w" where
  "psc_recvskip rcv len w =
     (if 128 < len
      then (case psc_recvall rcv 128 w of
              (None, bs, w') \<Rightarrow> psc_recvskip rcv (len - 128) w'
            | (Some e, bs, w') \<Rightarrow> recvskip_last rcv len w')
      else recvskip_last rcv len w)"

declare psc_recvskip.simps [simp del]

definition of_psc_header :: "u8 list \<Rightarrow> u16 \<times> u32" where
  "of_psc_header bs = (of_be16 (take 2 (drop 2 bs)), of_be32 (drop 4 bs))"

definition psc_recvhead :: "'w receiver \<Rightarrow> 'w \<Rightarrow> (errno + u16 \<times> u32) \<times> 'w" where
  "psc_recvhead rcv w =
     (case psc_recvall rcv 8 w of
        (Some e, bs, w') \<Rightarrow> (Inl e, w')
      | (None, bs, w') \<Rightarrow>
          (if bs ! 0 \<noteq> 0x50 \<or> bs ! 1 \<noteq> 0x53 then (Inl EIO, w')
           else (Inr (of_psc_header bs), w')))"

text \<open>
  \<open>psc_recvmsg\<close>: the result is the return value, what was stored through the pointers
  \<open>msgid\<close> and \<open>msglen\<close> (nothing when the header or the body failed) and the buffer.
\<close>

definition psc_recvmsg ::
    "'w receiver \<Rightarrow> u32 \<Rightarrow> u8 list \<Rightarrow> 'w \<Rightarrow> (errno option \<times> (u16 \<times> u32) option) run \<times> u8 list \<times> 'w" where
  "psc_recvmsg rcv maxlen buf w =
     (case psc_recvhead rcv w of
        (Inl e, w') \<Rightarrow> (Ret (Some e, None), buf, w')
      | (Inr (mid, mlen), w') \<Rightarrow>
          (let rlen = (if maxlen < mlen then maxlen else mlen) in
           case psc_recvall rcv (unat rlen) w' of
             (Some e, bs, w'') \<Rightarrow> (Ret (Some e, None), store bs buf, w'')
           | (None, bs, w'') \<Rightarrow>
               (if rlen < mlen
                then (case psc_recvskip rcv (unat (mlen - rlen)) w'' of
                        (r, w3) \<Rightarrow> (run_bind r (\<lambda>ret. Ret (ret, Some (mid, rlen))), store bs buf, w3))
                else (Ret (None, Some (mid, rlen)), store bs buf, w''))))"

section \<open>The header is a layout\<close>

lemma length_psc_header [simp]: "length (psc_header h) = 8"
  by (simp add: psc_header_def be16.length_enc be32.length_enc)

lemma of_psc_header [simp]: "of_psc_header (psc_header h) = h"
  by (simp add: psc_header_def of_psc_header_def be16.length_enc be16.dec_enc be32.dec_enc)

interpretation psc_header: layout psc_header of_psc_header 8
  by unfold_locales simp_all

lemma psc_header_magic [simp]: "psc_header h ! 0 = 0x50" "psc_header h ! Suc 0 = 0x53"
  by (simp_all add: psc_header_def)

text \<open>The bytes of one message on the wire.\<close>

definition frame :: "u16 \<times> u8 list \<Rightarrow> u8 list" where
  "frame m = psc_header (fst m, word_of_nat (length (snd m))) @ snd m"

section \<open>The two loops\<close>

lemma recv_okD:
  assumes "recv_ok rcv pending up" "rcv n w = (Received bs, w')"
  shows "length bs \<le> n" "pending w = bs @ pending w'"
  using assms by (auto simp: recv_ok_def)

lemma recv_ok_upE:
  assumes "recv_ok rcv pending up" "up w" "0 < n" "pending w \<noteq> []"
  obtains bs w' where "rcv n w = (Received bs, w')" "bs \<noteq> []" "up w'"
    "length bs \<le> n" "pending w = bs @ pending w'"
  using assms unfolding recv_ok_def by metis

text \<open>Whatever happens, what was stored is the front of the stream; success is all of it.\<close>

lemma psc_recvall_prefix:
  assumes ok: "recv_ok rcv pending up"
  shows "psc_recvall rcv n w = (r, bs, w') \<Longrightarrow>
    length bs \<le> n \<and> (r = None \<longrightarrow> length bs = n)
    \<and> (\<exists>rest. pending w = bs @ rest \<and> (r = None \<longrightarrow> rest = pending w'))"
proof (induction n arbitrary: w r bs w' rule: less_induct)
  case (less n)
  obtain x w1 where x: "rcv n w = (x, w1)" by (cases "rcv n w")
  show ?case
  proof (cases "n = 0 \<or> (\<exists>e. x = Recv_Error e) \<or> x = Received []")
    case True
    with less.prems x show ?thesis by (auto simp: psc_recvall.simps [of rcv n] split: if_splits)
  next
    case False
    then obtain cs where cs: "x = Received cs" "cs \<noteq> []" "n \<noteq> 0" by (cases x) auto
    with x ok have first: "length cs \<le> n" "pending w = cs @ pending w1"
      by (auto dest: recv_okD)
    obtain r2 ds w2 where rec: "psc_recvall rcv (n - length cs) w1 = (r2, ds, w2)"
      by (cases "psc_recvall rcv (n - length cs) w1")
    from less.prems x cs rec have eqs: "r2 = r" "w2 = w'" "bs = cs @ ds"
      by (auto simp: psc_recvall.simps [of rcv n])
    have "n - length cs < n" using cs by (cases cs) auto
    from less.IH [OF this rec [unfolded eqs]] first show ?thesis by (auto simp: eqs)
  qed
qed

text \<open>A connection that is up and has the bytes delivers them, in whatever pieces they come.\<close>

lemma psc_recvall_up:
  assumes ok: "recv_ok rcv pending up"
  shows "up w \<Longrightarrow> pending w = bs @ rest \<Longrightarrow>
    \<exists>w'. psc_recvall rcv (length bs) w = (None, bs, w') \<and> pending w' = rest \<and> up w'"
proof (induction "length bs" arbitrary: w bs rule: less_induct)
  case less
  show ?case
  proof (cases "bs = []")
    case True
    with less.prems show ?thesis by (simp add: psc_recvall.simps)
  next
    case False
    then obtain cs w1 where cs: "rcv (length bs) w = (Received cs, w1)" "cs \<noteq> []" "up w1"
        "length cs \<le> length bs" "pending w = cs @ pending w1"
      by (metis recv_ok_upE [OF ok less.prems(1)] append_is_Nil_conv length_greater_0_conv less.prems(2))
    define ds where "ds = drop (length cs) bs"
    have "cs = take (length cs) bs" using cs(4,5) less.prems(2)
      by (metis append_eq_append_conv_if append_eq_conv_conj)
    then have bs: "bs = cs @ ds" by (metis append_take_drop_id ds_def)
    with cs less.prems have "pending w1 = ds @ rest" by simp
    moreover have "length ds < length bs" using cs(2) bs by simp
    ultimately obtain w' where
      "psc_recvall rcv (length ds) w1 = (None, ds, w')" "pending w' = rest" "up w'"
      using less.hyps cs(3) by blast
    moreover have "length bs - length cs = length ds" by (simp add: bs)
    ultimately show ?thesis using cs False
      by (simp add: psc_recvall.simps [of rcv _ w] bs)
  qed
qed

lemma psc_recvall_upE:
  assumes "recv_ok rcv pending up" "up w" "pending w = bs @ rest" "length bs = n"
  obtains w' where "psc_recvall rcv n w = (None, bs, w')" "pending w' = rest" "up w'"
  using psc_recvall_up [OF assms(1-3)] assms(4) by blast

lemma psc_recvskip_up:
  assumes ok: "recv_ok rcv pending up"
  shows "up w \<Longrightarrow> pending w = bs @ rest \<Longrightarrow> n = length bs \<Longrightarrow>
    \<exists>w'. psc_recvskip rcv n w = (Ret None, w') \<and> pending w' = rest \<and> up w'"
proof (induction n arbitrary: w bs rule: less_induct)
  case (less n)
  show ?case
  proof (cases "128 < n")
    case False
    obtain w' where "psc_recvall rcv n w = (None, bs, w')" "pending w' = rest" "up w'"
      using psc_recvall_upE [OF ok less.prems(1,2)] less.prems(3) by metis
    with False less.prems(3) show ?thesis by (simp add: psc_recvskip.simps recvskip_last_def)
  next
    case True
    then have "pending w = take 128 bs @ drop 128 bs @ rest" "length (take 128 bs) = 128"
      using less.prems by simp_all
    then obtain w1 where w1: "psc_recvall rcv 128 w = (None, take 128 bs, w1)"
        "pending w1 = drop 128 bs @ rest" "up w1"
      by (rule psc_recvall_upE [OF ok less.prems(1)])
    have "n - 128 < n" "n - 128 = length (drop 128 bs)" using True less.prems(3) by simp_all
    from less.IH [OF this(1) w1(3,2) this(2)] w1(1) True show ?thesis
      by (simp add: psc_recvskip.simps [of rcv n])
  qed
qed

text \<open>Sending: success is exactly the bytes, failure a proper prefix of them.\<close>

definition delivered :: "errno option \<Rightarrow> u8 list \<Rightarrow> u8 list \<Rightarrow> bool" where
  "delivered r bs buf \<longleftrightarrow> (\<exists>rest. buf = bs @ rest \<and> (r = None \<longleftrightarrow> rest = []))"

lemma delivered_None [simp]: "delivered None bs buf \<longleftrightarrow> bs = buf"
  by (auto simp: delivered_def)

lemma delivered_Nil [simp]: "delivered (Some e) [] buf \<longleftrightarrow> buf \<noteq> []"
  by (simp add: delivered_def)

lemma delivered_append: "delivered r bs ys \<Longrightarrow> delivered r (xs @ bs) (xs @ ys)"
  by (simp add: delivered_def)

lemma delivered_front: "delivered (Some e) bs xs \<Longrightarrow> delivered (Some e) bs (xs @ ys)"
  by (auto simp: delivered_def)

lemma psc_sendall_sent:
  assumes ok: "send_ok tx out"
  shows "psc_sendall tx buf w = (r, w') \<Longrightarrow> \<exists>bs. out w' = out w @ bs \<and> delivered r bs buf"
proof (induction "length buf" arbitrary: buf w r w' rule: less_induct)
  case less
  obtain x w1 where x: "tx buf w = (x, w1)" by (cases "tx buf w")
  show ?case
  proof (cases "buf = [] \<or> (\<exists>e. x = Send_Error e) \<or> x = Sent 0")
    case True
    with less.prems x ok show ?thesis
      by (auto simp: psc_sendall.simps [of tx buf] send_ok_def split: if_splits)
  next
    case False
    then obtain n where n: "x = Sent n" "n \<noteq> 0" "buf \<noteq> []" by (cases x) auto
    with x ok have first: "n \<le> length buf" "out w1 = out w @ take n buf"
      by (auto simp: send_ok_def)
    from less.prems x n have rec: "psc_sendall tx (drop n buf) w1 = (r, w')"
      by (auto simp: psc_sendall.simps [of tx buf])
    have "length (drop n buf) < length buf" using n by simp
    from less.hyps [OF this rec] obtain bs
      where bs: "out w' = out w1 @ bs" "delivered r bs (drop n buf)" by blast
    from delivered_append [OF bs(2), of "take n buf"]
    have "delivered r (take n buf @ bs) buf" by simp
    with bs(1) first(2) show ?thesis by auto
  qed
qed

lemma psc_sendmsg_sent:
  assumes ok: "send_ok tx out" and r: "psc_sendmsg tx mid body w = (r, w')"
  shows "\<exists>bs. out w' = out w @ bs \<and> delivered r bs (frame (mid, body))"
proof -
  let ?h = "psc_header (mid, word_of_nat (length body))"
  obtain r1 w1 where h: "psc_sendall tx ?h w = (r1, w1)" by (cases "psc_sendall tx ?h w")
  from psc_sendall_sent [OF ok h] obtain hs
    where hs: "out w1 = out w @ hs" "delivered r1 hs ?h" by blast
  show ?thesis
  proof (cases r1)
    case (Some e)
    with r h have "r = Some e" "w' = w1"
      by (simp_all add: psc_sendmsg_def psc_sendhead_def)
    with hs Some show ?thesis by (auto simp: frame_def intro: delivered_front)
  next
    case None
    with r h have "psc_sendall tx body w1 = (r, w')"
      by (simp add: psc_sendmsg_def psc_sendhead_def)
    from psc_sendall_sent [OF ok this] hs None show ?thesis
      by (auto simp: frame_def intro: delivered_append)
  qed
qed

lemma psc_sendmsgsingle_out:
  assumes ok: "send_ok tx out" and r: "psc_sendmsgsingle tx mid regid body w = (r, w')"
    and small: "length body + 4 < 2 ^ 32"
  shows "\<exists>bs. out w' = out w @ bs \<and> delivered r bs (frame (mid, be32 regid @ body))"
proof -
  let ?h = "psc_header (mid, word_of_nat (length body) + 4)"
  have f: "frame (mid, be32 regid @ body) = ?h @ be32 regid @ body"
    by (simp add: frame_def be32.length_enc add.commute)
  obtain r1 w1 where h: "psc_sendall tx ?h w = (r1, w1)" by (cases "psc_sendall tx ?h w")
  obtain r2 w2 where i: "psc_sendall tx (be32 regid) w1 = (r2, w2)"
    by (cases "psc_sendall tx (be32 regid) w1")
  from psc_sendall_sent [OF ok h] obtain hs
    where hs: "out w1 = out w @ hs" "delivered r1 hs ?h" by blast
  from psc_sendall_sent [OF ok i] obtain gs
    where gs: "out w2 = out w1 @ gs" "delivered r2 gs (be32 regid)" by blast
  consider (head) e where "r1 = Some e" | (id) e where "r1 = None" "r2 = Some e"
    | (body) "r1 = None" "r2 = None" by (cases r1; cases r2) auto
  then show ?thesis
  proof cases
    case head
    with r h hs show ?thesis
      by (auto simp: psc_sendmsgsingle_def psc_sendhead_def f intro: delivered_front)
  next
    case id
    with r h i have "r = r2" "w' = w2"
      by (simp_all add: psc_sendmsgsingle_def psc_sendhead_def le32_htonl)
    with id hs gs show ?thesis
      by (auto simp: f intro: delivered_append delivered_front)
  next
    case body
    with r h i have "psc_sendall tx body w2 = (r, w')"
      by (simp add: psc_sendmsgsingle_def psc_sendhead_def le32_htonl)
    from psc_sendall_sent [OF ok this] body hs gs show ?thesis
      by (auto simp: f intro!: delivered_append)
  qed
qed

lemma psc_recvhead_up:
  assumes ok: "recv_ok rcv pending up" and "up w" "pending w = psc_header h @ rest"
  shows "\<exists>w'. psc_recvhead rcv w = (Inr h, w') \<and> pending w' = rest \<and> up w'"
proof -
  obtain w' where "psc_recvall rcv 8 w = (None, psc_header h, w')" "pending w' = rest" "up w'"
    using psc_recvall_upE [OF assms length_psc_header] .
  then show ?thesis by (simp add: psc_recvhead_def)
qed

section \<open>A concrete connection\<close>

text \<open>
  For the witnesses: a peer's script of segments and errors, and a send buffer that takes at
  most \<open>k\<close> bytes a call. Both meet the documented behaviour.
\<close>

fun script_recv :: "rx list receiver" where
  "script_recv n [] = (Received [], [])"
| "script_recv n (Recv_Error e # w) = (Recv_Error e, w)"
| "script_recv n (Received bs # w) =
     (Received (take n bs), if length bs \<le> n then w else Received (drop n bs) # w)"

fun script_bytes :: "rx list \<Rightarrow> u8 list" where
  "script_bytes [] = []"
| "script_bytes (Recv_Error e # w) = script_bytes w"
| "script_bytes (Received bs # w) = bs @ script_bytes w"

fun script_up :: "rx list \<Rightarrow> bool" where
  "script_up [] = True"
| "script_up (Recv_Error e # w) = False"
| "script_up (Received bs # w) = (bs \<noteq> [] \<and> script_up w)"

lemma script_recv_ok: "recv_ok script_recv script_bytes script_up"
proof -
  have "length bs \<le> n \<and> script_bytes w = bs @ script_bytes w'"
    if "script_recv n w = (Received bs, w')" for n w bs w'
    using that by (cases "(n, w)" rule: script_recv.cases) (auto split: if_splits)
  moreover have "\<exists>bs w'. script_recv n w = (Received bs, w') \<and> bs \<noteq> [] \<and> script_up w'"
    if "script_up w" "0 < n" "script_bytes w \<noteq> []" for n w
    using that by (cases "(n, w)" rule: script_recv.cases) auto
  ultimately show ?thesis by (auto simp: recv_ok_def)
qed

fun mss_send :: "nat \<Rightarrow> u8 list sender" where
  "mss_send k bs out = (Sent (min k (length bs)), out @ take k bs)"

lemma mss_send_ok: "send_ok (mss_send k) (\<lambda>out. out)"
  by (auto simp: send_ok_def min_def)

text \<open>One call of \<open>psc_recvmsg\<close> on a connection that delivers.\<close>

lemma psc_recvmsg_up:
  assumes ok: "recv_ok rcv pending up" and up: "up w"
    and stream: "pending w = frame (mid, body) @ rest" and small: "length body < 2 ^ 32"
  shows "\<exists>w'. psc_recvmsg rcv maxlen buf w =
      (Ret (None, Some (mid, word_of_nat (min (length body) (unat maxlen)))),
       store (take (unat maxlen) body) buf, w') \<and> pending w' = rest \<and> up w'"
proof -
  let ?n = "word_of_nat (length body) :: u32"
  have n: "unat ?n = length body" using small by simp
  obtain w1 where w1: "psc_recvhead rcv w = (Inr (mid, ?n), w1)"
      "pending w1 = body @ rest" "up w1"
    using psc_recvhead_up [OF ok up] stream by (auto simp: frame_def)
  show ?thesis
  proof (cases "maxlen < ?n")
    case False
    then have le: "length body \<le> unat maxlen" by (simp add: word_less_nat_alt n)
    obtain w2 where "psc_recvall rcv (unat ?n) w1 = (None, body, w2)" "pending w2 = rest" "up w2"
      using psc_recvall_upE [OF ok w1(3,2)] n by metis
    with w1 False le show ?thesis by (simp add: psc_recvmsg_def)
  next
    case True
    then have lt: "unat maxlen < length body" by (simp add: word_less_nat_alt n)
    let ?front = "take (unat maxlen) body" and ?tail = "drop (unat maxlen) body"
    have "pending w1 = ?front @ ?tail @ rest" "length ?front = unat maxlen"
      using w1 lt by simp_all
    then obtain w2 where w2: "psc_recvall rcv (unat maxlen) w1 = (None, ?front, w2)"
        "pending w2 = ?tail @ rest" "up w2"
      by (rule psc_recvall_upE [OF ok w1(3)])
    have "unat (?n - maxlen) = length ?tail"
      using True by (simp add: unat_sub_if' n word_le_nat_alt word_less_nat_alt)
    from psc_recvskip_up [OF ok w2(3,2) this]
    obtain w3 where "psc_recvskip rcv (unat (?n - maxlen)) w2 = (Ret None, w3)"
        "pending w3 = rest" "up w3" by blast
    with w1 w2 True lt show ?thesis by (simp add: psc_recvmsg_def min_def)
  qed
qed

section \<open>Sessions\<close>

text \<open>Messages sent one after the other, until one fails.\<close>

fun send_session :: "'w sender \<Rightarrow> (u16 \<times> u8 list) list \<Rightarrow> 'w \<Rightarrow> errno option \<times> 'w" where
  "send_session tx [] w = (None, w)"
| "send_session tx ((mid, body) # ms) w =
     (case psc_sendmsg tx mid body w of
        (Some e, w') \<Rightarrow> (Some e, w')
      | (None, w') \<Rightarrow> send_session tx ms w')"

text \<open>What a receiver with a buffer of \<open>maxlen\<close> bytes gets from \<open>n\<close> calls.\<close>

fun recv_session ::
    "'w receiver \<Rightarrow> u32 \<Rightarrow> u8 list \<Rightarrow> nat \<Rightarrow> 'w \<Rightarrow> (u16 \<times> u8 list) list \<times> 'w" where
  "recv_session rcv maxlen buf 0 w = ([], w)"
| "recv_session rcv maxlen buf (Suc n) w =
     (case psc_recvmsg rcv maxlen buf w of
        (Ret (None, Some (mid, len)), buf', w') \<Rightarrow>
          (case recv_session rcv maxlen buf' n w' of
             (ms, w'') \<Rightarrow> ((mid, take (unat len) buf') # ms, w''))
      | (_, _, w') \<Rightarrow> ([], w'))"

lemma send_session_out:
  "send_ok tx out \<Longrightarrow> send_session tx ms w = (None, w') \<Longrightarrow>
    out w' = out w @ concat (map frame ms)"
proof (induction ms arbitrary: w)
  case (Cons m ms)
  obtain mid body where m: "m = (mid, body)" by (cases m)
  from Cons.prems(2) m obtain w1 where
    "psc_sendmsg tx mid body w = (None, w1)" "send_session tx ms w1 = (None, w')"
    by (auto split: prod.splits option.splits)
  with psc_sendmsg_sent [OF Cons.prems(1) this(1)] Cons.IH [OF Cons.prems(1) this(2)] m
  show ?case by simp
qed simp

lemma recv_session_frames:
  assumes ok: "recv_ok rcv pending up" and maxlen: "unat maxlen \<le> length buf"
  shows "up w \<Longrightarrow> pending w = concat (map frame ms) @ rest \<Longrightarrow>
    \<forall>m \<in> set ms. length (snd m) \<le> unat maxlen \<Longrightarrow>
    \<exists>w'. recv_session rcv maxlen buf (length ms) w = (ms, w') \<and> pending w' = rest"
  using maxlen
proof (induction ms arbitrary: w buf)
  case (Cons m ms)
  obtain mid body where m: "m = (mid, body)" by (cases m)
  have le: "length body \<le> unat maxlen" using Cons.prems(3) m by simp
  then have small: "length body < 2 ^ 32" using unat_less_u32 [of maxlen] by simp
  have "pending w = frame (mid, body) @ concat (map frame ms) @ rest"
    using Cons.prems(2) m by simp
  from psc_recvmsg_up [OF ok Cons.prems(1) this small, of maxlen buf] le
  obtain w1 where w1: "psc_recvmsg rcv maxlen buf w =
      (Ret (None, Some (mid, word_of_nat (length body))), store body buf, w1)"
      "pending w1 = concat (map frame ms) @ rest" "up w1"
    by (auto simp: min_def)
  have "unat maxlen \<le> length (store body buf)"
    using Cons.prems(4) le by (simp add: store_def)
  from Cons.IH [OF w1(3,2) _ this] Cons.prems(3) m w1(1) small
  show ?case by (auto simp: store_def)
qed simp

section \<open>Properties\<close>

text \<open>
  C29. \<open>psc_recvmsg\<close> on a connection that delivers: however the peer's bytes are cut into
  segments, one call consumes exactly one message. It stores the id, the length and the body
  cut to the size of the caller's buffer, and leaves the stream at the first byte of the next
  message also when the body was longer than the buffer.
\<close>

theorem psc_recvmsg_frame:
  assumes ok: "recv_ok rcv pending up" and up: "up w"
    and stream: "pending w = frame (mid, body) @ rest" and small: "length body < 2 ^ 32"
  shows "\<exists>w'. psc_recvmsg rcv maxlen buf w =
      (Ret (None, Some (mid, word_of_nat (min (length body) (unat maxlen)))),
       store (take (unat maxlen) body) buf, w') \<and> pending w' = rest \<and> up w'"
  using assms by (rule psc_recvmsg_up)

text \<open>A body of six bytes in a four-byte buffer, cut into two segments, then another message.\<close>

theorem psc_recvmsg_frame_witness:
  "\<exists>w'. psc_recvmsg script_recv 4 [9, 9, 9, 9, 9]
      [Received [0x50, 0x53, 0, 7, 0, 0, 0, 6, 1], Received [2, 3, 4, 5, 6, 0x50]] =
      (Ret (None, Some (7, 4)), [1, 2, 3, 4, 9], w') \<and> script_bytes w' = [0x50] \<and> script_up w'"
  using psc_recvmsg_frame [OF script_recv_ok, of
      "[Received [0x50, 0x53, 0, 7, 0, 0, 0, 6, 1], Received [2, 3, 4, 5, 6, 0x50]]"
      7 "[1, 2, 3, 4, 5, 6]" "[0x50]" 4 "[9, 9, 9, 9, 9]"]
  by (simp add: frame_def psc_header_def be16_def be32_def store_def)

text \<open>
  C30. A session: messages sent one after the other with \<open>psc_sendmsg\<close> over one connection are
  received by as many calls of \<open>psc_recvmsg\<close>, in order, with their ids and bodies, whatever
  the sizes in which the two sockets take and deliver bytes.
\<close>

theorem psc_session:
  assumes "send_ok tx out" "send_session tx ms w = (None, w')" "out w = []"
    and "recv_ok rcv pending up" "up v" "pending v = out w'"
    and "unat maxlen \<le> length buf" "\<forall>m \<in> set ms. length (snd m) \<le> unat maxlen"
  shows "\<exists>v'. recv_session rcv maxlen buf (length ms) v = (ms, v') \<and> pending v' = []"
proof -
  have "pending v = concat (map frame ms) @ []"
    using send_session_out [OF assms(1,2)] assms(3,6) by simp
  from recv_session_frames [OF assms(4,7,5) this assms(8)] show ?thesis .
qed

theorem psc_session_witness:
  "\<exists>v'. recv_session script_recv 2 [0, 0] (length [(1 :: u16, [5 :: u8]), (2, [6, 7])])
      [Received [0x50, 0x53, 0, 1, 0, 0], Received [0, 1, 5, 0x50, 0x53, 0, 2, 0, 0, 0, 2, 6, 7]] =
      ([(1, [5]), (2, [6, 7])], v') \<and> script_bytes v' = []"
  by (rule psc_session [OF mss_send_ok [of 3], of _ "[]"
        "snd (send_session (mss_send 3) [(1, [5]), (2, [6, 7])] [])", OF _ _ script_recv_ok])
    (simp_all add: psc_sendmsg_def psc_sendhead_def psc_header_def be16_def be32_def
      psc_sendall.simps)

text \<open>
  \<open>psc_sendmsg\<close> returns 0 exactly when all of the header and the body were accepted by
  the socket; with an error code what went out is a proper prefix of the message, so a failed
  send never looks like a message to the peer.
\<close>

theorem psc_sendmsg_complete:
  assumes "send_ok tx out" "psc_sendmsg tx mid body w = (r, w')"
  shows "\<exists>bs rest. out w' = out w @ bs \<and> frame (mid, body) = bs @ rest \<and> (r = None \<longleftrightarrow> rest = [])"
  using psc_sendmsg_sent [OF assms] by (auto simp: delivered_def)

theorem psc_sendmsg_complete_witness:
  "\<exists>bs rest. snd (psc_sendmsg (mss_send 5) 7 [1, 2] []) = [] @ bs \<and> frame (7, [1, 2]) = bs @ rest
     \<and> (None = (None :: errno option) \<longleftrightarrow> rest = [])"
  by (rule psc_sendmsg_complete [OF mss_send_ok [of 5]])
    (simp add: psc_sendmsg_def psc_sendhead_def psc_header_def be16_def be32_def
      psc_sendall.simps)

text \<open>
  Memory safety of \<open>psc_recvmsg\<close>: on every stream socket, errors and short reads included,
  nothing is stored past the \<open>maxlen\<close> bytes of the caller's buffer, and the length reported is
  at most \<open>maxlen\<close>.
\<close>

theorem psc_recvmsg_in_buffer:
  assumes "recv_ok rcv pending up" "unat maxlen \<le> length buf"
    and "psc_recvmsg rcv maxlen buf w = (r, buf', w')"
  shows "length buf' = length buf \<and> drop (unat maxlen) buf' = drop (unat maxlen) buf
    \<and> (\<forall>ret mid len. r = Ret (ret, Some (mid, len)) \<longrightarrow> len \<le> maxlen)"
proof -
  have stored: "length (store bs buf) = length buf \<and>
      drop (unat maxlen) (store bs buf) = drop (unat maxlen) buf"
    if "psc_recvall rcv (unat rlen) v = (ret, bs, v')" "rlen \<le> maxlen" for rlen v ret bs v'
  proof -
    have "length bs \<le> unat maxlen"
      using psc_recvall_prefix [OF assms(1) that(1)] that(2) by (simp add: word_le_nat_alt)
    then show ?thesis using assms(2) by (simp add: store_def)
  qed
  show ?thesis
    using assms(3) stored
    by (fastforce simp: psc_recvmsg_def Let_def split: prod.splits sum.splits option.splits if_splits)
qed

text \<open>A segment longer than the buffer, then a receive timeout: the header is all that fits.\<close>

theorem psc_recvmsg_in_buffer_witness:
  "case psc_recvmsg script_recv 2 [0, 0, 5]
       [Received [0x50, 0x53, 0, 1, 0, 0, 0, 3, 9, 9, 9], Recv_Error (Errno 11)] of
     (r, buf', w') \<Rightarrow> length buf' = length [0, 0, 5 :: u8] \<and> drop 2 buf' = [5]"
  using psc_recvmsg_in_buffer [OF script_recv_ok, of 2 "[0, 0, 5]"
        "[Received [0x50, 0x53, 0, 1, 0, 0, 0, 3, 9, 9, 9], Recv_Error (Errno 11)]"]
  by (auto split: prod.split)

text \<open>
  \<open>psc_sendmsgsingle\<close> puts the register id in front of the body: the bytes on the wire are
  those of one message whose body starts with the id in network byte order and whose length
  counts it; again success is all of it and failure a proper prefix.
\<close>

theorem psc_sendmsgsingle_sent:
  assumes "send_ok tx out" "psc_sendmsgsingle tx mid regid body w = (r, w')"
    and "length body + 4 < 2 ^ 32"
  shows "\<exists>bs rest. out w' = out w @ bs \<and> frame (mid, be32 regid @ body) = bs @ rest
    \<and> (r = None \<longleftrightarrow> rest = [])"
  using psc_sendmsgsingle_out [OF assms] by (auto simp: delivered_def)

theorem psc_sendmsgsingle_sent_witness:
  "\<exists>bs rest. snd (psc_sendmsgsingle (mss_send 5) 7 258 [1, 2] []) = [] @ bs
     \<and> frame (7, be32 258 @ [1, 2]) = bs @ rest \<and> (None = (None :: errno option) \<longleftrightarrow> rest = [])"
  by (rule psc_sendmsgsingle_sent [OF mss_send_ok [of 5]])
    (simp_all add: psc_sendmsgsingle_def psc_sendhead_def psc_header_def be16_def be32_def
      psc_sendall.simps le32_htonl)

text \<open>
  \<open>psc_recvmsg\<close> rejects a stream that is not at a message: when the first two of the next
  eight bytes are not \<open>P\<close> and \<open>S\<close> it returns EIO having taken those eight bytes and stored
  nothing.
\<close>

theorem psc_recvmsg_bad_magic:
  assumes "recv_ok rcv pending up" "up w" "pending w = bs @ rest" "length bs = 8"
    and bad: "take 2 bs \<noteq> [0x50, 0x53]"
  shows "\<exists>w'. psc_recvmsg rcv maxlen buf w = (Ret (Some EIO, None), buf, w') \<and> pending w' = rest"
proof -
  have "bs ! 0 \<noteq> 0x50 \<or> bs ! 1 \<noteq> 0x53"
    using bad \<open>length bs = 8\<close> by (cases bs; cases "tl bs") auto
  moreover obtain w' where "psc_recvall rcv 8 w = (None, bs, w')" "pending w' = rest"
    using psc_recvall_upE [OF assms(1-4)] .
  ultimately show ?thesis by (simp add: psc_recvmsg_def psc_recvhead_def)
qed

theorem psc_recvmsg_bad_magic_witness:
  "\<exists>w'. psc_recvmsg script_recv 4 [0, 0, 0, 0] [Received [0x50, 0x54, 0, 1], Received [0, 0, 0, 0, 6]]
     = (Ret (Some EIO, None), [0, 0, 0, 0], w') \<and> script_bytes w' = [6]"
  by (rule psc_recvmsg_bad_magic [OF script_recv_ok, of _ "[0x50, 0x54, 0, 1, 0, 0, 0, 0]"]) simp_all

text \<open>
  C31. The overrun in \<open>psc_recvskip\<close>: its loop also leaves when a read fails, and the last call
  then asks for all that remains. With a receive timeout while an oversized message is being
  skipped (the sockets are given one by \<open>psc_run\<close>) and more than 128 bytes in the next
  segment, those are stored past the end of the local buffer.
\<close>

theorem psc_recvskip_overrun:
  assumes "128 < n" "rcv 128 w = (Recv_Error e, w1)"
    and "rcv n w1 = (Received bs, w2)" "128 < length bs"
  shows "\<exists>w'. psc_recvskip rcv n w = (Undef Out_Of_Bounds, w')"
proof -
  have "\<exists>r cs w'. psc_recvall rcv n w1 = (r, bs @ cs, w')"
    using assms by (auto simp: psc_recvall.simps [of rcv n] split: prod.split)
  then show ?thesis using assms(1,2,4)
    by (auto simp: psc_recvskip.simps [of rcv n] psc_recvall.simps [of rcv 128] recvskip_last_def)
qed

theorem psc_recvskip_overrun_witness:
  "\<exists>w'. psc_recvskip script_recv 200 [Recv_Error (Errno 11), Received (replicate 130 0)]
     = (Undef Out_Of_Bounds, w')"
  by (rule psc_recvskip_overrun [of 200 _ _ "Errno 11" "[Received (replicate 130 0)]" "replicate 130 0" "[]"]) simp_all

end
