(* ===== verification/Listener.thy ===== *)
theory Listener
  imports Pscmsg
begin

text \<open>
  listener.c: the TCP server. A table of \<open>PSC_MAX_CLIENTS\<close> clients with a bit mask of the slots
  in use, the task that accepts connections, one task per client that dispatches its messages,
  and \<open>psc_send\<close>, with which the other tasks send to all clients.

  The sockets are a parameter (\<open>net\<close>): sending, receiving and closing by descriptor in a
  network state. The callbacks of \<open>psc_config\<close> are function pointers in the code and functions
  on the server's state here; App_Main gives the program's own.
\<close>

section \<open>State\<close>

abbreviation (input) PSC_MAX_CLIENTS :: nat where "PSC_MAX_CLIENTS \<equiv> 4"
abbreviation (input) PSC_MAX_RX_MSG_LEN :: nat where "PSC_MAX_RX_MSG_LEN \<equiv> 200000"

text \<open>\<open>PSC\<close>: the pointer back to the key is not null. The address is an IP address and a port.\<close>

record psc_client =
  index :: nat
  sock :: int
  peeraddr :: "u32 \<times> u16"
  PSC :: bool
  rxbuf :: "u8 list"

record psc_key =
  listen_sock :: int
  clients_used :: u32
  clients :: "psc_client list"

text \<open>A client all of whose bytes are zero, as \<open>memset\<close> leaves it.\<close>

definition rxbuf_size :: nat where
  "rxbuf_size = 8 + PSC_MAX_RX_MSG_LEN"

definition zero_client :: psc_client where
  "zero_client = \<lparr>index = 0, sock = 0, peeraddr = (0, 0), PSC = False, rxbuf = replicate rxbuf_size 0\<rparr>"

text \<open>The key as \<open>mem_calloc\<close> returns it.\<close>

definition zero_key :: psc_key where
  "zero_key = \<lparr>listen_sock = 0, clients_used = 0, clients = replicate PSC_MAX_CLIENTS zero_client\<rparr>"

definition in_use :: "psc_key \<Rightarrow> nat \<Rightarrow> bool" where
  "in_use key i \<longleftrightarrow> clients_used key AND push_bit i 1 \<noteq> 0"

text \<open>Storing through a pointer to the \<open>i\<close>-th client.\<close>

definition upd_client :: "nat \<Rightarrow> (psc_client \<Rightarrow> psc_client) \<Rightarrow> psc_key \<Rightarrow> psc_key" where
  "upd_client i f key = key\<lparr>clients := (clients key)[i := f (clients key ! i)]\<rparr>"

section \<open>The client table\<close>

text \<open>Both operations run under the mutex \<open>sendguard\<close>.\<close>

definition psc_client_alloc :: "psc_key \<Rightarrow> nat option \<times> psc_key" where
  "psc_client_alloc key =
     (case find (\<lambda>i. \<not> in_use key i) [0..<PSC_MAX_CLIENTS] of
        None \<Rightarrow> (None, key)
      | Some i \<Rightarrow>
          (Some i, upd_client i (\<lambda>_. zero_client\<lparr>index := i, PSC := True\<rparr>)
                     (key\<lparr>clients_used := clients_used key OR push_bit i 1\<rparr>)))"

definition psc_client_free :: "nat \<Rightarrow> psc_key \<Rightarrow> psc_key" where
  "psc_client_free i key =
     upd_client i (\<lambda>_. zero_client)
       (key\<lparr>clients_used := clients_used key AND NOT (push_bit (index (clients key ! i)) 1)\<rparr>)"

section \<open>Sending\<close>

record 'w net =
  net_send :: "int \<Rightarrow> 'w sender"
  net_recv :: "int \<Rightarrow> 'w receiver"
  net_close :: "int \<Rightarrow> 'w \<Rightarrow> 'w"

text \<open>The body both send functions share: a client whose send fails is closed and marked -1.\<close>

definition send_or_drop ::
    "'w net \<Rightarrow> u16 \<Rightarrow> u8 list \<Rightarrow> nat \<Rightarrow> psc_key \<times> 'w \<Rightarrow> psc_key \<times> 'w" where
  "send_or_drop n mid msg i s =
     (let sk = sock (clients (fst s) ! i) in
      case psc_sendmsg (net_send n sk) mid msg (snd s) of
        (None, w) \<Rightarrow> (fst s, w)
      | (Some e, w) \<Rightarrow> (upd_client i (sock_update (\<lambda>_. -1)) (fst s), net_close n sk w))"

definition send_client ::
    "'w net \<Rightarrow> u16 \<Rightarrow> u8 list \<Rightarrow> nat \<Rightarrow> psc_key \<times> 'w \<Rightarrow> psc_key \<times> 'w" where
  "send_client n mid msg i s =
     (if \<not> in_use (fst s) i \<or> sock (clients (fst s) ! i) = -1 then s
      else send_or_drop n mid msg i s)"

text \<open>The pointer to the key is null until the server has started.\<close>

definition psc_send ::
    "'w net \<Rightarrow> u16 \<Rightarrow> u8 list \<Rightarrow> psc_key option \<times> 'w \<Rightarrow> psc_key option \<times> 'w" where
  "psc_send n mid msg s =
     (case fst s of
        None \<Rightarrow> s
      | Some key \<Rightarrow>
          (case fold (send_client n mid msg) [0..<PSC_MAX_CLIENTS] (key, snd s) of
             (key', w) \<Rightarrow> (Some key', w)))"

definition psc_send_one ::
    "'w net \<Rightarrow> nat \<Rightarrow> u16 \<Rightarrow> u8 list \<Rightarrow> psc_key \<times> 'w \<Rightarrow> psc_key \<times> 'w" where
  "psc_send_one n i mid msg s =
     (if sock (clients (fst s) ! i) \<noteq> -1 then send_or_drop n mid msg i s else s)"

text \<open>
  \<open>psc_error\<close> and \<open>psc_verror\<close>: a body of 32 bytes with the formatted text, cut to 31 bytes and
  terminated. \<open>vsnprintf\<close> leaves the rest of the local array as it was: \<open>stack\<close>, its 32 bytes
  before the call. The text the format yields is a parameter.
\<close>

definition psc_verror_body :: "u8 list \<Rightarrow> u8 list \<Rightarrow> u8 list" where
  "psc_verror_body stack formatted =
     (let msg = take 31 formatted @ [0] in (msg @ drop (length msg) stack)[31 := 0])"

definition psc_verror ::
    "'w net \<Rightarrow> u8 list \<Rightarrow> int \<Rightarrow> u8 list \<Rightarrow> psc_key option \<times> 'w \<Rightarrow> psc_key option \<times> 'w" where
  "psc_verror n stack code formatted s =
     psc_send n (word_of_int code) (psc_verror_body stack formatted) s"

section \<open>The server\<close>

datatype psc_event = PSC_CONN | PSC_DIS

text \<open>\<open>app\<close>: the rest of the program's state, which the callbacks read and write.\<close>

record ('w, 'a) server =
  skey :: psc_key
  world :: 'w
  app :: 'a

text \<open>Callbacks get the index of the client; they may send, so they act on the whole server.\<close>

record ('w, 'a) psc_config =
  port :: u16
  conn :: "psc_event \<Rightarrow> nat \<Rightarrow> ('w, 'a) server \<Rightarrow> ('w, 'a) server run"
  recv :: "nat \<Rightarrow> u16 \<Rightarrow> u32 \<Rightarrow> u8 list \<Rightarrow> ('w, 'a) server \<Rightarrow> ('w, 'a) server run"

text \<open>
  One turn of the loop of \<open>handle_client\<close>: \<open>True\<close> to go on, \<open>False\<close> after a read error. The
  message stays in the client's \<open>rxbuf\<close>, which is what the callback is given.
\<close>

definition handle_turn ::
    "'w net \<Rightarrow> ('w, 'a) psc_config \<Rightarrow> nat \<Rightarrow> int \<Rightarrow> ('w, 'a) server \<Rightarrow> (bool \<times> ('w, 'a) server) run" where
  "handle_turn n conf i sk srv =
     (case psc_recvmsg (net_recv n sk) (word_of_nat rxbuf_size) (rxbuf (clients (skey srv) ! i))
             (world srv) of
        (r, buf, w) \<Rightarrow>
          (let srv1 = srv\<lparr>skey := upd_client i (rxbuf_update (\<lambda>_. buf)) (skey srv), world := w\<rparr>
           in run_bind r (\<lambda>(ret, hd).
              case (ret, hd) of
                (None, Some (mid, len)) \<Rightarrow>
                  run_bind (recv conf i mid len buf srv1) (\<lambda>srv2. Ret (True, srv2))
              | _ \<Rightarrow> Ret (False, srv1))))"

text \<open>The loop runs until a read fails; \<open>None\<close> is an execution not finished after \<open>fuel\<close> turns.\<close>

fun handle_loop ::
    "nat \<Rightarrow> 'w net \<Rightarrow> ('w, 'a) psc_config \<Rightarrow> nat \<Rightarrow> int \<Rightarrow> ('w, 'a) server \<Rightarrow> ('w, 'a) server run option" where
  "handle_loop 0 n conf i sk srv = None"
| "handle_loop (Suc fuel) n conf i sk srv =
     (case handle_turn n conf i sk srv of
        Ret (True, srv') \<Rightarrow> handle_loop fuel n conf i sk srv'
      | Ret (False, srv') \<Rightarrow> Some (Ret srv')
      | Undef u \<Rightarrow> Some (Undef u)
      | Hang \<Rightarrow> Some Hang)"

text \<open>
  The task of one client: the descriptor is read once, at the start, and closed at the end,
  after the slot has been given back.
\<close>

definition handle_client ::
    "nat \<Rightarrow> 'w net \<Rightarrow> ('w, 'a) psc_config \<Rightarrow> nat \<Rightarrow> ('w, 'a) server \<Rightarrow> ('w, 'a) server run option" where
  "handle_client fuel n conf i srv =
     (let sk = sock (clients (skey srv) ! i) in
      case conn conf PSC_CONN i srv of
        Undef u \<Rightarrow> Some (Undef u)
      | Hang \<Rightarrow> Some Hang
      | Ret srv1 \<Rightarrow>
          map_option (\<lambda>r. run_bind r (\<lambda>srv2.
              run_bind (conn conf PSC_DIS i srv2) (\<lambda>srv3.
                Ret (srv3\<lparr>skey := psc_client_free i (skey srv3), world := net_close n sk (world srv3)\<rparr>))))
            (handle_loop fuel n conf i sk srv1))"

section \<open>Starting the server and accepting clients\<close>

datatype setup_error = Key_Set | No_Memory | Mutex_Error | Socket_Error | Bind_Error | Listen_Error

text \<open>
  The start of \<open>psc_run\<close>: \<open>key\<close> is what the caller's pointer holds, the other arguments are
  what the allocator, the mutex and the socket calls return. An error returns with the pointer
  as it was.
\<close>

definition psc_run_init ::
    "psc_key option \<Rightarrow> psc_key option \<Rightarrow> bool \<Rightarrow> int \<Rightarrow> int \<Rightarrow> int \<Rightarrow> setup_error + psc_key" where
  "psc_run_init key calloc mutex_ok sk bound listening =
     (if key \<noteq> None then Inl Key_Set
      else case calloc of
        None \<Rightarrow> Inl No_Memory
      | Some k \<Rightarrow>
          if \<not> mutex_ok then Inl Mutex_Error
          else if sk = -1 then Inl Socket_Error
          else if bound = -1 then Inl Bind_Error
          else if listening = -1 then Inl Listen_Error
          else Inr (k\<lparr>listen_sock := sk\<rparr>))"

text \<open>
  A turn of the accept loop, up to the allocation (which is under the mutex), and the
  assignment of the descriptor, which is not.
\<close>

definition psc_accept :: "'w net \<Rightarrow> int \<Rightarrow> psc_key \<times> 'w \<Rightarrow> nat option \<times> psc_key \<times> 'w" where
  "psc_accept n client s =
     (if client = -1 then (None, s)
      else case psc_client_alloc (fst s) of
          (None, key) \<Rightarrow> (None, key, net_close n client (snd s))
        | (Some i, key) \<Rightarrow> (Some i, key, snd s))"

definition psc_accept_assign :: "nat \<Rightarrow> int \<Rightarrow> u32 \<times> u16 \<Rightarrow> psc_key \<Rightarrow> psc_key" where
  "psc_accept_assign i client caddr key =
     upd_client i (\<lambda>C. C\<lparr>sock := client, peeraddr := caddr\<rparr>) key"

section \<open>The table as a set of slots\<close>

text \<open>
  What the server relies on: \<open>alloc\<close> gives a free slot as long as there is one, \<open>free\<close> gives
  one back, and neither touches another.
\<close>

locale slot_table =
  fixes alloc :: "'t \<Rightarrow> nat option \<times> 't" and free :: "nat \<Rightarrow> 't \<Rightarrow> 't"
    and used :: "'t \<Rightarrow> nat set" and inv :: "'t \<Rightarrow> bool" and cap :: nat
  assumes used_cap: "inv t \<Longrightarrow> used t \<subseteq> {..<cap}"
    and alloc_Some: "inv t \<Longrightarrow> alloc t = (Some i, t') \<Longrightarrow>
      inv t' \<and> i < cap \<and> i \<notin> used t \<and> used t' = insert i (used t)"
    and alloc_None: "inv t \<Longrightarrow> alloc t = (None, t') \<Longrightarrow> t' = t \<and> used t = {..<cap}"
    and free_used: "inv t \<Longrightarrow> i \<in> used t \<Longrightarrow> inv (free i t) \<and> used (free i t) = used t - {i}"
begin

lemma finite_used: "inv t \<Longrightarrow> finite (used t)"
  using used_cap finite_subset by blast

lemma card_used: "inv t \<Longrightarrow> card (used t) \<le> cap"
  using card_mono [OF _ used_cap] by fastforce

lemma alloc_fails_iff: "inv t \<Longrightarrow> fst (alloc t) = None \<longleftrightarrow> card (used t) = cap"
proof
  assume inv: "inv t" and "card (used t) = cap"
  then have full: "used t = {..<cap}"
    using card_subset_eq [OF _ used_cap] by fastforce
  show "fst (alloc t) = None"
  proof (cases "alloc t")
    case (Pair r t')
    then show ?thesis using alloc_Some [OF inv] full by (cases r) auto
  qed
next
  assume "inv t" "fst (alloc t) = None"
  then have "used t = {..<cap}" using alloc_None by (cases "alloc t") auto
  then show "card (used t) = cap" by simp
qed

text \<open>Tasks that own slots: each holds one, no two the same, together they hold all used.\<close>

definition owned_by :: "nat list \<Rightarrow> 't \<Rightarrow> bool" where
  "owned_by owners t \<longleftrightarrow> inv t \<and> distinct owners \<and> set owners = used t"

lemma owned_alloc:
  "owned_by os t \<Longrightarrow> alloc t = (Some i, t') \<Longrightarrow> owned_by (i # os) t'"
  using alloc_Some by (auto simp: owned_by_def)

lemma owned_free:
  assumes "owned_by os t" "i \<in> set os"
  shows "owned_by (remove1 i os) (free i t)"
  using assms free_used by (auto simp: owned_by_def)

lemma owned_perm: "owned_by os t \<Longrightarrow> distinct os' \<Longrightarrow> set os' = set os \<Longrightarrow> owned_by os' t"
  by (simp add: owned_by_def)

lemma owned_count: "owned_by os t \<Longrightarrow> length os \<le> cap"
  using card_used by (metis owned_by_def distinct_card)

end

text \<open>The table of the code provides it.\<close>

definition used_slots :: "psc_key \<Rightarrow> nat set" where
  "used_slots key = {i. bit (clients_used key) i}"

definition table_inv :: "psc_key \<Rightarrow> bool" where
  "table_inv key \<longleftrightarrow> length (clients key) = PSC_MAX_CLIENTS \<and> used_slots key \<subseteq> {..<PSC_MAX_CLIENTS}
     \<and> (\<forall>i \<in> used_slots key. index (clients key ! i) = i \<and> PSC (clients key ! i))"

lemma in_use_bit: "in_use key i \<longleftrightarrow> bit (clients_used key) i"
  by (simp add: in_use_def bit_iff_and_push_bit_not_eq_0)

lemma upd_client_sel [simp]:
  "clients_used (upd_client i f key) = clients_used key"
  "listen_sock (upd_client i f key) = listen_sock key"
  "clients (upd_client i f key) = (clients key)[i := f (clients key ! i)]"
  "used_slots (upd_client i f key) = used_slots key"
  by (simp_all add: upd_client_def used_slots_def)

lemma find_upt_Some: "find P [0..<n] = Some i \<Longrightarrow> i < n \<and> P i"
  by (auto simp: find_Some_iff)

lemma psc_client_alloc_Some:
  assumes inv: "table_inv key" and r: "psc_client_alloc key = (Some i, key')"
  shows "table_inv key' \<and> i < PSC_MAX_CLIENTS \<and> i \<notin> used_slots key
    \<and> used_slots key' = insert i (used_slots key)"
proof -
  from r have f: "find (\<lambda>i. \<not> in_use key i) [0..<PSC_MAX_CLIENTS] = Some i"
    and key': "key' = upd_client i (\<lambda>_. zero_client\<lparr>index := i, PSC := True\<rparr>)
      (key\<lparr>clients_used := clients_used key OR push_bit i 1\<rparr>)"
    by (auto simp: psc_client_alloc_def split: option.splits)
  from find_upt_Some [OF f] have i: "i < 4" "i \<notin> used_slots key"
    by (auto simp: in_use_bit used_slots_def)
  have used: "used_slots key' = insert i (used_slots key)"
    using i by (auto simp: key' used_slots_def bit_simps)
  with inv i show ?thesis
    by (auto simp: table_inv_def key' nth_list_update)
qed

lemma psc_client_free_used:
  assumes inv: "table_inv key" and i: "i \<in> used_slots key"
  shows "table_inv (psc_client_free i key) \<and> used_slots (psc_client_free i key) = used_slots key - {i}"
proof -
  have "used_slots (psc_client_free i key) = used_slots key - {i}"
    using assms by (auto simp: psc_client_free_def used_slots_def table_inv_def bit_simps)
  with inv i show ?thesis
    by (auto simp: table_inv_def psc_client_free_def nth_list_update)
qed

interpretation slots: slot_table psc_client_alloc psc_client_free used_slots table_inv PSC_MAX_CLIENTS
proof unfold_locales
  fix key i key'
  show "table_inv key \<Longrightarrow> used_slots key \<subseteq> {..<4}" by (simp add: table_inv_def)
  show "table_inv key \<Longrightarrow> psc_client_alloc key = (Some i, key') \<Longrightarrow>
      table_inv key' \<and> i < 4 \<and> i \<notin> used_slots key \<and> used_slots key' = insert i (used_slots key)"
    by (rule psc_client_alloc_Some)
  show "table_inv key \<Longrightarrow> i \<in> used_slots key \<Longrightarrow>
      table_inv (psc_client_free i key) \<and> used_slots (psc_client_free i key) = used_slots key - {i}"
    by (rule psc_client_free_used)
  assume inv: "table_inv key" and r: "psc_client_alloc key = (None, key')"
  from r have "find (\<lambda>i. \<not> in_use key i) [0..<4] = None" "key' = key"
    by (auto simp: psc_client_alloc_def split: option.splits)
  with inv show "key' = key \<and> used_slots key = {..<4}"
    by (auto simp: find_None_iff in_use_bit used_slots_def table_inv_def)
qed

lemma table_inv_zero [simp]: "table_inv (zero_key\<lparr>listen_sock := sk\<rparr>)" "used_slots (zero_key\<lparr>listen_sock := sk\<rparr>) = {}"
  by (simp_all add: table_inv_def zero_key_def used_slots_def)

lemma table_inv_upd_client:
  assumes "table_inv key" "index (f (clients key ! i)) = index (clients key ! i)"
    "PSC (f (clients key ! i)) = PSC (clients key ! i)"
  shows "table_inv (upd_client i f key)"
  using assms by (cases "i < length (clients key)") (auto simp: table_inv_def nth_list_update list_update_beyond)

section \<open>Sending to every client\<close>

text \<open>
  The documented behaviour of a network state with several sockets: each is a stream socket
  (\<open>out sk\<close>: the bytes accepted on \<open>sk\<close>), and using or closing one leaves the others alone.
\<close>

definition net_ok :: "'w net \<Rightarrow> (int \<Rightarrow> 'w \<Rightarrow> u8 list) \<Rightarrow> bool" where
  "net_ok n out \<longleftrightarrow>
     (\<forall>sk. send_ok (net_send n sk) (out sk)) \<and>
     (\<forall>sk sk' bs w. sk' \<noteq> sk \<longrightarrow> out sk' (snd (net_send n sk bs w)) = out sk' w) \<and>
     (\<forall>sk sk' w. out sk' (net_close n sk w) = out sk' w)"

definition live :: "psc_key \<Rightarrow> nat \<Rightarrow> bool" where
  "live key i \<longleftrightarrow> in_use key i \<and> sock (clients key ! i) \<noteq> -1"

text \<open>
  The outcome for one client: either the whole message is out and the client is as before, or
  a proper prefix is and its descriptor is -1.
\<close>

definition sent_to ::
    "(int \<Rightarrow> 'w \<Rightarrow> u8 list) \<Rightarrow> u8 list \<Rightarrow> psc_client \<Rightarrow> 'w \<Rightarrow> psc_client \<Rightarrow> 'w \<Rightarrow> bool" where
  "sent_to out msg C w C' w' \<longleftrightarrow>
     (out (sock C) w' = out (sock C) w @ msg \<and> C' = C) \<or>
     (\<exists>bs rest. msg = bs @ rest \<and> rest \<noteq> [] \<and> out (sock C) w' = out (sock C) w @ bs
        \<and> C' = C\<lparr>sock := -1\<rparr>)"

lemma psc_sendall_keeps:
  assumes "\<And>bs w. g (snd (tx bs w)) = g w"
  shows "psc_sendall tx buf w = (r, w') \<Longrightarrow> g w' = g w"
proof (induction "length buf" arbitrary: buf w r w' rule: less_induct)
  case less
  obtain x w1 where x: "tx buf w = (x, w1)" by (cases "tx buf w")
  have w1: "g w1 = g w" using assms [of buf w] x by simp
  show ?case
  proof (cases "buf = [] \<or> (\<exists>e. x = Send_Error e) \<or> x = Sent 0")
    case True
    with less.prems x w1 show ?thesis
      by (auto simp: psc_sendall.simps [of tx buf] split: if_splits)
  next
    case False
    then obtain n where n: "x = Sent n" "n \<noteq> 0" "buf \<noteq> []" by (cases x) auto
    with less.prems x have "psc_sendall tx (drop n buf) w1 = (r, w')"
      by (auto simp: psc_sendall.simps [of tx buf])
    with less.hyps [OF _ this] n w1 show ?thesis by simp
  qed
qed

lemma psc_sendmsg_keeps:
  assumes "\<And>bs w. g (snd (tx bs w)) = g w" "psc_sendmsg tx mid msg w = (r, w')"
  shows "g w' = g w"
  using assms(2)
  by (auto simp: psc_sendmsg_def psc_sendhead_def split: prod.splits option.splits
      dest!: psc_sendall_keeps [of g tx, OF assms(1)])

lemma send_or_drop_step:
  assumes ok: "net_ok n out" and i: "i < length (clients key)"
    and r: "send_or_drop n mid msg i (key, w) = (key', w')"
  shows "clients_used key' = clients_used key \<and> length (clients key') = length (clients key)
    \<and> (\<forall>j. j \<noteq> i \<longrightarrow> clients key' ! j = clients key ! j)
    \<and> sent_to out (frame (mid, msg)) (clients key ! i) w (clients key' ! i) w'
    \<and> (\<forall>sk. sk \<noteq> sock (clients key ! i) \<longrightarrow> out sk w' = out sk w)"
proof -
  let ?sk = "sock (clients key ! i)"
  obtain ret w1 where m: "psc_sendmsg (net_send n ?sk) mid msg w = (ret, w1)"
    by (cases "psc_sendmsg (net_send n ?sk) mid msg w")
  have tx: "send_ok (net_send n ?sk) (out ?sk)" and close: "\<And>sk. out sk (net_close n ?sk w1) = out sk w1"
    using ok by (auto simp: net_ok_def)
  have others: "out sk w1 = out sk w" if "sk \<noteq> ?sk" for sk
    using psc_sendmsg_keeps [of "out sk", OF _ m] ok that by (auto simp: net_ok_def)
  obtain bs where "out ?sk w1 = out ?sk w @ bs" "delivered ret bs (frame (mid, msg))"
    using psc_sendmsg_sent [OF tx m] by blast
  with r m i close others show ?thesis
    by (cases ret) (auto simp: send_or_drop_def Let_def sent_to_def delivered_def)
qed

lemma send_client_step:
  assumes ok: "net_ok n out" and i: "i < length (clients key)"
    and r: "send_client n mid msg i (key, w) = (key', w')"
  shows "clients_used key' = clients_used key \<and> length (clients key') = length (clients key)
    \<and> (\<forall>j. j \<noteq> i \<longrightarrow> clients key' ! j = clients key ! j)
    \<and> (if live key i then sent_to out (frame (mid, msg)) (clients key ! i) w (clients key' ! i) w'
       else key' = key)
    \<and> (\<forall>sk. live key i \<and> sk = sock (clients key ! i) \<or> out sk w' = out sk w)"
  using r send_or_drop_step [OF ok i] by (fastforce simp: send_client_def live_def split: if_splits)

text \<open>No two clients the server sends to have the same descriptor.\<close>

definition live_distinct :: "psc_key \<Rightarrow> bool" where
  "live_distinct key \<longleftrightarrow> (\<forall>i j. live key i \<longrightarrow> live key j \<longrightarrow>
     sock (clients key ! i) = sock (clients key ! j) \<longrightarrow> i = j)"

lemma send_client_live:
  assumes ok: "net_ok n out" and i: "i < length (clients key)"
    and r: "send_client n mid msg i (key, w) = (key', w')"
  shows "j \<noteq> i \<Longrightarrow> live key' j = live key j \<and> clients key' ! j = clients key ! j"
    and "live_distinct key \<Longrightarrow> live_distinct key'"
proof -
  note step = send_client_step [OF ok i r]
  have same: "live key' j = live key j \<and> clients key' ! j = clients key ! j" if "j \<noteq> i" for j
    using step that by (auto simp: live_def in_use_def)
  then show "j \<noteq> i \<Longrightarrow> live key' j = live key j \<and> clients key' ! j = clients key ! j" by blast
  have at_i: "live key' i \<Longrightarrow> live key i \<and> sock (clients key' ! i) = sock (clients key ! i)"
    using step by (auto simp: live_def in_use_def sent_to_def split: if_splits)
  assume dist: "live_distinct key"
  show "live_distinct key'"
    unfolding live_distinct_def
  proof (intro allI impI)
    fix a b assume "live key' a" "live key' b" "sock (clients key' ! a) = sock (clients key' ! b)"
    then have "live key a" "live key b" "sock (clients key ! a) = sock (clients key ! b)"
      using at_i same by metis+
    then show "a = b" using dist by (auto simp: live_distinct_def)
  qed
qed

lemma sent_to_start: "out (sock C) v = out (sock C) w \<Longrightarrow> sent_to out m C v C' w' = sent_to out m C w C' w'"
  by (simp add: sent_to_def)

lemma fold_send_client:
  assumes ok: "net_ok n out"
  shows "fold (send_client n mid msg) is (key, w) = (key', w') \<Longrightarrow> distinct is \<Longrightarrow>
    set is \<subseteq> {..<length (clients key)} \<Longrightarrow> live_distinct key \<Longrightarrow>
    clients_used key' = clients_used key \<and> length (clients key') = length (clients key)
    \<and> (\<forall>i. if i \<in> set is \<and> live key i
         then sent_to out (frame (mid, msg)) (clients key ! i) w (clients key' ! i) w'
         else clients key' ! i = clients key ! i)
    \<and> (\<forall>sk. (\<exists>i \<in> set is. live key i \<and> sk = sock (clients key ! i)) \<or> out sk w' = out sk w)"
proof (induction "is" arbitrary: key w)
  case Nil
  then show ?case by simp
next
  case (Cons i "is")
  obtain key1 w1 where s: "send_client n mid msg i (key, w) = (key1, w1)"
    by (cases "send_client n mid msg i (key, w)")
  have i: "i < length (clients key)" "i \<notin> set is" using Cons.prems by auto
  note step = send_client_step [OF ok i(1) s]
  note same = send_client_live(1) [OF ok i(1) s]
  have IH: "clients_used key' = clients_used key1 \<and> length (clients key') = length (clients key1)
    \<and> (\<forall>i. if i \<in> set is \<and> live key1 i
         then sent_to out (frame (mid, msg)) (clients key1 ! i) w1 (clients key' ! i) w'
         else clients key' ! i = clients key1 ! i)
    \<and> (\<forall>sk. (\<exists>i \<in> set is. live key1 i \<and> sk = sock (clients key1 ! i)) \<or> out sk w' = out sk w1)"
    using Cons.IH [of key1 w1] Cons.prems s step send_client_live(2) [OF ok i(1) s] by simp
  have other: "sock (clients key ! j) \<noteq> sock (clients key ! i)" if "j \<noteq> i" "live key j" "live key i" for j
    using Cons.prems(4) that by (auto simp: live_distinct_def)
  have "if j \<in> set (i # is) \<and> live key j
      then sent_to out (frame (mid, msg)) (clients key ! j) w (clients key' ! j) w'
      else clients key' ! j = clients key ! j" for j
  proof (cases "j = i")
    case True
    have "out (sock (clients key ! i)) w' = out (sock (clients key ! i)) w1" if "live key i"
      using IH same other that i(2) by metis
    moreover have "clients key' ! i = clients key1 ! i" using IH i(2) by auto
    ultimately show ?thesis using step True by (auto simp: sent_to_def)
  next
    case False
    have "out (sock (clients key ! j)) w1 = out (sock (clients key ! j)) w" if "live key j"
      using step other False that by metis
    moreover have "if j \<in> set is \<and> live key1 j
         then sent_to out (frame (mid, msg)) (clients key1 ! j) w1 (clients key' ! j) w'
         else clients key' ! j = clients key1 ! j" using IH by blast
    ultimately show ?thesis
      using False same [OF False] sent_to_start [of out "clients key ! j" w1 w] by (auto split: if_splits)
  qed
  moreover have "(\<exists>j \<in> set (i # is). live key j \<and> sk = sock (clients key ! j)) \<or> out sk w' = out sk w" for sk
    using IH step same i(2) by (metis list.set_intros)
  ultimately show ?case using IH step by simp
qed

section \<open>Dispatching a client's messages\<close>

text \<open>
  What the callback sees of a list of messages: each with the buffer as the previous ones left
  it, overwritten from the front.
\<close>

definition dispatch ::
    "(u16 \<Rightarrow> u32 \<Rightarrow> u8 list \<Rightarrow> 'a \<Rightarrow> 'a run) \<Rightarrow> (u16 \<times> u8 list) list \<Rightarrow> u8 list \<times> 'a \<Rightarrow> (u8 list \<times> 'a) run" where
  "dispatch f = run_fold (\<lambda>m (buf, a).
     let buf' = store (snd m) buf in
     run_bind (f (fst m) (word_of_nat (length (snd m))) buf' a) (\<lambda>a'. Ret (buf', a')))"

text \<open>A callback that acts on the rest of the program's state only.\<close>

definition app_callback ::
    "(nat \<Rightarrow> u16 \<Rightarrow> u32 \<Rightarrow> u8 list \<Rightarrow> ('w, 'a) server \<Rightarrow> ('w, 'a) server run)
     \<Rightarrow> (u16 \<Rightarrow> u32 \<Rightarrow> u8 list \<Rightarrow> 'a \<Rightarrow> 'a run) \<Rightarrow> bool" where
  "app_callback cb f \<longleftrightarrow> (\<forall>i mid len buf srv.
     cb i mid len buf srv = run_bind (f mid len buf (app srv)) (\<lambda>a. Ret (srv\<lparr>app := a\<rparr>)))"

text \<open>A peer that has closed the connection: no bytes come when none are pending.\<close>

definition peer_closes :: "'w receiver \<Rightarrow> ('w \<Rightarrow> u8 list) \<Rightarrow> bool" where
  "peer_closes rcv pending \<longleftrightarrow> (\<forall>k w. pending w = [] \<longrightarrow> fst (rcv k w) = Received [])"

lemma psc_recvmsg_closed:
  assumes "peer_closes rcv pending" "pending w = []"
  shows "\<exists>w'. psc_recvmsg rcv maxlen buf w = (Ret (Some ENOTCONN, None), buf, w')"
proof -
  obtain w1 where "rcv 8 w = (Received [], w1)"
    using assms by (metis peer_closes_def prod.collapse)
  then show ?thesis by (simp add: psc_recvmsg_def psc_recvhead_def psc_recvall.simps)
qed

definition with_buf :: "nat \<Rightarrow> u8 list \<Rightarrow> 'w \<Rightarrow> 'a \<Rightarrow> ('w, 'a) server \<Rightarrow> ('w, 'a) server" where
  "with_buf i buf w a srv =
     srv\<lparr>skey := upd_client i (rxbuf_update (\<lambda>_. buf)) (skey srv), world := w, app := a\<rparr>"

lemma with_buf_with_buf:
  "i < length (clients (skey srv)) \<Longrightarrow>
    with_buf i buf' w' a' (with_buf i buf w a srv) = with_buf i buf' w' a' srv"
  by (simp add: with_buf_def upd_client_def)

lemma with_buf_sel [simp]:
  "world (with_buf i buf w a srv) = w"
  "app (with_buf i buf w a srv) = a"
  "length (clients (skey (with_buf i buf w a srv))) = length (clients (skey srv))"
  "i < length (clients (skey srv)) \<Longrightarrow> rxbuf (clients (skey (with_buf i buf w a srv)) ! i) = buf"
  by (simp_all add: with_buf_def)

lemma rxbuf_size_u32 [simp]: "unat (word_of_nat rxbuf_size :: u32) = rxbuf_size"
  by (simp add: rxbuf_size_def)

lemma handle_turn_message:
  assumes ok: "recv_ok (net_recv n sk) pending up" and cb: "app_callback (recv conf) f"
    and i: "i < length (clients (skey srv))" and up: "up (world srv)"
    and stream: "pending (world srv) = frame (mid, body) @ rest" and len: "length body \<le> rxbuf_size"
  shows "\<exists>w'. pending w' = rest \<and> up w' \<and>
    handle_turn n conf i sk srv =
      (let buf = store body (rxbuf (clients (skey srv) ! i)) in
       run_bind (f mid (word_of_nat (length body)) buf (app srv))
         (\<lambda>a. Ret (True, with_buf i buf w' a srv)))"
proof -
  have small: "length body < 2 ^ 32" using len by (simp add: rxbuf_size_def)
  from psc_recvmsg_up [OF ok up stream small, of "word_of_nat rxbuf_size" "rxbuf (clients (skey srv) ! i)"] len
  obtain w' where "psc_recvmsg (net_recv n sk) (word_of_nat rxbuf_size) (rxbuf (clients (skey srv) ! i)) (world srv)
      = (Ret (None, Some (mid, word_of_nat (length body))), store body (rxbuf (clients (skey srv) ! i)), w')"
      "pending w' = rest" "up w'" by (auto simp: min_def)
  with cb show ?thesis
    by (auto simp: handle_turn_def app_callback_def Let_def with_buf_def run_bind_assoc intro!: exI [of _ w'])
qed

lemma handle_loop_dispatch:
  assumes ok: "recv_ok (net_recv n sk) pending up" and closes: "peer_closes (net_recv n sk) pending"
    and cb: "app_callback (recv conf) f"
  shows "i < length (clients (skey srv)) \<Longrightarrow> up (world srv) \<Longrightarrow>
    pending (world srv) = concat (map frame ms) \<Longrightarrow> \<forall>m \<in> set ms. length (snd m) \<le> rxbuf_size \<Longrightarrow>
    \<exists>w'. handle_loop (Suc (length ms)) n conf i sk srv =
      Some (run_bind (dispatch f ms (rxbuf (clients (skey srv) ! i), app srv))
        (\<lambda>(buf, a). Ret (with_buf i buf w' a srv)))"
proof (induction ms arbitrary: srv)
  case Nil
  then obtain w' where "psc_recvmsg (net_recv n sk) (word_of_nat rxbuf_size) (rxbuf (clients (skey srv) ! i)) (world srv)
      = (Ret (Some ENOTCONN, None), rxbuf (clients (skey srv) ! i), w')"
    using psc_recvmsg_closed [OF closes] by force
  then show ?case by (auto simp: handle_turn_def dispatch_def with_buf_def intro!: exI [of _ w'])
next
  case (Cons m ms)
  obtain mid body where m: "m = (mid, body)" by (cases m)
  let ?buf = "store body (rxbuf (clients (skey srv) ! i))"
  have "pending (world srv) = frame (mid, body) @ concat (map frame ms)" "length body \<le> rxbuf_size"
    using Cons.prems m by simp_all
  from handle_turn_message [OF ok cb Cons.prems(1,2) this]
  obtain w1 where w1: "pending w1 = concat (map frame ms)" "up w1"
    and turn: "handle_turn n conf i sk srv =
      run_bind (f mid (word_of_nat (length body)) ?buf (app srv)) (\<lambda>a. Ret (True, with_buf i ?buf w1 a srv))"
    by (auto simp: Let_def)
  show ?case
  proof (cases "f mid (word_of_nat (length body)) ?buf (app srv)")
    case (Ret a)
    have "\<exists>w'. handle_loop (Suc (length ms)) n conf i sk (with_buf i ?buf w1 a srv) =
      Some (run_bind (dispatch f ms (?buf, a)) (\<lambda>(buf, a'). Ret (with_buf i buf w' a' srv)))"
      using Cons.IH [of "with_buf i ?buf w1 a srv"] w1 Cons.prems by (auto simp: with_buf_with_buf)
    with turn Ret m show ?thesis by (simp add: dispatch_def)
  qed (use turn m in \<open>simp_all add: dispatch_def\<close>)
qed

section \<open>Interleaving of the tasks\<close>

text \<open>
  The accept task, the tasks of the clients and the tasks that send interleave between critical
  sections of \<open>sendguard\<close>. The state: the key, the descriptors open in the network stack, a slot
  allocated whose descriptor is not yet assigned, the slots whose task has been created and has
  not started, the running tasks (slot and descriptor read at the start), and the descriptors a
  finished task has yet to close.
\<close>

record sys =
  ky :: psc_key
  opened :: "int set"
  accepted :: "(nat \<times> int) option"
  spawned :: "nat list"
  running :: "(nat \<times> int) list"
  closing :: "int list"

text \<open>
  Descriptors: \<open>accept\<close> returns one that is not open, sending on one that is not open fails, as
  it does on those of \<open>failing\<close>.
\<close>

definition fd_net :: "int set \<Rightarrow> int set net" where
  "fd_net failing = \<lparr>
     net_send = (\<lambda>sk bs w. (if sk \<in> failing \<or> sk \<notin> w then Send_Error EIO else Sent (length bs), w)),
     net_recv = (\<lambda>sk n w. (Received [], w)),
     net_close = (\<lambda>sk w. w - {sk})\<rparr>"

datatype act = Accept int | Assign "u32 \<times> u16" | Start nat | Send "int set" | Finish nat int | Close_Sock int

fun act_step :: "act \<Rightarrow> sys \<Rightarrow> sys option" where
  "act_step (Accept fd) s =
     (if accepted s = None \<and> 0 \<le> fd \<and> fd \<notin> opened s
      then (case psc_accept (fd_net {}) fd (ky s, insert fd (opened s)) of
              (r, k, w) \<Rightarrow> Some (s\<lparr>ky := k, opened := w, accepted := map_option (\<lambda>i. (i, fd)) r\<rparr>))
      else None)"
| "act_step (Assign addr) s =
     (case accepted s of
        None \<Rightarrow> None
      | Some (i, fd) \<Rightarrow>
          Some (s\<lparr>ky := psc_accept_assign i fd addr (ky s), accepted := None, spawned := i # spawned s\<rparr>))"
| "act_step (Start i) s =
     (if i \<in> set (spawned s)
      then Some (s\<lparr>spawned := remove1 i (spawned s),
                   running := (i, sock (clients (ky s) ! i)) # running s\<rparr>)
      else None)"
| "act_step (Send failing) s =
     (case psc_send (fd_net failing) 0 [] (Some (ky s), opened s) of
        (Some k, w) \<Rightarrow> Some (s\<lparr>ky := k, opened := w\<rparr>)
      | (None, w) \<Rightarrow> None)"
| "act_step (Finish i fd) s =
     (if (i, fd) \<in> set (running s)
      then Some (s\<lparr>ky := psc_client_free i (ky s), running := remove1 (i, fd) (running s),
                   closing := fd # closing s\<rparr>)
      else None)"
| "act_step (Close_Sock fd) s =
     (if fd \<in> set (closing s)
      then Some (s\<lparr>opened := net_close (fd_net {}) fd (opened s), closing := remove1 fd (closing s)\<rparr>)
      else None)"

definition sys_init :: "int \<Rightarrow> sys" where
  "sys_init sk = \<lparr>ky = zero_key\<lparr>listen_sock := sk\<rparr>, opened = {sk}, accepted = None, spawned = [],
     running = [], closing = []\<rparr>"

inductive reachable :: "sys \<Rightarrow> bool" where
  init: "reachable (sys_init sk)"
| step: "reachable s \<Longrightarrow> act_step a s = Some s' \<Longrightarrow> reachable s'"

text \<open>Several actions one after the other.\<close>

fun acts :: "act list \<Rightarrow> sys \<Rightarrow> sys option" where
  "acts [] s = Some s"
| "acts (a # as) s = Option.bind (act_step a s) (acts as)"

lemma acts_reachable: "acts as s = Some s' \<Longrightarrow> reachable s \<Longrightarrow> reachable s'"
  by (induction as arbitrary: s) (auto simp: Option.bind_eq_Some_conv intro: reachable.step)

text \<open>The slots the tasks hold.\<close>

definition owners :: "sys \<Rightarrow> nat list" where
  "owners s = (case accepted s of None \<Rightarrow> [] | Some (i, fd) \<Rightarrow> [i]) @ spawned s @ map fst (running s)"

lemma send_client_table:
  "table_inv (fst s) \<Longrightarrow> table_inv (fst (send_client n mid msg i s))
    \<and> used_slots (fst (send_client n mid msg i s)) = used_slots (fst s)"
  by (auto simp: send_client_def send_or_drop_def Let_def intro: table_inv_upd_client
      split: prod.split option.split)

lemma fold_send_client_table:
  "table_inv (fst s) \<Longrightarrow> table_inv (fst (fold (send_client n mid msg) is s))
    \<and> used_slots (fst (fold (send_client n mid msg) is s)) = used_slots (fst s)"
proof (induction "is" arbitrary: s)
  case (Cons i "is")
  with send_client_table [of s n mid msg i] Cons.IH [of "send_client n mid msg i s"] show ?case by simp
qed simp

lemma psc_send_owned:
  assumes "slots.owned_by os key" "psc_send n mid msg (Some key, w) = (Some key', w')"
  shows "slots.owned_by os key'"
  using assms fold_send_client_table [of "(key, w)" n mid msg "[0..<PSC_MAX_CLIENTS]"]
  by (auto simp: psc_send_def slots.owned_by_def split: prod.splits)

lemma owned_upd:
  assumes "slots.owned_by os key" "index (f (clients key ! i)) = index (clients key ! i)"
    "PSC (f (clients key ! i)) = PSC (clients key ! i)"
  shows "slots.owned_by os (upd_client i f key)"
  using assms table_inv_upd_client by (auto simp: slots.owned_by_def)

lemma remove1_fst:
  "(i, v) \<in> set xs \<Longrightarrow> distinct (map fst xs) \<Longrightarrow>
    distinct (map fst (remove1 (i, v) xs)) \<and> fst ` set (remove1 (i, v) xs) = fst ` set xs - {i}"
proof (induction xs)
  case (Cons x xs)
  show ?case
  proof (cases "x = (i, v)")
    case True
    with Cons.prems show ?thesis by auto
  next
    case False
    with Cons.prems have "(i, v) \<in> set xs" by auto
    then have "i \<in> set (map fst xs)" by (metis fst_conv image_eqI set_map)
    then have "fst x \<noteq> i" using Cons.prems(2) by (metis distinct.simps(2) list.simps(9))
    with False Cons \<open>(i, v) \<in> set xs\<close> show ?thesis by auto
  qed
qed simp

lemma act_step_owned:
  assumes "slots.owned_by (owners s) (ky s)" "act_step a s = Some s'"
  shows "slots.owned_by (owners s') (ky s')"
proof (cases a)
  case (Accept fd)
  have "accepted s = None" using assms(2) Accept by (auto split: if_splits)
  then have owned: "slots.owned_by (spawned s @ map fst (running s)) (ky s)"
    using assms(1) by (simp add: owners_def)
  obtain r k w where r: "psc_accept (fd_net {}) fd (ky s, insert fd (opened s)) = (r, k, w)"
    by (cases "psc_accept (fd_net {}) fd (ky s, insert fd (opened s))")
  then have s': "s' = s\<lparr>ky := k, opened := w, accepted := map_option (\<lambda>i. (i, fd)) r\<rparr>" "fd \<noteq> -1"
    using assms(2) Accept by (auto split: if_splits)
  show ?thesis
  proof (cases r)
    case None
    then have "k = ky s" using r s'(2) owned slots.alloc_None
      by (auto simp: psc_accept_def slots.owned_by_def split: prod.splits option.splits)
    with owned None s' show ?thesis by (simp add: owners_def)
  next
    case (Some i)
    then have "psc_client_alloc (ky s) = (Some i, k)" using r s'(2)
      by (auto simp: psc_accept_def split: prod.splits option.splits)
    with slots.owned_alloc [OF owned] Some s' show ?thesis by (simp add: owners_def)
  qed
next
  case (Assign addr)
  with assms show ?thesis
    by (auto simp: psc_accept_assign_def owners_def split: option.splits intro!: owned_upd)
next
  case (Start i)
  then have s': "s' = s\<lparr>spawned := remove1 i (spawned s), running := (i, sock (clients (ky s) ! i)) # running s\<rparr>"
    "i \<in> set (spawned s)" using assms(2) by (auto split: if_splits)
  have dist: "distinct (owners s)" using assms(1) by (simp add: slots.owned_by_def)
  then have "a \<notin> set (spawned s)" if "(a, b) \<in> set (running s)" for a b
    using that by (force simp: owners_def)
  with s' dist show ?thesis
    by (auto simp: owners_def split: option.splits intro!: slots.owned_perm [OF assms(1)])
next
  case (Send failing)
  obtain k w where "psc_send (fd_net failing) 0 [] (Some (ky s), opened s) = (Some k, w)"
      "s' = s\<lparr>ky := k, opened := w\<rparr>"
    using assms(2) Send by (auto split: prod.splits option.splits)
  with psc_send_owned [OF assms(1)] show ?thesis by (simp add: owners_def)
next
  case (Finish i fd)
  then have s': "s' = s\<lparr>ky := psc_client_free i (ky s), running := remove1 (i, fd) (running s), closing := fd # closing s\<rparr>"
    "(i, fd) \<in> set (running s)" using assms(2) by (auto split: if_splits)
  have dist: "distinct (owners s)" using assms(1) by (simp add: slots.owned_by_def)
  define A where "A = (case accepted s of None \<Rightarrow> [] | Some (j, fd) \<Rightarrow> [j]) @ spawned s"
  have os: "owners s = A @ map fst (running s)" "owners s' = A @ map fst (remove1 (i, fd) (running s))"
    using s'(1) by (simp_all add: owners_def A_def)
  have i: "i \<in> fst ` set (running s)" using s'(2) by force
  then have "i \<in> set (owners s)" by (simp add: os)
  note owned = slots.owned_free [OF assms(1) this]
  have "distinct (map fst (running s))" "distinct A" "set A \<inter> fst ` set (running s) = {}"
    using dist by (simp_all add: os)
  with remove1_fst [OF s'(2)] i
  have "distinct (owners s')" "set (owners s') = set (remove1 i (owners s))"
    unfolding set_remove1_eq [OF dist] by (auto simp: os)
  from slots.owned_perm [OF owned this] s'(1) show ?thesis by simp
next
  case (Close_Sock fd)
  with assms show ?thesis by (auto simp: owners_def split: if_splits)
qed

lemma reachable_owned: "reachable s \<Longrightarrow> slots.owned_by (owners s) (ky s)"
proof (induction rule: reachable.induct)
  case (init sk)
  show ?case by (simp add: sys_init_def owners_def slots.owned_by_def)
next
  case (step s a s')
  then show ?case using act_step_owned by blast
qed

text \<open>On this network a send leaves the descriptors alone, and fails where it is made to.\<close>

lemma fd_sendall: "psc_sendall (net_send (fd_net F) sk) buf w =
    (if buf = [] \<or> sk \<notin> F \<and> sk \<in> w then None else Some EIO, w)"
  by (cases "buf = []") (simp_all add: psc_sendall.simps [of _ buf] psc_sendall.simps [of _ "[]"] fd_net_def)

lemma fd_sendmsg: "psc_sendmsg (net_send (fd_net F) sk) mid msg w = (if sk \<notin> F \<and> sk \<in> w then None else Some EIO, w)"
  by (simp add: psc_sendmsg_def psc_sendhead_def fd_sendall psc_header_def)

lemma fd_close: "net_close (fd_net F) sk w = w - {sk}"
  by (simp add: fd_net_def)

lemma fd_send_client:
  "snd (send_client (fd_net F) mid msg i s) \<subseteq> snd s"
  "j \<noteq> i \<Longrightarrow> clients (fst (send_client (fd_net F) mid msg i s)) ! j = clients (fst s) ! j"
  "clients_used (fst (send_client (fd_net F) mid msg i s)) = clients_used (fst s)"
  "in_use (fst s) i \<Longrightarrow> sock (clients (fst s) ! i) = fd \<Longrightarrow> fd \<noteq> -1 \<Longrightarrow> fd \<in> F \<Longrightarrow> fd \<notin> snd (send_client (fd_net F) mid msg i s)"
  by (auto simp: send_client_def send_or_drop_def fd_sendmsg fd_close Let_def)

lemma fd_sends_shrink: "snd (fold (send_client (fd_net F) mid msg) is s) \<subseteq> snd s"
proof (induction "is" arbitrary: s)
  case (Cons k "is")
  show ?case using Cons.IH [of "send_client (fd_net F) mid msg k s"] fd_send_client(1) [of F mid msg k s] by (simp add: subset_trans)
qed simp

lemma fd_sends_close:
  "i \<in> set is \<Longrightarrow> in_use (fst s) i \<Longrightarrow> sock (clients (fst s) ! i) = fd \<Longrightarrow> fd \<noteq> -1 \<Longrightarrow> fd \<in> F \<Longrightarrow>
     fd \<notin> snd (fold (send_client (fd_net F) mid msg) is s)"
proof (induction "is" arbitrary: s)
  case (Cons k "is")
  let ?s = "send_client (fd_net F) mid msg k s"
  show ?case
  proof (cases "k = i")
    case True
    then have "fd \<notin> snd ?s" using fd_send_client(4) [of s k fd F mid msg] Cons.prems by simp
    then show ?thesis using fd_sends_shrink [of F mid msg "is" ?s] by auto
  next
    case False
    then have "in_use (fst ?s) i" "sock (clients (fst ?s) ! i) = fd" "i \<in> set is"
      using Cons.prems fd_send_client(2,3) [where i = k and s = s] by (auto simp: in_use_def)
    then show ?thesis using Cons.IH [of ?s] Cons.prems by simp
  qed
qed simp

text \<open>What a failing broadcast does to the state of the system.\<close>

lemma act_Send:
  assumes "in_use (ky s) i" "i < PSC_MAX_CLIENTS" "sock (clients (ky s) ! i) = fd" "fd \<noteq> -1" "slots.owned_by (owners s) (ky s)"
  shows "\<exists>k w. act_step (Send {fd}) s = Some (s\<lparr>ky := k, opened := w\<rparr>) \<and> fd \<notin> w \<and> w \<subseteq> opened s
    \<and> slots.owned_by (owners s) k \<and> used_slots k = used_slots (ky s)"
proof -
  obtain k w where r: "fold (send_client (fd_net {fd}) 0 []) [0..<PSC_MAX_CLIENTS] (ky s, opened s) = (k, w)"
    by (cases "fold (send_client (fd_net {fd}) 0 []) [0..<PSC_MAX_CLIENTS] (ky s, opened s)")
  then have p: "psc_send (fd_net {fd}) 0 [] (Some (ky s), opened s) = (Some k, w)" by (simp add: psc_send_def)
  have "table_inv (ky s)" using assms(5) by (simp add: slots.owned_by_def)
  then have "used_slots k = used_slots (ky s)"
    using fold_send_client_table [of "(ky s, opened s)" "fd_net {fd}" 0 "[]" "[0..<PSC_MAX_CLIENTS]"] r by simp
  moreover have "fd \<notin> w" "w \<subseteq> opened s"
    using fd_sends_close [of i "[0..<PSC_MAX_CLIENTS]" "(ky s, opened s)" fd "{fd}" 0 "[]"]
      fd_sends_shrink [of "{fd}" 0 "[]" "[0..<PSC_MAX_CLIENTS]" "(ky s, opened s)"] assms(1-4) r by auto
  ultimately show ?thesis using p psc_send_owned [OF assms(5) p] by auto
qed

section \<open>A concrete network\<close>

text \<open>For the witnesses: a byte log per descriptor; sends on the dead ones fail.\<close>

definition log_net :: "int set \<Rightarrow> (int \<Rightarrow> u8 list) net" where
  "log_net dead = \<lparr>
     net_send = (\<lambda>sk bs w. if sk \<in> dead then (Send_Error EIO, w) else (Sent (length bs), w(sk := w sk @ bs))),
     net_recv = (\<lambda>sk n w. (Received [], w)),
     net_close = (\<lambda>sk w. w)\<rparr>"

lemma log_net_ok: "net_ok (log_net dead) (\<lambda>sk w. w sk)"
  by (auto simp: net_ok_def send_ok_def log_net_def)

text \<open>A network on which every descriptor receives from the same script.\<close>

definition script_net :: "(u8 list) net" where
  "script_net = \<lparr>net_send = (\<lambda>sk bs w. (Send_Error EIO, w)),
     net_recv = (\<lambda>sk n w. (Received (take n w), drop n w)), net_close = (\<lambda>sk w. w)\<rparr>"

lemma script_net_ok:
  "recv_ok (net_recv script_net sk) (\<lambda>w. w) (\<lambda>w. True)"
  "peer_closes (net_recv script_net sk) (\<lambda>w. w)"
  by (auto simp: script_net_def recv_ok_def peer_closes_def)

section \<open>Properties\<close>

text \<open>
  C28. Slots are never shared: in every interleaving of accepting, starting, sending and ending
  tasks, the slot being set up, those of created tasks and those of running tasks are pairwise
  different, are exactly the bits of \<open>clients_used\<close>, and are at most \<open>PSC_MAX_CLIENTS\<close>.
\<close>

theorem server_slots_exclusive:
  assumes "reachable s"
  shows "distinct (owners s) \<and> set (owners s) = used_slots (ky s) \<and> length (owners s) \<le> PSC_MAX_CLIENTS"
  using slots.owned_count [OF reachable_owned [OF assms]] reachable_owned [OF assms]
  by (simp add: slots.owned_by_def)

theorem server_slots_exclusive_witness:
  "\<exists>s. acts [Accept 5, Assign (1, 2), Start 0, Accept 6] (sys_init 3) = Some s \<and> owners s = [1, 0]
    \<and> distinct (owners s) \<and> set (owners s) = used_slots (ky s) \<and> length (owners s) \<le> PSC_MAX_CLIENTS"
proof -
  obtain s where s: "acts [Accept 5, Assign (1, 2), Start 0, Accept 6] (sys_init 3) = Some s" "owners s = [1, 0]"
    by (simp add: sys_init_def zero_key_def zero_client_def psc_accept_def psc_client_alloc_def
      in_use_def upd_client_def psc_accept_assign_def fd_net_def owners_def upt_rec numeral_eq_Suc
      del: replicate.simps)
  with server_slots_exclusive [OF acts_reachable [OF s(1) reachable.init]] show ?thesis by simp
qed

text \<open>
  A client is refused exactly when all slots are taken, and then nothing of the table
  changes: \<open>psc_client_alloc\<close> on a table in order.
\<close>

theorem psc_client_alloc_fails_iff_full:
  assumes "table_inv key"
  shows "fst (psc_client_alloc key) = None \<longleftrightarrow> card (used_slots key) = PSC_MAX_CLIENTS"
  by (rule slots.alloc_fails_iff [OF assms])

theorem psc_client_alloc_fails_iff_full_witness:
  "fst (psc_client_alloc (zero_key\<lparr>listen_sock := 3\<rparr>)) = None \<longleftrightarrow>
    card (used_slots (zero_key\<lparr>listen_sock := 3\<rparr>)) = PSC_MAX_CLIENTS"
  by (rule psc_client_alloc_fails_iff_full [OF table_inv_zero(1)])

text \<open>
  C34. \<open>psc_send\<close> to all clients: every client in use with a descriptor gets the whole message,
  or a proper prefix of it after which its descriptor is -1; all other clients, descriptors
  and the bit mask are untouched.
\<close>

theorem psc_send_broadcast:
  assumes "net_ok n out" "table_inv key" "live_distinct key"
    and r: "psc_send n mid msg (Some key, w) = (Some key', w')"
  shows "clients_used key' = clients_used key
    \<and> (\<forall>i < PSC_MAX_CLIENTS. if live key i
         then sent_to out (frame (mid, msg)) (clients key ! i) w (clients key' ! i) w'
         else clients key' ! i = clients key ! i)
    \<and> (\<forall>sk. (\<exists>i < PSC_MAX_CLIENTS. live key i \<and> sk = sock (clients key ! i)) \<or> out sk w' = out sk w)"
proof -
  have f: "fold (send_client n mid msg) [0..<PSC_MAX_CLIENTS] (key, w) = (key', w')"
    using r by (auto simp: psc_send_def split: prod.splits)
  have "set [0..<PSC_MAX_CLIENTS] \<subseteq> {..<length (clients key)}"
    using assms(2) by (auto simp: table_inv_def)
  from fold_send_client [OF assms(1) f distinct_upt this assms(3)] show ?thesis
    by (simp add: Bex_def)
qed

text \<open>Two clients, on descriptors 5 and 6; sends on 6 fail.\<close>

definition two_clients :: psc_key where
  "two_clients = \<lparr>listen_sock = 3, clients_used = 3, clients =
     [zero_client\<lparr>index := 0, sock := 5, PSC := True\<rparr>, zero_client\<lparr>index := 1, sock := 6, PSC := True\<rparr>,
      zero_client, zero_client]\<rparr>"

lemma bit_three: "bit (3 :: u32) i \<longleftrightarrow> i = 0 \<or> i = 1"
  by (cases i; cases "i - 1") (auto simp: bit_Suc)

lemma two_clients_used: "used_slots two_clients = {0, 1}"
  unfolding used_slots_def two_clients_def psc_key.select_convs bit_three by auto

lemma two_clients_live: "live two_clients i \<longleftrightarrow> i = 0 \<or> i = 1"
proof -
  have "in_use two_clients i \<longleftrightarrow> i \<in> used_slots two_clients"
    by (simp add: in_use_bit used_slots_def)
  then show ?thesis unfolding live_def two_clients_used by (auto simp: two_clients_def)
qed

lemma two_clients_ok: "table_inv two_clients" "live_distinct two_clients"
proof -
  show "table_inv two_clients"
    unfolding table_inv_def two_clients_used by (simp add: two_clients_def)
  show "live_distinct two_clients"
    unfolding live_distinct_def two_clients_live by (auto simp: two_clients_def)
qed

theorem psc_send_broadcast_witness:
  "case psc_send (log_net {6}) 7 [1] (Some two_clients, \<lambda>_. []) of
     (Some key', w') \<Rightarrow> clients_used key' = 3 \<and> w' 5 = frame (7, [1]) \<and> sock (clients key' ! 1) = -1
   | _ \<Rightarrow> False"
proof -
  obtain key' w' where r: "psc_send (log_net {6}) 7 [1] (Some two_clients, \<lambda>_. []) = (Some key', w')"
    by (cases "fold (send_client (log_net {6}) 7 [1]) [0..<PSC_MAX_CLIENTS] (two_clients, \<lambda>_. [])")
      (simp add: psc_send_def)
  have r': "sock (clients key' ! 0) = 5" "sock (clients key' ! 1) = -1"
    using r by (auto simp: psc_send_def send_client_def send_or_drop_def two_clients_def in_use_def
        log_net_def psc_sendmsg_def psc_sendhead_def psc_sendall.simps psc_header_def be16_def
        be32_def upd_client_def upt_rec numeral_eq_Suc)
  from psc_send_broadcast [OF log_net_ok two_clients_ok r]
  have "clients_used key' = 3" "sent_to (\<lambda>sk w. w sk) (frame (7, [1])) (clients two_clients ! 0) (\<lambda>_. [])
      (clients key' ! 0) w'"
    by (auto simp: two_clients_live) (simp_all add: two_clients_def)
  with r r' show ?thesis by (auto simp: sent_to_def two_clients_def)
qed

text \<open>
  \<open>handle_client\<close> dispatches: on a connection that delivers and is then closed by the peer,
  the loop calls the callback once per message, in order, with the id, the length and the
  client's \<open>rxbuf\<close>, and ends after the last one. The buffer is not cleared in between, so
  behind a short body the callback sees bytes of earlier messages.
\<close>

theorem handle_loop_in_order:
  assumes "recv_ok (net_recv n sk) pending up" "peer_closes (net_recv n sk) pending"
    and "app_callback (recv conf) f" "i < length (clients (skey srv))" "up (world srv)"
    and "pending (world srv) = concat (map frame ms)" "\<forall>m \<in> set ms. length (snd m) \<le> rxbuf_size"
  shows "\<exists>w'. handle_loop (Suc (length ms)) n conf i sk srv =
      Some (run_bind (dispatch f ms (rxbuf (clients (skey srv) ! i), app srv))
        (\<lambda>(buf, a). Ret (with_buf i buf w' a srv)))"
  by (rule handle_loop_dispatch [OF assms])

text \<open>A callback that records what it is given.\<close>

definition record_conf :: "('w, (u16 \<times> u32) list) psc_config" where
  "record_conf = \<lparr>port = 3000, conn = (\<lambda>_ _ srv. Ret srv),
     recv = (\<lambda>i mid len buf srv. Ret (srv\<lparr>app := app srv @ [(mid, len)]\<rparr>))\<rparr>"

theorem handle_loop_in_order_witness:
  "\<exists>w'. handle_loop (Suc (length [(1 :: u16, [8 :: u8]), (4, [])])) script_net record_conf 1 6
      \<lparr>skey = two_clients, world = concat (map frame [(1, [8]), (4, [])]), app = []\<rparr> =
    Some (run_bind (dispatch (\<lambda>mid len buf a. Ret (a @ [(mid, len)])) [(1, [8]), (4, [])]
        (rxbuf (clients two_clients ! 1), []))
      (\<lambda>(buf, a). Ret (with_buf 1 buf w' a
        \<lparr>skey = two_clients, world = concat (map frame [(1, [8]), (4, [])]), app = []\<rparr>)))"
  using handle_loop_in_order [OF script_net_ok, of record_conf "\<lambda>mid len buf a. Ret (a @ [(mid, len)])" 1
      "\<lparr>skey = two_clients, world = concat (map frame [(1, [8]), (4, [])]), app = []\<rparr>" "[(1, [8]), (4, [])]" 6]
  by (simp add: app_callback_def record_conf_def two_clients_def rxbuf_size_def)

text \<open>
  C38. The descriptor is closed twice. In every state the server can reach, with a client whose task \<open>i\<close>
  runs on the descriptor \<open>fd\<close> and a free slot, there is this schedule: a send to the client fails and
  \<open>psc_send\<close> closes \<open>fd\<close>; the number is given to the next connection, for which a task \<open>j\<close> is
  started; then the task \<open>i\<close> ends, and closes the same number again. Now the new client's task runs, and
  its slot is in use, on a descriptor closed under it.
\<close>

theorem server_double_close:
  assumes "reachable s" "accepted s = None" and i: "(i, fd) \<in> set (running s)" "sock (clients (ky s) ! i) = fd" "0 \<le> fd"
    and free: "card (used_slots (ky s)) < PSC_MAX_CLIENTS"
  shows "\<exists>j s1 s2 s3. acts [Send {fd}] s = Some s1 \<and> fd \<notin> opened s1
    \<and> acts [Accept fd, Assign addr, Start j] s1 = Some s2 \<and> fd \<in> opened s2 \<and> (j, fd) \<in> set (running s2) \<and> j \<noteq> i
    \<and> acts [Finish i fd, Close_Sock fd] s2 = Some s3 \<and> fd \<notin> opened s3 \<and> (j, fd) \<in> set (running s3)
    \<and> sock (clients (ky s3) ! j) = fd"
proof -
  have owned: "slots.owned_by (owners s) (ky s)" using reachable_owned [OF assms(1)] .
  have "i \<in> set (owners s)" using i(1) by (force simp: owners_def)
  then have used: "i \<in> used_slots (ky s)" using owned by (simp add: slots.owned_by_def)
  moreover have "used_slots (ky s) \<subseteq> {..<PSC_MAX_CLIENTS}" using owned by (simp add: slots.owned_by_def table_inv_def)
  ultimately have "in_use (ky s) i" "i < PSC_MAX_CLIENTS" by (auto simp: in_use_bit used_slots_def)
  from act_Send [OF this i(2) _ owned] i(3) obtain k w where send: "act_step (Send {fd}) s = Some (s\<lparr>ky := k, opened := w\<rparr>)"
    "fd \<notin> w" "slots.owned_by (owners s) k" "used_slots k = used_slots (ky s)" by auto
  have k: "table_inv k" using send(3) by (simp add: slots.owned_by_def)
  then obtain j k1 where alloc: "psc_client_alloc k = (Some j, k1)"
    using slots.alloc_fails_iff [of k] free send(4) by (cases "psc_client_alloc k") auto
  note new = slots.alloc_Some [OF k alloc]
  have j: "j \<noteq> i" "j < length (clients k1)" using new used send(4) by (auto simp: table_inv_def)
  define k2 where "k2 = psc_accept_assign j fd addr k1"
  have k2: "sock (clients k2 ! j) = fd" "j < length (clients k2)" using j(2) by (simp_all add: k2_def psc_accept_assign_def)
  let ?s1 = "s\<lparr>ky := k, opened := w\<rparr>"
  let ?s2 = "?s1\<lparr>ky := k2, opened := insert fd w, accepted := None, running := (j, fd) # running s\<rparr>"
  let ?s3 = "?s2\<lparr>ky := psc_client_free i k2, opened := w, running := (j, fd) # remove1 (i, fd) (running s)\<rparr>"
  have "acts [Accept fd, Assign addr, Start j] ?s1 = Some ?s2"
    using assms(2) i(3) send(2) alloc k2(1) by (simp add: psc_accept_def k2_def [symmetric])
  moreover have "acts [Finish i fd, Close_Sock fd] ?s2 = Some ?s3"
    using i(1) j(1) send(2) by (auto simp: fd_close)
  moreover have "sock (clients (psc_client_free i k2) ! j) = fd" using k2 j(1) by (simp add: psc_client_free_def)
  ultimately show ?thesis using send(1,2) j(1)
    by (intro exI [of _ j] exI [of _ ?s1] exI [of _ ?s2] exI [of _ ?s3]) simp
qed

text \<open>The first client of a server on descriptor 3 gets 5.\<close>

theorem server_double_close_witness:
  "\<exists>s j s1 s2 s3. acts [Accept 5, Assign (1, 2), Start 0] (sys_init 3) = Some s
    \<and> acts [Send {5}] s = Some s1 \<and> 5 \<notin> opened s1
    \<and> acts [Accept 5, Assign (3, 4), Start j] s1 = Some s2 \<and> 5 \<in> opened s2 \<and> (j, 5) \<in> set (running s2) \<and> j \<noteq> 0
    \<and> acts [Finish 0 5, Close_Sock 5] s2 = Some s3 \<and> 5 \<notin> opened s3 \<and> (j, 5) \<in> set (running s3)
    \<and> sock (clients (ky s3) ! j) = 5"
proof -
  have "\<exists>s. acts [Accept 5, Assign (1, 2), Start 0] (sys_init 3) = Some s \<and> accepted s = None
      \<and> running s = [(0, 5)] \<and> sock (clients (ky s) ! 0) = 5 \<and> clients_used (ky s) = 1"
    by (simp add: sys_init_def zero_key_def zero_client_def psc_accept_def psc_client_alloc_def
      in_use_def upd_client_def psc_accept_assign_def upt_rec numeral_eq_Suc del: replicate.simps)
  then obtain s where s: "acts [Accept 5, Assign (1, 2), Start 0] (sys_init 3) = Some s" "accepted s = None"
      "(0, 5) \<in> set (running s)" "sock (clients (ky s) ! 0) = 5" "clients_used (ky s) = 1" by auto
  have "used_slots (ky s) = {0}" using s(5) by (auto simp: used_slots_def bit_1_iff)
  then have "card (used_slots (ky s)) < PSC_MAX_CLIENTS" by simp
  from server_double_close [OF acts_reachable [OF s(1) reachable.init] s(2-4) _ this, of "(3, 4)"] s(1)
  show ?thesis by fastforce
qed

text \<open>
  A slot is in use before it has a descriptor: between \<open>psc_client_alloc\<close> and the assignment
  \<open>C->sock = client\<close>, which is outside the mutex, the slot's descriptor is the 0 left by
  \<open>memset\<close>. A \<open>psc_send\<close> in between sends the message, or a part of it, on descriptor 0,
  whatever that is, and closes it when that fails.
\<close>

theorem psc_send_before_assign:
  assumes "net_ok n out" "table_inv key" "psc_client_alloc key = (Some i, key1)"
    and "send_client n mid msg i (key1, w) = (key2, w')"
  shows "sock (clients key1 ! i) = 0
    \<and> sent_to out (frame (mid, msg)) (clients key1 ! i) w (clients key2 ! i) w'"
proof -
  note new = psc_client_alloc_Some [OF assms(2,3)]
  have "length (clients key) = PSC_MAX_CLIENTS" using assms(2) by (simp add: table_inv_def)
  then have zero: "sock (clients key1 ! i) = 0" "i < length (clients key1)"
    using assms(3) new
    by (auto simp: psc_client_alloc_def zero_client_def nth_list_update split: option.splits)
  have "in_use key1 i" using new by (auto simp: in_use_bit used_slots_def)
  with zero have "live key1 i" by (simp add: live_def)
  with send_client_step [OF assms(1) zero(2) assms(4)] zero(1) show ?thesis by simp
qed

theorem psc_send_before_assign_witness:
  "case psc_client_alloc two_clients of (_, key1) \<Rightarrow>
     case send_client (log_net {}) 7 [1] 2 (key1, \<lambda>_. []) of (key2, w') \<Rightarrow>
       sock (clients key1 ! 2) = 0
       \<and> sent_to (\<lambda>sk w. w sk) (frame (7, [1])) (clients key1 ! 2) (\<lambda>_. []) (clients key2 ! 2) w'"
proof -
  obtain key1 where a: "psc_client_alloc two_clients = (Some 2, key1)"
    by (simp add: psc_client_alloc_def two_clients_def in_use_def upt_rec numeral_eq_Suc)
  obtain key2 w' where s: "send_client (log_net {}) 7 [1] 2 (key1, \<lambda>_. []) = (key2, w')"
    by (cases "send_client (log_net {}) 7 [1] 2 (key1, \<lambda>_. [])")
  from psc_send_before_assign [OF log_net_ok two_clients_ok(1) a s] show ?thesis
    by (simp add: a s)
qed

end
