(* ===== verification/Pl_Regs.thy ===== *)
theory Pl_Regs
  imports Psc_Prelude
begin

text \<open>
  The register map of the FPGA as the firmware sees it (pl_regs.h): byte offsets from the base
  address of the AXI bus. Channel registers are offsets inside the block of one channel;
  channel \<open>c\<close> (1 to 4) has its block at \<open>c * CHBASEADDR\<close>.
\<close>

section \<open>Buffers and channel blocks\<close>
abbreviation (input) AXI_CIRBUFBASE :: u32 where "AXI_CIRBUFBASE \<equiv> 0x10000000"
abbreviation (input) CHBASEADDR :: u32 where "CHBASEADDR \<equiv> 0x200"

section \<open>Global registers\<close>
abbreviation (input) FPGAVER_REG :: u32 where "FPGAVER_REG \<equiv> 0x0"
abbreviation (input) LEDS_REG :: u32 where "LEDS_REG \<equiv> 0x4"
abbreviation (input) RESOLUTION_REG :: u32 where "RESOLUTION_REG \<equiv> 0x8"
abbreviation (input) NUMCHANS_REG :: u32 where "NUMCHANS_REG \<equiv> 0xC"
abbreviation (input) BANDWIDTH_REG :: u32 where "BANDWIDTH_REG \<equiv> 0x10"
abbreviation (input) POLARITY_REG :: u32 where "POLARITY_REG \<equiv> 0x14"
abbreviation (input) EVR_INJ_EVENTNUM_REG :: u32 where "EVR_INJ_EVENTNUM_REG \<equiv> 0x20"
abbreviation (input) EVR_PM_EVENTNUM_REG :: u32 where "EVR_PM_EVENTNUM_REG \<equiv> 0x24"
abbreviation (input) EVR_1HZ_EVENTNUM_REG :: u32 where "EVR_1HZ_EVENTNUM_REG \<equiv> 0x28"
abbreviation (input) EVR_10HZ_EVENTNUM_REG :: u32 where "EVR_10HZ_EVENTNUM_REG \<equiv> 0x2C"
abbreviation (input) EVR_10KHZ_EVENTNUM_REG :: u32 where "EVR_10KHZ_EVENTNUM_REG \<equiv> 0x30"
abbreviation (input) EVR_TS_S_REG :: u32 where "EVR_TS_S_REG \<equiv> 0x40"
abbreviation (input) EVR_TS_NS_REG :: u32 where "EVR_TS_NS_REG \<equiv> 0x44"
abbreviation (input) EVR_RESET_REG :: u32 where "EVR_RESET_REG \<equiv> 0x48"
abbreviation (input) IOC_ACCESS_REG :: u32 where "IOC_ACCESS_REG \<equiv> 0x50"
abbreviation (input) TENHZ_DATASEND_REG :: u32 where "TENHZ_DATASEND_REG \<equiv> 0x54"

section \<open>Channel registers\<close>
abbreviation (input) DCCT1_REG :: u32 where "DCCT1_REG \<equiv> 0x0"
abbreviation (input) DCCT2_REG :: u32 where "DCCT2_REG \<equiv> 0x4"
abbreviation (input) DACMON_REG :: u32 where "DACMON_REG \<equiv> 0x8"
abbreviation (input) VOLT_REG :: u32 where "VOLT_REG \<equiv> 0xC"
abbreviation (input) GND_REG :: u32 where "GND_REG \<equiv> 0x10"
abbreviation (input) SPARE_REG :: u32 where "SPARE_REG \<equiv> 0x14"
abbreviation (input) REG_REG :: u32 where "REG_REG \<equiv> 0x18"
abbreviation (input) ERR_REG :: u32 where "ERR_REG \<equiv> 0x1C"
abbreviation (input) DAC_SETPT_OFFSET_REG :: u32 where "DAC_SETPT_OFFSET_REG \<equiv> 0x20"
abbreviation (input) DAC_SETPT_GAIN_REG :: u32 where "DAC_SETPT_GAIN_REG \<equiv> 0x24"
abbreviation (input) DAC_SETPT_REG :: u32 where "DAC_SETPT_REG \<equiv> 0x28"
abbreviation (input) DAC_OPMODE_REG :: u32 where "DAC_OPMODE_REG \<equiv> 0x2C"
abbreviation (input) DAC_CNTRL_REG :: u32 where "DAC_CNTRL_REG \<equiv> 0x30"
abbreviation (input) DAC_RESET_REG :: u32 where "DAC_RESET_REG \<equiv> 0x34"
abbreviation (input) DAC_RAMPLEN_REG :: u32 where "DAC_RAMPLEN_REG \<equiv> 0x38"
abbreviation (input) DAC_RAMPADDR_REG :: u32 where "DAC_RAMPADDR_REG \<equiv> 0x3C"
abbreviation (input) DAC_RAMPDATA_REG :: u32 where "DAC_RAMPDATA_REG \<equiv> 0x40"
abbreviation (input) DAC_RUNRAMP_REG :: u32 where "DAC_RUNRAMP_REG \<equiv> 0x44"
abbreviation (input) DAC_RAMPACTIVE_REG :: u32 where "DAC_RAMPACTIVE_REG \<equiv> 0x48"
abbreviation (input) DAC_CURRSETPT_REG :: u32 where "DAC_CURRSETPT_REG \<equiv> 0x4C"
abbreviation (input) DCCT1_OFFSET_REG :: u32 where "DCCT1_OFFSET_REG \<equiv> 0x50"
abbreviation (input) DCCT1_GAIN_REG :: u32 where "DCCT1_GAIN_REG \<equiv> 0x54"
abbreviation (input) DCCT2_OFFSET_REG :: u32 where "DCCT2_OFFSET_REG \<equiv> 0x58"
abbreviation (input) DCCT2_GAIN_REG :: u32 where "DCCT2_GAIN_REG \<equiv> 0x5C"
abbreviation (input) DACMON_OFFSET_REG :: u32 where "DACMON_OFFSET_REG \<equiv> 0x60"
abbreviation (input) DACMON_GAIN_REG :: u32 where "DACMON_GAIN_REG \<equiv> 0x64"
abbreviation (input) VOLT_OFFSET_REG :: u32 where "VOLT_OFFSET_REG \<equiv> 0x68"
abbreviation (input) VOLT_GAIN_REG :: u32 where "VOLT_GAIN_REG \<equiv> 0x6C"
abbreviation (input) GND_OFFSET_REG :: u32 where "GND_OFFSET_REG \<equiv> 0x70"
abbreviation (input) GND_GAIN_REG :: u32 where "GND_GAIN_REG \<equiv> 0x74"
abbreviation (input) SPARE_OFFSET_REG :: u32 where "SPARE_OFFSET_REG \<equiv> 0x78"
abbreviation (input) SPARE_GAIN_REG :: u32 where "SPARE_GAIN_REG \<equiv> 0x7C"
abbreviation (input) REG_OFFSET_REG :: u32 where "REG_OFFSET_REG \<equiv> 0x80"
abbreviation (input) REG_GAIN_REG :: u32 where "REG_GAIN_REG \<equiv> 0x84"
abbreviation (input) ERR_OFFSET_REG :: u32 where "ERR_OFFSET_REG \<equiv> 0x88"
abbreviation (input) ERR_GAIN_REG :: u32 where "ERR_GAIN_REG \<equiv> 0x8C"
abbreviation (input) OVC1_THRESH_REG :: u32 where "OVC1_THRESH_REG \<equiv> 0x90"
abbreviation (input) OVC2_THRESH_REG :: u32 where "OVC2_THRESH_REG \<equiv> 0x94"
abbreviation (input) OVV_THRESH_REG :: u32 where "OVV_THRESH_REG \<equiv> 0x98"
abbreviation (input) ERR1_THRESH_REG :: u32 where "ERR1_THRESH_REG \<equiv> 0x9C"
abbreviation (input) ERR2_THRESH_REG :: u32 where "ERR2_THRESH_REG \<equiv> 0xA0"
abbreviation (input) IGND_THRESH_REG :: u32 where "IGND_THRESH_REG \<equiv> 0xA4"
abbreviation (input) OVC1_CNTLIM_REG :: u32 where "OVC1_CNTLIM_REG \<equiv> 0xA8"
abbreviation (input) OVC2_CNTLIM_REG :: u32 where "OVC2_CNTLIM_REG \<equiv> 0xAC"
abbreviation (input) OVV_CNTLIM_REG :: u32 where "OVV_CNTLIM_REG \<equiv> 0xB0"
abbreviation (input) ERR1_CNTLIM_REG :: u32 where "ERR1_CNTLIM_REG \<equiv> 0xB4"
abbreviation (input) ERR2_CNTLIM_REG :: u32 where "ERR2_CNTLIM_REG \<equiv> 0xB8"
abbreviation (input) IGND_CNTLIM_REG :: u32 where "IGND_CNTLIM_REG \<equiv> 0xBC"
abbreviation (input) DCCT_CNTLIM_REG :: u32 where "DCCT_CNTLIM_REG \<equiv> 0xC0"
abbreviation (input) FLT1_CNTLIM_REG :: u32 where "FLT1_CNTLIM_REG \<equiv> 0xC4"
abbreviation (input) FLT2_CNTLIM_REG :: u32 where "FLT2_CNTLIM_REG \<equiv> 0xC8"
abbreviation (input) FLT3_CNTLIM_REG :: u32 where "FLT3_CNTLIM_REG \<equiv> 0xCC"
abbreviation (input) ON_CNTLIM_REG :: u32 where "ON_CNTLIM_REG \<equiv> 0xD0"
abbreviation (input) FAULT_CLEAR_REG :: u32 where "FAULT_CLEAR_REG \<equiv> 0xD4"
abbreviation (input) FAULT_MASK_REG :: u32 where "FAULT_MASK_REG \<equiv> 0xD8"
abbreviation (input) HEARTBEAT_CNTLIM_REG :: u32 where "HEARTBEAT_CNTLIM_REG \<equiv> 0xDC"
abbreviation (input) DIGOUT_ON1_REG :: u32 where "DIGOUT_ON1_REG \<equiv> 0xE0"
abbreviation (input) DIGOUT_ON2_REG :: u32 where "DIGOUT_ON2_REG \<equiv> 0xE4"
abbreviation (input) DIGOUT_RESET_REG :: u32 where "DIGOUT_RESET_REG \<equiv> 0xE8"
abbreviation (input) DIGOUT_SPARE_REG :: u32 where "DIGOUT_SPARE_REG \<equiv> 0xEC"
abbreviation (input) DIGOUT_PARK_REG :: u32 where "DIGOUT_PARK_REG \<equiv> 0xF0"
abbreviation (input) DIGIN_REG :: u32 where "DIGIN_REG \<equiv> 0xF4"
abbreviation (input) FAULTS_LIVE_REG :: u32 where "FAULTS_LIVE_REG \<equiv> 0xF8"
abbreviation (input) FAULTS_LAT_REG :: u32 where "FAULTS_LAT_REG \<equiv> 0xFC"
abbreviation (input) AVEMODE_REG :: u32 where "AVEMODE_REG \<equiv> 0x100"
abbreviation (input) SMOOTH_NEWSETPT_REG :: u32 where "SMOOTH_NEWSETPT_REG \<equiv> 0x104"
abbreviation (input) SMOOTH_OLDSETPT_REG :: u32 where "SMOOTH_OLDSETPT_REG \<equiv> 0x108"
abbreviation (input) SMOOTH_PHASEINC_REG :: u32 where "SMOOTH_PHASEINC_REG \<equiv> 0x10C"
abbreviation (input) DPID_KP_REG :: u32 where "DPID_KP_REG \<equiv> 0x140"
abbreviation (input) DPID_KI_REG :: u32 where "DPID_KI_REG \<equiv> 0x144"
abbreviation (input) DPID_KD_REG :: u32 where "DPID_KD_REG \<equiv> 0x148"
abbreviation (input) DPID_PARK_REG :: u32 where "DPID_PARK_REG \<equiv> 0x14C"
abbreviation (input) DPID_ENB_REG :: u32 where "DPID_ENB_REG \<equiv> 0x150"
abbreviation (input) DPID_ILIMIT_REG :: u32 where "DPID_ILIMIT_REG \<equiv> 0x154"
abbreviation (input) DPID_IRESET_REG :: u32 where "DPID_IRESET_REG \<equiv> 0x158"
abbreviation (input) DPID_SETPTIN_REG :: u32 where "DPID_SETPTIN_REG \<equiv> 0x170"
abbreviation (input) DPID_FDBK_REG :: u32 where "DPID_FDBK_REG \<equiv> 0x174"
abbreviation (input) DPID_ERROR_REG :: u32 where "DPID_ERROR_REG \<equiv> 0x178"
abbreviation (input) DPID_PTERM_REG :: u32 where "DPID_PTERM_REG \<equiv> 0x17C"
abbreviation (input) DPID_ITERM_REG :: u32 where "DPID_ITERM_REG \<equiv> 0x180"
abbreviation (input) DPID_DTERM_REG :: u32 where "DPID_DTERM_REG \<equiv> 0x184"
abbreviation (input) DPID_SUMTERM_REG :: u32 where "DPID_SUMTERM_REG \<equiv> 0x188"
abbreviation (input) DPID_SETPTOUT_REG :: u32 where "DPID_SETPTOUT_REG \<equiv> 0x18C"

section \<open>Snapshot and trigger registers\<close>
abbreviation (input) SNAPSHOT_ADDRPTR :: u32 where "SNAPSHOT_ADDRPTR \<equiv> 0xA00"
abbreviation (input) SNAPSHOT_TOTALTRIGS :: u32 where "SNAPSHOT_TOTALTRIGS \<equiv> 0xA04"
abbreviation (input) SOFTTRIG :: u32 where "SOFTTRIG \<equiv> 0xA08"
abbreviation (input) TESTTRIG :: u32 where "TESTTRIG \<equiv> 0xA0C"
abbreviation (input) USR1TRIG_BUFPTR :: u32 where "USR1TRIG_BUFPTR \<equiv> 0xA20"
abbreviation (input) USR1TRIG_TS_S :: u32 where "USR1TRIG_TS_S \<equiv> 0xA24"
abbreviation (input) USR1TRIG_TS_NS :: u32 where "USR1TRIG_TS_NS \<equiv> 0xA28"
abbreviation (input) USR2TRIG_BUFPTR :: u32 where "USR2TRIG_BUFPTR \<equiv> 0xA30"
abbreviation (input) USR2TRIG_TS_S :: u32 where "USR2TRIG_TS_S \<equiv> 0xA34"
abbreviation (input) USR2TRIG_TS_NS :: u32 where "USR2TRIG_TS_NS \<equiv> 0xA38"
abbreviation (input) USR3TRIG_BUFPTR :: u32 where "USR3TRIG_BUFPTR \<equiv> 0xA40"
abbreviation (input) USR3TRIG_TS_S :: u32 where "USR3TRIG_TS_S \<equiv> 0xA44"
abbreviation (input) USR3TRIG_TS_NS :: u32 where "USR3TRIG_TS_NS \<equiv> 0xA48"
abbreviation (input) USR4TRIG_BUFPTR :: u32 where "USR4TRIG_BUFPTR \<equiv> 0xA50"
abbreviation (input) USR4TRIG_TS_S :: u32 where "USR4TRIG_TS_S \<equiv> 0xA54"
abbreviation (input) USR4TRIG_TS_NS :: u32 where "USR4TRIG_TS_NS \<equiv> 0xA58"
abbreviation (input) FLT1TRIG_BUFPTR :: u32 where "FLT1TRIG_BUFPTR \<equiv> 0xA60"
abbreviation (input) FLT1TRIG_TS_S :: u32 where "FLT1TRIG_TS_S \<equiv> 0xA64"
abbreviation (input) FLT1TRIG_TS_NS :: u32 where "FLT1TRIG_TS_NS \<equiv> 0xA68"
abbreviation (input) FLT2TRIG_BUFPTR :: u32 where "FLT2TRIG_BUFPTR \<equiv> 0xA70"
abbreviation (input) FLT2TRIG_TS_S :: u32 where "FLT2TRIG_TS_S \<equiv> 0xA74"
abbreviation (input) FLT2TRIG_TS_NS :: u32 where "FLT2TRIG_TS_NS \<equiv> 0xA78"
abbreviation (input) FLT3TRIG_BUFPTR :: u32 where "FLT3TRIG_BUFPTR \<equiv> 0xA80"
abbreviation (input) FLT3TRIG_TS_S :: u32 where "FLT3TRIG_TS_S \<equiv> 0xA84"
abbreviation (input) FLT3TRIG_TS_NS :: u32 where "FLT3TRIG_TS_NS \<equiv> 0xA88"
abbreviation (input) FLT4TRIG_BUFPTR :: u32 where "FLT4TRIG_BUFPTR \<equiv> 0xA90"
abbreviation (input) FLT4TRIG_TS_S :: u32 where "FLT4TRIG_TS_S \<equiv> 0xA94"
abbreviation (input) FLT4TRIG_TS_NS :: u32 where "FLT4TRIG_TS_NS \<equiv> 0xA98"
abbreviation (input) ERR1TRIG_BUFPTR :: u32 where "ERR1TRIG_BUFPTR \<equiv> 0xAA0"
abbreviation (input) ERR1TRIG_TS_S :: u32 where "ERR1TRIG_TS_S \<equiv> 0xAA4"
abbreviation (input) ERR1TRIG_TS_NS :: u32 where "ERR1TRIG_TS_NS \<equiv> 0xAA8"
abbreviation (input) ERR2TRIG_BUFPTR :: u32 where "ERR2TRIG_BUFPTR \<equiv> 0xAB0"
abbreviation (input) ERR2TRIG_TS_S :: u32 where "ERR2TRIG_TS_S \<equiv> 0xAB4"
abbreviation (input) ERR2TRIG_TS_NS :: u32 where "ERR2TRIG_TS_NS \<equiv> 0xAB8"
abbreviation (input) ERR3TRIG_BUFPTR :: u32 where "ERR3TRIG_BUFPTR \<equiv> 0xAC0"
abbreviation (input) ERR3TRIG_TS_S :: u32 where "ERR3TRIG_TS_S \<equiv> 0xAC4"
abbreviation (input) ERR3TRIG_TS_NS :: u32 where "ERR3TRIG_TS_NS \<equiv> 0xAC8"
abbreviation (input) ERR4TRIG_BUFPTR :: u32 where "ERR4TRIG_BUFPTR \<equiv> 0xAD0"
abbreviation (input) ERR4TRIG_TS_S :: u32 where "ERR4TRIG_TS_S \<equiv> 0xAD4"
abbreviation (input) ERR4TRIG_TS_NS :: u32 where "ERR4TRIG_TS_NS \<equiv> 0xAD8"
abbreviation (input) INJ1TRIG_BUFPTR :: u32 where "INJ1TRIG_BUFPTR \<equiv> 0xAE0"
abbreviation (input) INJ1TRIG_TS_S :: u32 where "INJ1TRIG_TS_S \<equiv> 0xAE4"
abbreviation (input) INJ1TRIG_TS_NS :: u32 where "INJ1TRIG_TS_NS \<equiv> 0xAE8"
abbreviation (input) INJ2TRIG_BUFPTR :: u32 where "INJ2TRIG_BUFPTR \<equiv> 0xAF0"
abbreviation (input) INJ2TRIG_TS_S :: u32 where "INJ2TRIG_TS_S \<equiv> 0xAF4"
abbreviation (input) INJ2TRIG_TS_NS :: u32 where "INJ2TRIG_TS_NS \<equiv> 0xAF8"
abbreviation (input) INJ3TRIG_BUFPTR :: u32 where "INJ3TRIG_BUFPTR \<equiv> 0xB00"
abbreviation (input) INJ3TRIG_TS_S :: u32 where "INJ3TRIG_TS_S \<equiv> 0xB04"
abbreviation (input) INJ3TRIG_TS_NS :: u32 where "INJ3TRIG_TS_NS \<equiv> 0xB08"
abbreviation (input) INJ4TRIG_BUFPTR :: u32 where "INJ4TRIG_BUFPTR \<equiv> 0xB10"
abbreviation (input) INJ4TRIG_TS_S :: u32 where "INJ4TRIG_TS_S \<equiv> 0xB14"
abbreviation (input) INJ4TRIG_TS_NS :: u32 where "INJ4TRIG_TS_NS \<equiv> 0xB18"
abbreviation (input) EVRTRIG_BUFPTR :: u32 where "EVRTRIG_BUFPTR \<equiv> 0xB20"
abbreviation (input) EVRTRIG_TS_S :: u32 where "EVRTRIG_TS_S \<equiv> 0xB24"
abbreviation (input) EVRTRIG_TS_NS :: u32 where "EVRTRIG_TS_NS \<equiv> 0xB28"
abbreviation (input) ID :: u32 where "ID \<equiv> 0xC00"

section \<open>Identification registers\<close>
abbreviation (input) VERSION :: u32 where "VERSION \<equiv> 0xC04"
abbreviation (input) PRJ_ID :: u32 where "PRJ_ID \<equiv> 0xC08"
abbreviation (input) PRJ_VERSION :: u32 where "PRJ_VERSION \<equiv> 0xC0C"
abbreviation (input) PRJ_SHASUM :: u32 where "PRJ_SHASUM \<equiv> 0xC10"
abbreviation (input) PRJ_TIMESTAMP :: u32 where "PRJ_TIMESTAMP \<equiv> 0xC14"

end
