(* ===== verification/Control_Msg.thy ===== *)
theory Control_Msg
  imports Psc_Prelude
begin

text \<open>
  The constants of control.h: the modes of a channel's DAC and the offsets that name the fields
  of a control message.
\<close>

section \<open>DAC modes\<close>
abbreviation (input) SMOOTH :: u32 where "SMOOTH \<equiv> 0"
abbreviation (input) RAMP :: u32 where "RAMP \<equiv> 1"
abbreviation (input) FOFB :: u32 where "FOFB \<equiv> 2"
abbreviation (input) JUMP :: u32 where "JUMP \<equiv> 3"

section \<open>Global messages\<close>
abbreviation (input) SOFT_TRIG_MSG :: u32 where "SOFT_TRIG_MSG \<equiv> 0"
abbreviation (input) TEST_TRIG_MSG :: u32 where "TEST_TRIG_MSG \<equiv> 4"
abbreviation (input) FP_LED_MSG :: u32 where "FP_LED_MSG \<equiv> 8"
abbreviation (input) EVR_RESET_MSG :: u32 where "EVR_RESET_MSG \<equiv> 16"
abbreviation (input) EVR_INJ_EVENTNUM_MSG :: u32 where "EVR_INJ_EVENTNUM_MSG \<equiv> 20"
abbreviation (input) EVR_PM_EVENTNUM_MSG :: u32 where "EVR_PM_EVENTNUM_MSG \<equiv> 24"
abbreviation (input) EVR_1HZ_EVENTNUM_MSG :: u32 where "EVR_1HZ_EVENTNUM_MSG \<equiv> 28"
abbreviation (input) EVR_10HZ_EVENTNUM_MSG :: u32 where "EVR_10HZ_EVENTNUM_MSG \<equiv> 32"
abbreviation (input) EVR_10KHZ_EVENTNUM_MSG :: u32 where "EVR_10KHZ_EVENTNUM_MSG \<equiv> 36"

section \<open>Channel messages\<close>
abbreviation (input) DAC_OPMODE_MSG :: u32 where "DAC_OPMODE_MSG \<equiv> 100"
abbreviation (input) DAC_SETPT_MSG :: u32 where "DAC_SETPT_MSG \<equiv> 104"
abbreviation (input) DAC_RUNRAMP_MSG :: u32 where "DAC_RUNRAMP_MSG \<equiv> 108"
abbreviation (input) DAC_RAMPLEN_MSG :: u32 where "DAC_RAMPLEN_MSG \<equiv> 112"
abbreviation (input) DAC_SETPT_GAIN_MSG :: u32 where "DAC_SETPT_GAIN_MSG \<equiv> 116"
abbreviation (input) DAC_SETPT_OFFSET_MSG :: u32 where "DAC_SETPT_OFFSET_MSG \<equiv> 120"
abbreviation (input) DCCT1_OFFSET_MSG :: u32 where "DCCT1_OFFSET_MSG \<equiv> 124"
abbreviation (input) DCCT1_GAIN_MSG :: u32 where "DCCT1_GAIN_MSG \<equiv> 128"
abbreviation (input) DCCT2_OFFSET_MSG :: u32 where "DCCT2_OFFSET_MSG \<equiv> 132"
abbreviation (input) DCCT2_GAIN_MSG :: u32 where "DCCT2_GAIN_MSG \<equiv> 136"
abbreviation (input) DACMON_OFFSET_MSG :: u32 where "DACMON_OFFSET_MSG \<equiv> 140"
abbreviation (input) DACMON_GAIN_MSG :: u32 where "DACMON_GAIN_MSG \<equiv> 144"
abbreviation (input) VOLT_OFFSET_MSG :: u32 where "VOLT_OFFSET_MSG \<equiv> 148"
abbreviation (input) VOLT_GAIN_MSG :: u32 where "VOLT_GAIN_MSG \<equiv> 152"
abbreviation (input) GND_OFFSET_MSG :: u32 where "GND_OFFSET_MSG \<equiv> 156"
abbreviation (input) GND_GAIN_MSG :: u32 where "GND_GAIN_MSG \<equiv> 160"
abbreviation (input) SPARE_OFFSET_MSG :: u32 where "SPARE_OFFSET_MSG \<equiv> 164"
abbreviation (input) SPARE_GAIN_MSG :: u32 where "SPARE_GAIN_MSG \<equiv> 168"
abbreviation (input) REG_OFFSET_MSG :: u32 where "REG_OFFSET_MSG \<equiv> 172"
abbreviation (input) REG_GAIN_MSG :: u32 where "REG_GAIN_MSG \<equiv> 176"
abbreviation (input) ERR_OFFSET_MSG :: u32 where "ERR_OFFSET_MSG \<equiv> 180"
abbreviation (input) ERR_GAIN_MSG :: u32 where "ERR_GAIN_MSG \<equiv> 184"
abbreviation (input) OVC1_THRESH_MSG :: u32 where "OVC1_THRESH_MSG \<equiv> 188"
abbreviation (input) OVC2_THRESH_MSG :: u32 where "OVC2_THRESH_MSG \<equiv> 192"
abbreviation (input) OVV_THRESH_MSG :: u32 where "OVV_THRESH_MSG \<equiv> 196"
abbreviation (input) ERR1_THRESH_MSG :: u32 where "ERR1_THRESH_MSG \<equiv> 200"
abbreviation (input) ERR2_THRESH_MSG :: u32 where "ERR2_THRESH_MSG \<equiv> 204"
abbreviation (input) IGND_THRESH_MSG :: u32 where "IGND_THRESH_MSG \<equiv> 208"
abbreviation (input) OVC1_CNTLIM_MSG :: u32 where "OVC1_CNTLIM_MSG \<equiv> 212"
abbreviation (input) OVC2_CNTLIM_MSG :: u32 where "OVC2_CNTLIM_MSG \<equiv> 216"
abbreviation (input) OVV_CNTLIM_MSG :: u32 where "OVV_CNTLIM_MSG \<equiv> 220"
abbreviation (input) ERR1_CNTLIM_MSG :: u32 where "ERR1_CNTLIM_MSG \<equiv> 224"
abbreviation (input) ERR2_CNTLIM_MSG :: u32 where "ERR2_CNTLIM_MSG \<equiv> 228"
abbreviation (input) IGND_CNTLIM_MSG :: u32 where "IGND_CNTLIM_MSG \<equiv> 232"
abbreviation (input) DCCT_CNTLIM_MSG :: u32 where "DCCT_CNTLIM_MSG \<equiv> 236"
abbreviation (input) FLT1_CNTLIM_MSG :: u32 where "FLT1_CNTLIM_MSG \<equiv> 240"
abbreviation (input) FLT2_CNTLIM_MSG :: u32 where "FLT2_CNTLIM_MSG \<equiv> 244"
abbreviation (input) FLT3_CNTLIM_MSG :: u32 where "FLT3_CNTLIM_MSG \<equiv> 248"
abbreviation (input) ON_CNTLIM_MSG :: u32 where "ON_CNTLIM_MSG \<equiv> 252"
abbreviation (input) HEART_CNTLIM_MSG :: u32 where "HEART_CNTLIM_MSG \<equiv> 256"
abbreviation (input) FAULT_CLEAR_MSG :: u32 where "FAULT_CLEAR_MSG \<equiv> 260"
abbreviation (input) FAULT_MASK_MSG :: u32 where "FAULT_MASK_MSG \<equiv> 264"
abbreviation (input) DIGOUT_ON1_MSG :: u32 where "DIGOUT_ON1_MSG \<equiv> 268"
abbreviation (input) DIGOUT_ON2_MSG :: u32 where "DIGOUT_ON2_MSG \<equiv> 272"
abbreviation (input) DIGOUT_RESET_MSG :: u32 where "DIGOUT_RESET_MSG \<equiv> 276"
abbreviation (input) DIGOUT_SPARE_MSG :: u32 where "DIGOUT_SPARE_MSG \<equiv> 280"
abbreviation (input) DIGOUT_PARK_MSG :: u32 where "DIGOUT_PARK_MSG \<equiv> 284"
abbreviation (input) SF_AMPS_PER_SEC_MSG :: u32 where "SF_AMPS_PER_SEC_MSG \<equiv> 300"
abbreviation (input) SF_DAC_DCCTS_MSG :: u32 where "SF_DAC_DCCTS_MSG \<equiv> 304"
abbreviation (input) SF_VOUT_MSG :: u32 where "SF_VOUT_MSG \<equiv> 308"
abbreviation (input) SF_IGND_MSG :: u32 where "SF_IGND_MSG \<equiv> 312"
abbreviation (input) SF_SPARE_MSG :: u32 where "SF_SPARE_MSG \<equiv> 316"
abbreviation (input) SF_REGULATOR_MSG :: u32 where "SF_REGULATOR_MSG \<equiv> 320"
abbreviation (input) SF_ERROR_MSG :: u32 where "SF_ERROR_MSG \<equiv> 324"
abbreviation (input) AVE_MODE_MSG :: u32 where "AVE_MODE_MSG \<equiv> 350"
abbreviation (input) WRITE_QSPI_MSG :: u32 where "WRITE_QSPI_MSG \<equiv> 400"
abbreviation (input) READ_QSPI_MSG :: u32 where "READ_QSPI_MSG \<equiv> 404"
abbreviation (input) DUMP_ADCS_MSG :: u32 where "DUMP_ADCS_MSG \<equiv> 500"
abbreviation (input) KP_MSG :: u32 where "KP_MSG \<equiv> 600"
abbreviation (input) KI_MSG :: u32 where "KI_MSG \<equiv> 604"
abbreviation (input) KD_MSG :: u32 where "KD_MSG \<equiv> 608"
abbreviation (input) DPID_ENB_MSG :: u32 where "DPID_ENB_MSG \<equiv> 612"
abbreviation (input) DPID_IRESET_MSG :: u32 where "DPID_IRESET_MSG \<equiv> 616"
abbreviation (input) DPID_PARK_MSG :: u32 where "DPID_PARK_MSG \<equiv> 620"
abbreviation (input) DPID_ILIMIT_MSG :: u32 where "DPID_ILIMIT_MSG \<equiv> 624"
abbreviation (input) WRITE_RAMPTABLE_MSG :: u32 where "WRITE_RAMPTABLE_MSG \<equiv> 1000"

end
