(* ===== verification/Psc_State.thy ===== *)
theory Psc_State
  imports C_Float Pl_Regs Control_Msg
begin

text \<open>
  The state the firmware's tasks share, and its access to the hardware: \<open>Xil_In32\<close> and
  \<open>Xil_Out32\<close> on the memory-mapped registers of the FPGA and \<open>XQspiPs_PolledTransfer\<close> on the
  flash chip, all of the board support package and so parameters of the model.

  What the program does to the hardware is the sequence of bus operations it performs, kept in
  \<open>bus\<close> in the order they happen. What the hardware answers is a parameter: a function of the
  operations so far, with no assumption that a register reads back what was written or that two
  reads agree. The base address of the AXI bus, generated by the vendor's tools
  (\<open>XPAR_M_AXI_BASEADDR\<close> of xparameters.h), is a parameter too.
\<close>

section \<open>The board\<close>

text \<open>
  \<open>Spi bs n\<close> is a polled transfer of \<open>n\<close> bytes whose send buffer holds the bytes \<open>bs\<close>: with
  fewer than \<open>n\<close> of them the driver clocks out whatever memory follows the buffer.
\<close>

datatype io = Rd u32 | Wr u32 u32 | Spi "u8 list" nat

record board =
  axi_base :: u32
  reg_answer :: "io list \<Rightarrow> u32 \<Rightarrow> u32"
  spi_answer :: "io list \<Rightarrow> u8 list"

section \<open>Shared state\<close>

record ScaleFactorType =
  ampspersec :: f32
  dac_dccts :: f32
  vout :: f32
  ignd :: f32
  spare :: f32
  regulator :: f32
  error :: f32

text \<open>
  \<open>bus\<close>: the operations performed; \<open>scalefactors\<close>: the array of main.c, one entry per channel;
  the two conversion factors set by \<open>mshsSelect\<close> of sdcard.c.
\<close>

record psc =
  bus :: "io list"
  scalefactors :: "ScaleFactorType list"
  CONVVOLTSTODACBITS :: f32
  CONVDACBITSTOVOLTS :: f32

section \<open>Bus operations\<close>

definition Xil_In32 :: "board \<Rightarrow> u32 \<Rightarrow> psc \<Rightarrow> u32 \<times> psc" where
  "Xil_In32 b a s = (reg_answer b (bus s) a, s\<lparr>bus := bus s @ [Rd a]\<rparr>)"

definition Xil_Out32 :: "u32 \<Rightarrow> u32 \<Rightarrow> psc \<Rightarrow> psc" where
  "Xil_Out32 a v s = s\<lparr>bus := bus s @ [Wr a v]\<rparr>"

definition XQspiPs_PolledTransfer :: "board \<Rightarrow> u8 list \<Rightarrow> nat \<Rightarrow> psc \<Rightarrow> u8 list \<times> psc" where
  "XQspiPs_PolledTransfer b bs n s =
     (let h = bus s @ [Spi bs n] in (spi_answer b h, s\<lparr>bus := h\<rparr>))"

text \<open>Addresses: a global register, and a register of a channel's block.\<close>

definition glob_reg :: "board \<Rightarrow> u32 \<Rightarrow> u32" where
  "glob_reg b r = axi_base b + r"

definition chan_reg :: "board \<Rightarrow> u32 \<Rightarrow> u32 \<Rightarrow> u32" where
  "chan_reg b chan r = axi_base b + r + chan * CHBASEADDR"

text \<open>\<open>scalefactors[chan-1]\<close>, with \<open>chan\<close> unsigned: 0 wraps and lies outside the array.\<close>

definition sf_at :: "u32 \<Rightarrow> psc \<Rightarrow> ScaleFactorType run" where
  "sf_at chan s =
     (if unat (chan - 1) < length (scalefactors s) then Ret (scalefactors s ! unat (chan - 1))
      else Undef Out_Of_Bounds)"

definition sf_update :: "u32 \<Rightarrow> (ScaleFactorType \<Rightarrow> ScaleFactorType) \<Rightarrow> psc \<Rightarrow> psc run" where
  "sf_update chan f s =
     (if unat (chan - 1) < length (scalefactors s)
      then Ret (s\<lparr>scalefactors := (scalefactors s)[unat (chan - 1) := f (scalefactors s ! unat (chan - 1))]\<rparr>)
      else Undef Out_Of_Bounds)"

text \<open>The constants of local.h: literals with a decimal point are doubles.\<close>

definition GAIN20BITFRACT :: f64 where "GAIN20BITFRACT = f64_lit 1048575 1"
definition CONVVOLTSTO16BITS :: f64 where "CONVVOLTSTO16BITS = f64_lit 32768 10"
definition CONV16BITSTOVOLTS :: f64 where "CONV16BITSTOVOLTS = f64_div (f64_lit 1 1) CONVVOLTSTO16BITS"
definition CONVVOLTSTO18BITS :: f64 where "CONVVOLTSTO18BITS = f64_lit 131072 10"
definition CONV18BITSTOVOLTS :: f64 where "CONV18BITSTOVOLTS = f64_div (f64_of_int 1) CONVVOLTSTO18BITS"
definition CONVVOLTSTO20BITS :: f64 where "CONVVOLTSTO20BITS = f64_lit 524288 10"
definition CONV20BITSTOVOLTS :: f64 where "CONV20BITSTOVOLTS = f64_div (f64_of_int 1) CONVVOLTSTO20BITS"
definition SAMPLERATE :: f64 where "SAMPLERATE = f64_lit 10000 1"

text \<open>\<open>mshsSelect\<close>: the resolution register and the conversion factors, set together.\<close>

definition mshsSelect :: "board \<Rightarrow> u32 \<Rightarrow> psc \<Rightarrow> psc" where
  "mshsSelect b psc_resolution s =
     (let s = Xil_Out32 (glob_reg b RESOLUTION_REG) psc_resolution s
      in if psc_resolution = 1
         then s\<lparr>CONVVOLTSTODACBITS := f32_of_f64 CONVVOLTSTO20BITS,
                CONVDACBITSTOVOLTS := f32_of_f64 CONV20BITSTOVOLTS\<rparr>
         else s\<lparr>CONVVOLTSTODACBITS := f32_of_f64 CONVVOLTSTO18BITS,
                CONVDACBITSTOVOLTS := f32_of_f64 CONV18BITSTOVOLTS\<rparr>)"

section \<open>Facts about the state\<close>

lemma Xil_Out32_sel [simp]:
  "bus (Xil_Out32 a v s) = bus s @ [Wr a v]"
  "scalefactors (Xil_Out32 a v s) = scalefactors s"
  "CONVVOLTSTODACBITS (Xil_Out32 a v s) = CONVVOLTSTODACBITS s"
  "CONVDACBITSTOVOLTS (Xil_Out32 a v s) = CONVDACBITSTOVOLTS s"
  by (simp_all add: Xil_Out32_def)

lemma Xil_In32_sel [simp]:
  "fst (Xil_In32 b a s) = reg_answer b (bus s) a"
  "bus (snd (Xil_In32 b a s)) = bus s @ [Rd a]"
  "scalefactors (snd (Xil_In32 b a s)) = scalefactors s"
  "CONVVOLTSTODACBITS (snd (Xil_In32 b a s)) = CONVVOLTSTODACBITS s"
  "CONVDACBITSTOVOLTS (snd (Xil_In32 b a s)) = CONVDACBITSTOVOLTS s"
  by (simp_all add: Xil_In32_def)

lemma sf_at_Ret: "sf_at chan s = Ret f \<longleftrightarrow>
    unat (chan - 1) < length (scalefactors s) \<and> f = scalefactors s ! unat (chan - 1)"
  by (auto simp: sf_at_def)

text \<open>The offset of a register inside a block fits the block, so blocks do not overlap.\<close>

definition chan_block :: "board \<Rightarrow> u32 \<Rightarrow> u32 set" where
  "chan_block b chan = {chan_reg b chan r | r. r < CHBASEADDR}"

lemma chan_reg_in_block [simp, intro]: "r < CHBASEADDR \<Longrightarrow> chan_reg b chan r \<in> chan_block b chan"
  by (auto simp: chan_block_def)

lemma block_offset_unique:
  "(r::nat) + c * 512 = q + d * 512 \<Longrightarrow> r < 512 \<Longrightarrow> q < 512 \<Longrightarrow> c = d \<and> r = q"
  by (cases c d rule: linorder_cases) auto

lemma chan_reg_eq_iff:
  assumes "c < 8" "d < 8" "r < CHBASEADDR" "q < CHBASEADDR"
  shows "chan_reg b c r = chan_reg b d q \<longleftrightarrow> c = d \<and> r = q"
proof
  have *: "unat (r + c * 0x200) = unat r + unat c * 512" if "c < 8" "r < 0x200" for c r :: u32
  proof -
    have "unat c < 8" "unat r < 512" using that by (simp_all add: word_less_nat_alt)
    then show ?thesis by (simp add: unat_word_ariths)
  qed
  assume "chan_reg b c r = chan_reg b d q"
  then have "r + c * 0x200 = q + d * 0x200" by (simp add: chan_reg_def add.assoc)
  then have "unat r + unat c * 512 = unat q + unat d * 512"
    using * [OF assms(1,3)] * [OF assms(2,4)] by simp
  moreover have "unat r < 512" "unat q < 512" using assms(3,4) by (simp_all add: word_less_nat_alt)
  ultimately have "unat c = unat d \<and> unat r = unat q" by (rule block_offset_unique)
  then show "c = d \<and> r = q" by (simp add: word_unat_eq_iff)
qed simp

lemma chan_block_disjoint:
  assumes "c < 8" "d < 8" "c \<noteq> d"
  shows "chan_block b c \<inter> chan_block b d = {}"
  using assms by (auto simp: chan_block_def chan_reg_eq_iff)

section \<open>What an operation may touch\<close>

named_theorems confined

text \<open>
  From \<open>s\<close> to \<open>s'\<close>: the bus has only gained operations, whose writes are to addresses in \<open>A\<close>; of
  the scale factors at most those of \<open>chan\<close> have changed.
\<close>

definition touches :: "u32 set \<Rightarrow> u32 \<Rightarrow> psc \<Rightarrow> psc \<Rightarrow> bool" where
  "touches A chan s s' \<longleftrightarrow>
     (\<exists>evs. bus s' = bus s @ evs \<and> (\<forall>a v. Wr a v \<in> set evs \<longrightarrow> a \<in> A)) \<and>
     length (scalefactors s') = length (scalefactors s) \<and>
     (\<forall>i. i \<noteq> unat (chan - 1) \<longrightarrow> scalefactors s' ! i = scalefactors s ! i) \<and>
     CONVVOLTSTODACBITS s' = CONVVOLTSTODACBITS s \<and> CONVDACBITSTOVOLTS s' = CONVDACBITSTOVOLTS s"

definition confined :: "u32 set \<Rightarrow> u32 \<Rightarrow> psc \<Rightarrow> psc run \<Rightarrow> bool" where
  "confined A chan s r \<longleftrightarrow> (\<forall>s'. r = Ret s' \<longrightarrow> touches A chan s s')"

lemma touches_refl [simp]: "touches A chan s s"
  by (simp add: touches_def)

lemma touches_trans: "touches A chan s t \<Longrightarrow> touches A chan t u \<Longrightarrow> touches A chan s u"
proof -
  assume 1: "touches A chan s t" and 2: "touches A chan t u"
  from 1 obtain e where e: "bus t = bus s @ e" "\<forall>a v. Wr a v \<in> set e \<longrightarrow> a \<in> A"
    by (auto simp: touches_def)
  from 2 obtain f where f: "bus u = bus t @ f" "\<forall>a v. Wr a v \<in> set f \<longrightarrow> a \<in> A"
    by (auto simp: touches_def)
  from e f have "bus u = bus s @ (e @ f)" "\<forall>a v. Wr a v \<in> set (e @ f) \<longrightarrow> a \<in> A" by auto
  with 1 2 show ?thesis unfolding touches_def by metis
qed

lemma touches_mono: "touches A chan s s' \<Longrightarrow> A \<subseteq> B \<Longrightarrow> touches B chan s s'"
  unfolding touches_def by blast

lemma touches_bus:
  "\<forall>a v. Wr a v \<in> set evs \<longrightarrow> a \<in> A \<Longrightarrow> touches A chan s (s\<lparr>bus := bus s @ evs\<rparr>)"
  by (auto simp: touches_def)

lemma touches_Xil_In32 [simp]: "touches A chan s (snd (Xil_In32 b a s))"
  by (simp add: Xil_In32_def touches_bus)

lemma touches_Xil_Out32 [intro]: "a \<in> A \<Longrightarrow> touches A chan s (Xil_Out32 a v s)"
  by (simp add: Xil_Out32_def touches_bus)

lemma touches_chan_reg [intro]: "r < CHBASEADDR \<Longrightarrow> touches (chan_block b chan) chan s (Xil_Out32 (chan_reg b chan r) v s)"
  by (rule touches_Xil_Out32) (rule chan_reg_in_block)

lemma touches_Spi [simp]: "touches A chan s (snd (XQspiPs_PolledTransfer b bs n s))"
  by (simp add: XQspiPs_PolledTransfer_def Let_def touches_bus)

lemma confined_Ret [simp]: "confined A chan s (Ret s') \<longleftrightarrow> touches A chan s s'"
  and confined_Undef [simp]: "confined A chan s (Undef u)"
  and confined_Hang [simp]: "confined A chan s Hang"
  by (simp_all add: confined_def)

lemma confined_bind_val: "(\<And>x. r = Ret x \<Longrightarrow> confined A chan s (f x)) \<Longrightarrow> confined A chan s (run_bind r f)"
  by (cases r) simp_all

text \<open>By type, so that the rule for a state is not confused with that for a value.\<close>

lemma confined_bind_vals [confined]:
  "(\<And>x. ra = Ret x \<Longrightarrow> confined A chan s (fa x)) \<Longrightarrow> confined A chan s (run_bind (ra :: 'w::len word run) fa)"
  "(\<And>x. rb = Ret x \<Longrightarrow> confined A chan s (fb x)) \<Longrightarrow> confined A chan s (run_bind (rb :: int run) fb)"
  "(\<And>x. rc = Ret x \<Longrightarrow> confined A chan s (fc x)) \<Longrightarrow> confined A chan s (run_bind (rc :: ScaleFactorType run) fc)"
  "(\<And>x. rd = Ret x \<Longrightarrow> confined A chan s (fd x)) \<Longrightarrow> confined A chan s (run_bind (rd :: unit run) fd)"
  by (rule confined_bind_val; blast)+

lemma confined_bind [confined]: "confined A chan s r \<Longrightarrow> (\<And>t. touches A chan s t \<Longrightarrow> confined A chan t (f t)) \<Longrightarrow>
    confined A chan s (run_bind r f)"
  using touches_trans by (cases r) (auto simp: confined_def)

lemma confined_bind_pair:
  assumes "\<And>x t. r = Ret (x, t) \<Longrightarrow> touches A chan s t"
    and "\<And>x t. touches A chan s t \<Longrightarrow> confined A chan t (f x t)"
  shows "confined A chan s (run_bind r (\<lambda>(x, t). f x t))"
  using assms touches_trans by (cases r) (fastforce simp: confined_def)+

lemma confined_read: "(\<And>x t. touches A chan s t \<Longrightarrow> confined A chan t (f x t)) \<Longrightarrow>
    confined A chan s (let (x, t) = Xil_In32 b a s in f x t)"
proof -
  assume f: "\<And>x t. touches A chan s t \<Longrightarrow> confined A chan t (f x t)"
  obtain x t where t: "Xil_In32 b a s = (x, t)" by (cases "Xil_In32 b a s")
  then have "touches A chan s t" using touches_Xil_In32 [of A chan s b a] by simp
  from this f [OF this, of x] t show ?thesis using touches_trans by (auto simp: confined_def)
qed

lemma confined_fold:
  "(\<And>x s. x \<in> set xs \<Longrightarrow> confined A chan s (f x s)) \<Longrightarrow> confined A chan s (run_fold f xs s)"
proof (induction xs arbitrary: s)
  case (Cons x xs)
  show ?case unfolding run_fold.simps
    by (rule confined_bind) (use Cons in \<open>auto intro: Cons.IH\<close>)
qed simp

lemma confined_sf_update [confined]: "confined A chan s (sf_update chan f s)"
  by (auto simp: sf_update_def touches_def)

lemma touches_fold: "(\<And>x s. touches A chan s (f x s)) \<Longrightarrow> touches A chan s (fold f xs s)"
  by (induction xs arbitrary: s) (auto intro: touches_trans)

end
