(* ===== verification/Qspi_Flash.thy ===== *)
theory Qspi_Flash
  imports Psc_State
begin

text \<open>
  qspi_flash.c: the settings of each channel in one page of the SPI flash: erase, write, read,
  gathering the registers of a channel into the structure \<open>QspiData\<close> and dispersing it to them.

  The chip and the driver are parameters of the board (\<open>spi_answer\<close>). What the code relies on
  is \<open>flash_ok\<close>, the documented behaviour of a serial NOR flash. The prints of \<open>QspiPrintData\<close>
  have no effect on the state except that they read \<open>scalefactors\<close>, checked here with the
  other accesses to it.
\<close>

section \<open>Commands\<close>

abbreviation (input) FLASH_WRITE_CMD :: u8 where "FLASH_WRITE_CMD \<equiv> 0x02"
abbreviation (input) FLASH_READ_CMD :: u8 where "FLASH_READ_CMD \<equiv> 0x03"
abbreviation (input) FLASH_SECTOR_ERASE_CMD :: u8 where "FLASH_SECTOR_ERASE_CMD \<equiv> 0xD8"
abbreviation (input) FLASH_SECTOR_ERASE_SIZE :: nat where "FLASH_SECTOR_ERASE_SIZE \<equiv> 4"
abbreviation (input) FLASH_WRITE_ENABLE_CMD :: u8 where "FLASH_WRITE_ENABLE_CMD \<equiv> 0x06"
abbreviation (input) FLASH_READ_STATUS_CMD :: u8 where "FLASH_READ_STATUS_CMD \<equiv> 0x05"
abbreviation (input) FLASH_SECTOR_SIZE :: u32 where "FLASH_SECTOR_SIZE \<equiv> 0x10000"
abbreviation (input) FLASH_PAGE_SIZE :: nat where "FLASH_PAGE_SIZE \<equiv> 256"

text \<open>A command byte and a 24-bit address, most significant byte first.\<close>

definition flash_cmd :: "u8 \<Rightarrow> u32 \<Rightarrow> u8 list" where
  "flash_cmd c Address =
     [c, ucast (drop_bit 16 (Address AND 0xFF0000)), ucast (drop_bit 8 (Address AND 0xFF00)),
      ucast (Address AND 0xFF)]"

definition QspiFlashRead :: "board \<Rightarrow> u32 \<Rightarrow> nat \<Rightarrow> u8 list \<Rightarrow> psc \<Rightarrow> u8 list \<times> psc" where
  "QspiFlashRead b Address ByteCount ReadBuf s =
     (case XQspiPs_PolledTransfer b (flash_cmd FLASH_READ_CMD Address) ByteCount s of
        (answer, s) \<Rightarrow> (store answer ReadBuf, s))"

text \<open>
  The loop that waits for the chip: \<open>None\<close> when the busy bit never clears.
\<close>

partial_function (option) wait_ready :: "board \<Rightarrow> psc \<Rightarrow> psc option" where
  "wait_ready b s =
     (case XQspiPs_PolledTransfer b [FLASH_READ_STATUS_CMD, 0] 2 s of
        (FlashStatus, s) \<Rightarrow> if FlashStatus ! 1 AND 0x01 = 0 then Some s else wait_ready b s)"

text \<open>The command and address overwrite the first four bytes of the caller's buffer.\<close>

definition QspiFlashWrite :: "board \<Rightarrow> u32 \<Rightarrow> nat \<Rightarrow> u8 list \<Rightarrow> psc \<Rightarrow> (u8 list \<times> psc) run" where
  "QspiFlashWrite b Address ByteCount WriteBuf s =
     (let (_, s) = XQspiPs_PolledTransfer b [FLASH_WRITE_ENABLE_CMD] 1 s;
          WriteBuf = store (flash_cmd FLASH_WRITE_CMD Address) WriteBuf;
          (_, s) = XQspiPs_PolledTransfer b (take ByteCount WriteBuf) ByteCount s
      in run_bind (or_hang (wait_ready b s)) (\<lambda>s. Ret (WriteBuf, s)))"

definition QspiFlashEraseSect :: "board \<Rightarrow> u32 \<Rightarrow> psc \<Rightarrow> psc run" where
  "QspiFlashEraseSect b sector s =
     (let Address = sector * FLASH_SECTOR_SIZE;
          (_, s) = XQspiPs_PolledTransfer b [FLASH_WRITE_ENABLE_CMD] 1 s;
          (_, s) = XQspiPs_PolledTransfer b (flash_cmd FLASH_SECTOR_ERASE_CMD Address)
                     FLASH_SECTOR_ERASE_SIZE s
      in or_hang (wait_ready b s))"

section \<open>The stored structure\<close>

record QspiData =
  header :: u32
  dac_setpt_offset :: s32
  dac_setpt_gain :: s32
  dcct1_offset :: u32
  dcct1_gain :: u32
  dcct2_offset :: u32
  dcct2_gain :: u32
  dacmon_offset :: s32
  dacmon_gain :: s32
  volt_offset :: s32
  volt_gain :: s32
  gnd_offset :: s32
  gnd_gain :: s32
  spare_offset :: s32
  spare_gain :: s32
  reg_offset :: s32
  reg_gain :: s32
  error_offset :: s32
  error_gain :: s32
  ovc1_thresh :: u32
  ovc2_thresh :: u32
  ovv_thresh :: u32
  err1_thresh :: u32
  err2_thresh :: u32
  ignd_thresh :: u32
  ovc1_cntlim :: u32
  ovc2_cntlim :: u32
  ovv_cntlim :: u32
  err1_cntlim :: u32
  err2_cntlim :: u32
  ignd_cntlim :: u32
  dcct_cntlim :: u32
  flt1_cntlim :: u32
  flt2_cntlim :: u32
  flt3_cntlim :: u32
  on_cntlim :: u32
  heartbeat_cntlim :: u32
  fault_mask :: u32
  sf_ampspersec :: f32
  sf_dac_dccts :: f32
  sf_vout :: f32
  sf_ignd :: f32
  sf_spare :: f32
  sf_regulator :: f32
  sf_error :: f32

text \<open>
  The structure in memory: 45 words without padding. The floats are kept as their bits, so
  every field is a word.
\<close>

definition qspi_words :: "QspiData \<Rightarrow> u32 list" where
  "qspi_words q =
     [header q, dac_setpt_offset q, dac_setpt_gain q, dcct1_offset q, dcct1_gain q, 
      dcct2_offset q, dcct2_gain q, dacmon_offset q, dacmon_gain q, volt_offset q, 
      volt_gain q, gnd_offset q, gnd_gain q, spare_offset q, spare_gain q, reg_offset q, 
      reg_gain q, error_offset q, error_gain q, ovc1_thresh q, ovc2_thresh q, ovv_thresh q, 
      err1_thresh q, err2_thresh q, ignd_thresh q, ovc1_cntlim q, ovc2_cntlim q, 
      ovv_cntlim q, err1_cntlim q, err2_cntlim q, ignd_cntlim q, dcct_cntlim q, 
      flt1_cntlim q, flt2_cntlim q, flt3_cntlim q, on_cntlim q, heartbeat_cntlim q, 
      fault_mask q, sf_ampspersec q, sf_dac_dccts q, sf_vout q, sf_ignd q, sf_spare q, 
      sf_regulator q, sf_error q]"

definition qspi_of_words :: "u32 list \<Rightarrow> QspiData" where
  "qspi_of_words ws = \<lparr>
     header = ws ! 0, dac_setpt_offset = ws ! 1, dac_setpt_gain = ws ! 2, 
     dcct1_offset = ws ! 3, dcct1_gain = ws ! 4, dcct2_offset = ws ! 5, dcct2_gain = ws ! 6, 
     dacmon_offset = ws ! 7, dacmon_gain = ws ! 8, volt_offset = ws ! 9, 
     volt_gain = ws ! 10, gnd_offset = ws ! 11, gnd_gain = ws ! 12, spare_offset = ws ! 13, 
     spare_gain = ws ! 14, reg_offset = ws ! 15, reg_gain = ws ! 16, error_offset = ws ! 17, 
     error_gain = ws ! 18, ovc1_thresh = ws ! 19, ovc2_thresh = ws ! 20, 
     ovv_thresh = ws ! 21, err1_thresh = ws ! 22, err2_thresh = ws ! 23, 
     ignd_thresh = ws ! 24, ovc1_cntlim = ws ! 25, ovc2_cntlim = ws ! 26, 
     ovv_cntlim = ws ! 27, err1_cntlim = ws ! 28, err2_cntlim = ws ! 29, 
     ignd_cntlim = ws ! 30, dcct_cntlim = ws ! 31, flt1_cntlim = ws ! 32, 
     flt2_cntlim = ws ! 33, flt3_cntlim = ws ! 34, on_cntlim = ws ! 35, 
     heartbeat_cntlim = ws ! 36, fault_mask = ws ! 37, sf_ampspersec = ws ! 38, 
     sf_dac_dccts = ws ! 39, sf_vout = ws ! 40, sf_ignd = ws ! 41, sf_spare = ws ! 42, 
     sf_regulator = ws ! 43, sf_error = ws ! 44\<rparr>"

definition qspi_bytes :: "QspiData \<Rightarrow> u8 list" where
  "qspi_bytes q = mem_words (qspi_words q)"

definition of_qspi_bytes :: "u8 list \<Rightarrow> QspiData" where
  "of_qspi_bytes bs = qspi_of_words (words_of 45 bs)"

section \<open>Gather and disperse\<close>

text \<open>
  \<open>header\<close> is a local variable that is never assigned: its value is the parameter \<open>header0\<close>.
  The scale factors are read, and used by the prints, with \<open>scalefactors[chan-1]\<close>.
\<close>

definition QspiGatherData :: "board \<Rightarrow> u32 \<Rightarrow> u32 \<Rightarrow> u8 list \<Rightarrow> psc \<Rightarrow> (u8 list \<times> psc) run" where
  "QspiGatherData b header0 chan writebuf s =
     (let
        (dac_setpt_offset', s) = Xil_In32 b (chan_reg b chan DAC_SETPT_OFFSET_REG) s;
        (dac_setpt_gain', s) = Xil_In32 b (chan_reg b chan DAC_SETPT_GAIN_REG) s;
        (dcct1_offset', s) = Xil_In32 b (chan_reg b chan DCCT1_OFFSET_REG) s;
        (dcct1_gain', s) = Xil_In32 b (chan_reg b chan DCCT1_GAIN_REG) s;
        (dcct2_offset', s) = Xil_In32 b (chan_reg b chan DCCT2_OFFSET_REG) s;
        (dcct2_gain', s) = Xil_In32 b (chan_reg b chan DCCT2_GAIN_REG) s;
        (dacmon_offset', s) = Xil_In32 b (chan_reg b chan DACMON_OFFSET_REG) s;
        (dacmon_gain', s) = Xil_In32 b (chan_reg b chan DACMON_GAIN_REG) s;
        (volt_offset', s) = Xil_In32 b (chan_reg b chan VOLT_OFFSET_REG) s;
        (volt_gain', s) = Xil_In32 b (chan_reg b chan VOLT_GAIN_REG) s;
        (gnd_offset', s) = Xil_In32 b (chan_reg b chan GND_OFFSET_REG) s;
        (gnd_gain', s) = Xil_In32 b (chan_reg b chan GND_GAIN_REG) s;
        (spare_offset', s) = Xil_In32 b (chan_reg b chan SPARE_OFFSET_REG) s;
        (spare_gain', s) = Xil_In32 b (chan_reg b chan SPARE_GAIN_REG) s;
        (reg_offset', s) = Xil_In32 b (chan_reg b chan REG_OFFSET_REG) s;
        (reg_gain', s) = Xil_In32 b (chan_reg b chan REG_GAIN_REG) s;
        (error_offset', s) = Xil_In32 b (chan_reg b chan ERR_OFFSET_REG) s;
        (error_gain', s) = Xil_In32 b (chan_reg b chan ERR_GAIN_REG) s;
        (ovc1_thresh', s) = Xil_In32 b (chan_reg b chan OVC1_THRESH_REG) s;
        (ovc2_thresh', s) = Xil_In32 b (chan_reg b chan OVC2_THRESH_REG) s;
        (ovv_thresh', s) = Xil_In32 b (chan_reg b chan OVV_THRESH_REG) s;
        (err1_thresh', s) = Xil_In32 b (chan_reg b chan ERR1_THRESH_REG) s;
        (err2_thresh', s) = Xil_In32 b (chan_reg b chan ERR2_THRESH_REG) s;
        (ignd_thresh', s) = Xil_In32 b (chan_reg b chan IGND_THRESH_REG) s;
        (ovc1_cntlim', s) = Xil_In32 b (chan_reg b chan OVC1_CNTLIM_REG) s;
        (ovc2_cntlim', s) = Xil_In32 b (chan_reg b chan OVC2_CNTLIM_REG) s;
        (ovv_cntlim', s) = Xil_In32 b (chan_reg b chan OVV_CNTLIM_REG) s;
        (err1_cntlim', s) = Xil_In32 b (chan_reg b chan ERR1_CNTLIM_REG) s;
        (err2_cntlim', s) = Xil_In32 b (chan_reg b chan ERR2_CNTLIM_REG) s;
        (ignd_cntlim', s) = Xil_In32 b (chan_reg b chan IGND_CNTLIM_REG) s;
        (dcct_cntlim', s) = Xil_In32 b (chan_reg b chan DCCT_CNTLIM_REG) s;
        (flt1_cntlim', s) = Xil_In32 b (chan_reg b chan FLT1_CNTLIM_REG) s;
        (flt2_cntlim', s) = Xil_In32 b (chan_reg b chan FLT2_CNTLIM_REG) s;
        (flt3_cntlim', s) = Xil_In32 b (chan_reg b chan FLT3_CNTLIM_REG) s;
        (on_cntlim', s) = Xil_In32 b (chan_reg b chan ON_CNTLIM_REG) s;
        (heartbeat_cntlim', s) = Xil_In32 b (chan_reg b chan HEARTBEAT_CNTLIM_REG) s;
        (fault_mask', s) = Xil_In32 b (chan_reg b chan FAULT_MASK_REG) s
      in run_bind (sf_at chan s) (\<lambda>sf.
         let qspidata = \<lparr>
           header = header0, dac_setpt_offset = dac_setpt_offset', 
           dac_setpt_gain = dac_setpt_gain', dcct1_offset = dcct1_offset', 
           dcct1_gain = dcct1_gain', dcct2_offset = dcct2_offset', dcct2_gain = dcct2_gain', 
           dacmon_offset = dacmon_offset', dacmon_gain = dacmon_gain', volt_offset = volt_offset', 
           volt_gain = volt_gain', gnd_offset = gnd_offset', gnd_gain = gnd_gain', 
           spare_offset = spare_offset', spare_gain = spare_gain', reg_offset = reg_offset', 
           reg_gain = reg_gain', error_offset = error_offset', error_gain = error_gain', 
           ovc1_thresh = ovc1_thresh', ovc2_thresh = ovc2_thresh', ovv_thresh = ovv_thresh', 
           err1_thresh = err1_thresh', err2_thresh = err2_thresh', ignd_thresh = ignd_thresh', 
           ovc1_cntlim = ovc1_cntlim', ovc2_cntlim = ovc2_cntlim', ovv_cntlim = ovv_cntlim', 
           err1_cntlim = err1_cntlim', err2_cntlim = err2_cntlim', ignd_cntlim = ignd_cntlim', 
           dcct_cntlim = dcct_cntlim', flt1_cntlim = flt1_cntlim', flt2_cntlim = flt2_cntlim', 
           flt3_cntlim = flt3_cntlim', on_cntlim = on_cntlim', 
           heartbeat_cntlim = heartbeat_cntlim', fault_mask = fault_mask', 
           sf_ampspersec = ampspersec sf, sf_dac_dccts = dac_dccts sf, sf_vout = vout sf, 
           sf_ignd = ignd sf, sf_spare = spare sf, sf_regulator = regulator sf, 
           sf_error = error sf\<rparr>
         in Ret (store (qspi_bytes qspidata) writebuf, s)))"

text \<open>What \<open>QspiDisperseData\<close> writes, in the order it writes it.\<close>

definition qspi_writes :: "QspiData \<Rightarrow> (u32 \<times> u32) list" where
  "qspi_writes q = [
        (DAC_SETPT_OFFSET_REG, dac_setpt_offset q),
        (DAC_SETPT_GAIN_REG, dac_setpt_gain q),
        (DCCT1_OFFSET_REG, dcct1_offset q),
        (DCCT1_GAIN_REG, dcct1_gain q),
        (DCCT2_OFFSET_REG, dcct2_offset q),
        (DCCT2_GAIN_REG, dcct2_gain q),
        (DACMON_OFFSET_REG, dacmon_offset q),
        (DACMON_GAIN_REG, dacmon_gain q),
        (VOLT_OFFSET_REG, volt_offset q),
        (VOLT_GAIN_REG, volt_gain q),
        (GND_OFFSET_REG, gnd_offset q),
        (GND_GAIN_REG, gnd_gain q),
        (SPARE_OFFSET_REG, spare_offset q),
        (SPARE_GAIN_REG, spare_gain q),
        (REG_OFFSET_REG, reg_offset q),
        (REG_GAIN_REG, reg_gain q),
        (ERR_OFFSET_REG, error_offset q),
        (ERR_GAIN_REG, error_gain q),
        (OVC1_THRESH_REG, ovc1_thresh q),
        (OVC2_THRESH_REG, ovc2_thresh q),
        (OVV_THRESH_REG, ovv_thresh q),
        (ERR1_THRESH_REG, err1_thresh q),
        (ERR2_THRESH_REG, err2_thresh q),
        (IGND_THRESH_REG, ignd_thresh q),
        (OVC1_CNTLIM_REG, ovc1_cntlim q),
        (OVC2_CNTLIM_REG, ovc2_cntlim q),
        (OVV_CNTLIM_REG, ovv_cntlim q),
        (ERR1_CNTLIM_REG, err1_cntlim q),
        (ERR2_CNTLIM_REG, err2_cntlim q),
        (IGND_CNTLIM_REG, ignd_cntlim q),
        (DCCT_CNTLIM_REG, dcct_cntlim q),
        (FLT1_CNTLIM_REG, flt1_cntlim q),
        (FLT2_CNTLIM_REG, flt2_cntlim q),
        (FLT3_CNTLIM_REG, flt3_cntlim q),
        (ON_CNTLIM_REG, on_cntlim q),
        (HEARTBEAT_CNTLIM_REG, heartbeat_cntlim q),
        (FAULT_MASK_REG, fault_mask q)]"

definition sf_of_qspi :: "QspiData \<Rightarrow> ScaleFactorType" where
  "sf_of_qspi q = \<lparr>ampspersec = sf_ampspersec q, dac_dccts = sf_dac_dccts q, vout = sf_vout q,
     ignd = sf_ignd q, spare = sf_spare q, regulator = sf_regulator q, error = sf_error q\<rparr>"

definition QspiDisperseData :: "board \<Rightarrow> u32 \<Rightarrow> u8 list \<Rightarrow> psc \<Rightarrow> psc run" where
  "QspiDisperseData b chan readbuf s =
     (let qspidata = of_qspi_bytes (take 180 readbuf);
          s = fold (\<lambda>(r, v). Xil_Out32 (chan_reg b chan r) v) (qspi_writes qspidata) s
      in sf_update chan (\<lambda>_. sf_of_qspi qspidata) s)"

section \<open>Saving and loading a channel\<close>

text \<open>
  The calls control.c makes for a write message (before it reads the page back) and, as does
  main.c at start-up, for a read: \<open>qspibuf\<close> is the caller's page buffer.
\<close>

definition save_settings :: "board \<Rightarrow> u32 \<Rightarrow> u32 \<Rightarrow> u8 list \<Rightarrow> psc \<Rightarrow> (u8 list \<times> psc) run" where
  "save_settings b header0 chan qspibuf s =
     run_bind (QspiFlashEraseSect b chan s) (\<lambda>s.
     run_bind (QspiGatherData b header0 chan qspibuf s) (\<lambda>(qspibuf, s).
       QspiFlashWrite b (chan * FLASH_SECTOR_SIZE) FLASH_PAGE_SIZE qspibuf s))"

definition load_settings :: "board \<Rightarrow> u32 \<Rightarrow> u8 list \<Rightarrow> psc \<Rightarrow> psc run" where
  "load_settings b chan qspibuf s =
     (let (qspibuf, s) = QspiFlashRead b (chan * FLASH_SECTOR_SIZE) FLASH_PAGE_SIZE qspibuf s
      in QspiDisperseData b chan qspibuf s)"

section \<open>The structure is a codec\<close>

lemma length_qspi_words [simp]: "length (qspi_words q) = 45"
  by (simp add: qspi_words_def)

lemma qspi_of_words_words [simp]: "qspi_of_words (qspi_words q) = q"
  by (simp add: qspi_words_def qspi_of_words_def)

lemma qspi_words_of_words:
  assumes "length ws = 45" shows "qspi_words (qspi_of_words ws) = ws"
proof -
  have "qspi_words (qspi_of_words ws) = map ((!) ws) [0..<45]"
    by (simp add: qspi_words_def qspi_of_words_def upt_conv_Cons numeral_eq_Suc)
  then show ?thesis using map_nth [of ws] assms by simp
qed

interpretation qspi: codec qspi_bytes of_qspi_bytes 180
  by unfold_locales
    (simp_all add: qspi_bytes_def of_qspi_bytes_def words_of_mem_words qspi_words_of_words mem_words_words_of)

section \<open>The registers of a channel\<close>

definition qspi_regs :: "u32 list" where
  "qspi_regs = map fst (qspi_writes (qspi_of_words (replicate 45 0)))"

lemma fst_qspi_writes: "map fst (qspi_writes q) = qspi_regs"
  by (simp add: qspi_regs_def qspi_writes_def)

lemma snd_qspi_writes: "map snd (qspi_writes q) = take 37 (drop 1 (qspi_words q))"
  by (simp add: qspi_writes_def qspi_words_def)

lemma distinct_qspi_regs: "distinct qspi_regs"
  by (simp add: qspi_regs_def qspi_writes_def)

lemma qspi_regs_in_block: "r \<in> set qspi_regs \<Longrightarrow> r < CHBASEADDR"
  by (auto simp: qspi_regs_def qspi_writes_def)

definition chan_wr :: "board \<Rightarrow> u32 \<Rightarrow> u32 \<times> u32 \<Rightarrow> io" where
  "chan_wr b chan rv = Wr (chan_reg b chan (fst rv)) (snd rv)"

lemma fold_Xil_Out32:
  "fold (\<lambda>(r, v). Xil_Out32 (chan_reg b chan r) v) rvs s = s\<lparr>bus := bus s @ map (chan_wr b chan) rvs\<rparr>"
  by (induction rvs arbitrary: s) (auto simp: Xil_Out32_def chan_wr_def)

fun read_regs :: "board \<Rightarrow> u32 \<Rightarrow> u32 list \<Rightarrow> psc \<Rightarrow> u32 list \<times> psc" where
  "read_regs b chan [] s = ([], s)"
| "read_regs b chan (r # rs) s =
     (let (v, s) = Xil_In32 b (chan_reg b chan r) s; (vs, s) = read_regs b chan rs s in (v # vs, s))"

lemma read_regs_state:
  "snd (read_regs b chan rs s) = s\<lparr>bus := bus s @ map (\<lambda>r. Rd (chan_reg b chan r)) rs\<rparr>"
proof (induction rs arbitrary: s)
  case (Cons r rs)
  show ?case using Cons [of "snd (Xil_In32 b (chan_reg b chan r) s)"]
    by (simp add: Xil_In32_def Let_def case_prod_unfold)
qed simp

lemma length_read_regs: "length (fst (read_regs b chan rs s)) = length rs"
proof (induction rs arbitrary: s)
  case (Cons r rs)
  show ?case using Cons [of "snd (Xil_In32 b (chan_reg b chan r) s)"]
    by (simp add: Xil_In32_def Let_def case_prod_unfold)
qed simp

definition sf_words :: "ScaleFactorType \<Rightarrow> u32 list" where
  "sf_words sf = [ampspersec sf, dac_dccts sf, vout sf, ignd sf, spare sf, regulator sf, error sf]"

lemma sf_of_qspi_words: "sf_words (sf_of_qspi q) = drop 38 (qspi_words q)"
  by (simp add: sf_words_def sf_of_qspi_def qspi_words_def)

text \<open>Gathering is reading the registers in the order of the structure.\<close>

lemma QspiGatherData_reads:
  "QspiGatherData b header0 chan writebuf s =
     (let (vs, s) = read_regs b chan qspi_regs s
      in run_bind (sf_at chan s) (\<lambda>sf.
           Ret (store (mem_words (header0 # vs @ sf_words sf)) writebuf, s)))"
  by (simp add: QspiGatherData_def qspi_regs_def qspi_writes_def qspi_bytes_def qspi_words_def
      sf_words_def Let_def split: prod.split)

text \<open>
  Registers that hold the values written to them: after \<open>v\<close> a read gives \<open>v\<close>. Most registers of the
  gateware are narrower than 32 bits, so this is asked of the values at hand only; those of a saved page
  were read from the same registers.
\<close>

definition regs_hold :: "board \<Rightarrow> u32 \<Rightarrow> (u32 \<times> u32) list \<Rightarrow> bool" where
  "regs_hold b chan rvs \<longleftrightarrow> (\<forall>(r, v) \<in> set rvs. \<forall>h h'.
     (\<forall>w. Wr (chan_reg b chan r) w \<notin> set h') \<longrightarrow>
     reg_answer b (h @ Wr (chan_reg b chan r) v # h') (chan_reg b chan r) = v)"

lemma regs_hold_writes:
  assumes hold: "regs_hold b chan rvs" and chan: "chan < 8"
    and dist: "distinct (map fst rvs)" and block: "\<forall>r \<in> fst ` set rvs. r < CHBASEADDR"
    and rv: "(r, v) \<in> set rvs" and h': "\<forall>a w. Wr a w \<notin> set h'"
  shows "reg_answer b (h @ map (chan_wr b chan) rvs @ h') (chan_reg b chan r) = v"
proof -
  from rv obtain xs ys where rvs: "rvs = xs @ (r, v) # ys" by (meson split_list)
  have r: "r < CHBASEADDR" "r \<in> set (map fst rvs)" using block rv by (force simp: rvs)+
  have "Wr (chan_reg b chan r) w \<notin> set (map (chan_wr b chan) ys @ h')" for w
  proof
    assume "Wr (chan_reg b chan r) w \<in> set (map (chan_wr b chan) ys @ h')"
    then obtain q where q: "q \<in> fst ` set ys" "chan_reg b chan r = chan_reg b chan q"
      using h' by (auto simp: chan_wr_def)
    moreover have "q < CHBASEADDR" using q(1) block by (auto simp: rvs)
    ultimately have "q = r" using chan_reg_eq_iff [OF chan chan r(1), of q b] by simp
    with q(1) dist show False by (auto simp: rvs)
  qed
  with hold rv have "reg_answer b ((h @ map (chan_wr b chan) xs) @ Wr (chan_reg b chan r) v
      # (map (chan_wr b chan) ys @ h')) (chan_reg b chan r) = v"
    unfolding regs_hold_def by blast
  then show ?thesis by (simp add: rvs chan_wr_def)
qed

lemma read_regs_hold:
  assumes "regs_hold b chan rvs" "chan < 8"
    and "distinct (map fst rvs)" "\<forall>r \<in> fst ` set rvs. r < CHBASEADDR"
  shows "set qs \<subseteq> set rvs \<Longrightarrow> bus s = h @ map (chan_wr b chan) rvs @ h' \<Longrightarrow> \<forall>a w. Wr a w \<notin> set h' \<Longrightarrow>
    fst (read_regs b chan (map fst qs) s) = map snd qs"
proof (induction qs arbitrary: s h')
  case (Cons q qs)
  have "reg_answer b (bus s) (chan_reg b chan (fst q)) = snd q"
    using regs_hold_writes [OF assms, of "fst q" "snd q" h' h] Cons.prems by simp
  moreover have "fst (read_regs b chan (map fst qs) (snd (Xil_In32 b (chan_reg b chan (fst q)) s))) = map snd qs"
    by (rule Cons.IH [of _ "h' @ [Rd (chan_reg b chan (fst q))]"]) (use Cons.prems in auto)
  ultimately show ?case by (simp add: Let_def case_prod_unfold)
qed simp

lemma disperse_state:
  "QspiDisperseData b chan readbuf s =
    (let q = of_qspi_bytes (take 180 readbuf) in
     sf_update chan (\<lambda>_. sf_of_qspi q) (s\<lparr>bus := bus s @ map (chan_wr b chan) (qspi_writes q)\<rparr>))"
  by (simp add: QspiDisperseData_def fold_Xil_Out32 Let_def)

section \<open>The chip\<close>

text \<open>
  The documented behaviour of the flash, as far as the code relies on it. \<open>mem h\<close> is its
  contents after the operations \<open>h\<close>: an erase after a write enable sets a sector to ones, a
  page program after a write enable clears bits of at most a page (addresses are 24 bits wide), a read returns four bytes
  of no meaning and then the contents, nothing else changes them, and the busy bit clears.
\<close>

definition enabled :: "u8 list \<Rightarrow> nat \<Rightarrow> io list" where
  "enabled bs n = [Spi [FLASH_WRITE_ENABLE_CMD] 1, Spi bs n]"

abbreviation (input) poll :: io where "poll \<equiv> Spi [FLASH_READ_STATUS_CMD, 0] 2"

definition flash_ok :: "board \<Rightarrow> (io list \<Rightarrow> nat \<Rightarrow> u8) \<Rightarrow> bool" where
  "flash_ok b mem \<longleftrightarrow>
     (\<forall>h bs n. length (spi_answer b (h @ [Spi bs n])) = n) \<and>
     (\<forall>h a v. mem (h @ [Rd a]) = mem h \<and> mem (h @ [Wr a v]) = mem h) \<and>
     (\<forall>h. mem (h @ [poll]) = mem h) \<and>
     (\<forall>h. \<exists>k. spi_answer b (h @ replicate (Suc k) poll) ! 1 AND 0x01 = 0) \<and>
     (\<forall>h A n. A < 0x1000000 \<longrightarrow> mem (h @ [Spi (flash_cmd FLASH_READ_CMD A) n]) = mem h \<and>
        (\<forall>i < n - 4. spi_answer b (h @ [Spi (flash_cmd FLASH_READ_CMD A) n]) ! (4 + i) = mem h (unat A + i))) \<and>
     (\<forall>h A. A < 0x1000000 \<longrightarrow> mem (h @ enabled (flash_cmd FLASH_SECTOR_ERASE_CMD A) 4) =
        (\<lambda>a. if a div 0x10000 = unat A div 0x10000 then 0xFF else mem h a)) \<and>
     (\<forall>h A d. A < 0x1000000 \<longrightarrow> unat A mod 256 = 0 \<longrightarrow> length d \<le> 256 \<longrightarrow>
        mem (h @ enabled (flash_cmd FLASH_WRITE_CMD A @ d) (4 + length d)) =
        (\<lambda>a. if unat A \<le> a \<and> a < unat A + length d then mem h a AND d ! (a - unat A) else mem h a))"

lemma funpow_bus: "((\<lambda>s. s\<lparr>bus := bus s @ [e]\<rparr>) ^^ n) s = s\<lparr>bus := bus s @ replicate n e\<rparr>"
  by (induction n) (simp_all add: replicate_append_same)

interpretation ready: polling "wait_ready b" "\<lambda>s. s\<lparr>bus := bus s @ [poll]\<rparr>" "\<lambda>s. spi_answer b (bus s) ! 1 AND 0x01 = 0" for b
proof unfold_locales
  let ?p = "\<lambda>s. s\<lparr>bus := bus s @ [poll]\<rparr>"
  have unf: "(case XQspiPs_PolledTransfer b [FLASH_READ_STATUS_CMD, 0] 2 s of
      (FlashStatus, s) \<Rightarrow> if FlashStatus ! 1 AND 0x01 = 0 then Some s else wr b s) =
    (if spi_answer b (bus (?p s)) ! 1 AND 0x01 = 0 then Some (?p s) else wr b (?p s))" for wr b s
    by (simp add: XQspiPs_PolledTransfer_def Let_def)
  show "wait_ready b s = (if spi_answer b (bus (?p s)) ! 1 AND 0x01 = 0 then Some (?p s) else wait_ready b (?p s))" for s
    unfolding unf [symmetric] by (rule wait_ready.simps)
  show "\<exists>k. t = (?p ^^ Suc k) s \<and> spi_answer b (bus t) ! 1 AND 0x01 = 0" if "wait_ready b s = Some t" for s t
  proof (rule wait_ready.raw_induct [of "\<lambda>b s t. \<exists>k. t = (?p ^^ Suc k) s \<and> spi_answer b (bus t) ! 1 AND 0x01 = 0", OF _ that])
    fix wr :: "board \<Rightarrow> psc \<Rightarrow> psc option" and b s t
    assume IH: "\<And>b s y. wr b s = Some y \<Longrightarrow> \<exists>k. y = (?p ^^ Suc k) s \<and> spi_answer b (bus y) ! 1 AND 0x01 = 0"
      and "(case XQspiPs_PolledTransfer b [FLASH_READ_STATUS_CMD, 0] 2 s of
        (FlashStatus, s) \<Rightarrow> if FlashStatus ! 1 AND 0x01 = 0 then Some s else wr b s) = Some t"
    then have "t = ?p s \<and> spi_answer b (bus t) ! 1 AND 0x01 = 0 \<or> wr b (?p s) = Some t"
      unfolding unf by (auto split: if_splits)
    then show "\<exists>k. t = (?p ^^ Suc k) s \<and> spi_answer b (bus t) ! 1 AND 0x01 = 0"
      using IH [of b "?p s" t] by (intro poll_once) blast
  qed
qed

lemmas wait_ready_polls = ready.polls [unfolded funpow_bus]

lemma wait_ready_iff:
  "(\<exists>s'. wait_ready b s = Some s') \<longleftrightarrow> (\<exists>k. spi_answer b (bus s @ replicate (Suc k) poll) ! 1 AND 0x01 = 0)"
  using ready.returns_iff [of b s] by (simp add: funpow_bus del: funpow.simps)

lemma flash_ok_len: "flash_ok b mem \<Longrightarrow> length (spi_answer b (h @ [Spi bs n])) = n"
  by (simp add: flash_ok_def)

lemma flash_program:
  "flash_ok b mem \<Longrightarrow> A < 0x1000000 \<Longrightarrow> unat A mod 256 = 0 \<Longrightarrow> length d \<le> 256 \<Longrightarrow> n = 4 + length d \<Longrightarrow>
    mem (h @ enabled (flash_cmd FLASH_WRITE_CMD A @ d) n) =
      (\<lambda>a. if unat A \<le> a \<and> a < unat A + length d then mem h a AND d ! (a - unat A) else mem h a)"
  by (simp add: flash_ok_def)

lemma flash_mem_Rd: "flash_ok b mem \<Longrightarrow> mem (h @ map (\<lambda>r. Rd (f r)) rs) = mem h"
proof (induction rs rule: rev_induct)
  case (snoc r rs)
  then show ?case by (simp add: flash_ok_def flip: append_assoc)
qed simp

lemma flash_mem_Wr: "flash_ok b mem \<Longrightarrow> mem (h @ map (\<lambda>r. Wr (f r) (g r)) rs) = mem h"
proof (induction rs rule: rev_induct)
  case (snoc r rs)
  then show ?case by (simp add: flash_ok_def flip: append_assoc)
qed simp

lemma flash_mem_poll: "flash_ok b mem \<Longrightarrow> mem (h @ replicate n poll) = mem h"
proof (induction n)
  case (Suc n)
  then have "mem ((h @ replicate n poll) @ [poll]) = mem (h @ replicate n poll)"
    unfolding flash_ok_def by blast
  with Suc show ?case by (simp add: replicate_append_same)
qed simp

lemma flash_wait:
  assumes "flash_ok b mem"
  shows "\<exists>n. or_hang (wait_ready b s) = Ret (s\<lparr>bus := bus s @ replicate n poll\<rparr>)"
proof -
  obtain k where "spi_answer b (bus s @ replicate (Suc k) poll) ! 1 AND 0x01 = 0"
    using assms unfolding flash_ok_def by blast
  then show ?thesis using ready.or_hang_Ret [of b k s, unfolded funpow_bus] by simp
qed

lemma flash_erase:
  assumes ok: "flash_ok b mem"
  shows "\<exists>n. QspiFlashEraseSect b sector s =
      Ret (s\<lparr>bus := bus s @ enabled (flash_cmd FLASH_SECTOR_ERASE_CMD (sector * FLASH_SECTOR_SIZE)) 4 @ replicate n poll\<rparr>)"
  using flash_wait [OF ok, of "s\<lparr>bus := bus s @ enabled (flash_cmd FLASH_SECTOR_ERASE_CMD (sector * FLASH_SECTOR_SIZE)) 4\<rparr>"]
  by (simp add: QspiFlashEraseSect_def XQspiPs_PolledTransfer_def Let_def enabled_def)

lemma flash_write:
  assumes ok: "flash_ok b mem" and len: "length buf = n" "4 \<le> n"
  shows "\<exists>k. QspiFlashWrite b A n buf s =
      Ret (flash_cmd FLASH_WRITE_CMD A @ drop 4 buf,
           s\<lparr>bus := bus s @ enabled (flash_cmd FLASH_WRITE_CMD A @ drop 4 buf) n @ replicate k poll\<rparr>)"
proof -
  have buf: "store (flash_cmd FLASH_WRITE_CMD A) buf = flash_cmd FLASH_WRITE_CMD A @ drop 4 buf"
    by (simp add: store_def flash_cmd_def numeral_eq_Suc)
  have "take n (flash_cmd FLASH_WRITE_CMD A @ drop 4 buf) = flash_cmd FLASH_WRITE_CMD A @ drop 4 buf"
    using len by (simp add: flash_cmd_def)
  with buf flash_wait [OF ok, of "s\<lparr>bus := bus s @ enabled (flash_cmd FLASH_WRITE_CMD A @ drop 4 buf) n\<rparr>"]
  show ?thesis
    by (auto simp: QspiFlashWrite_def XQspiPs_PolledTransfer_def Let_def enabled_def)
qed

lemma flash_read:
  assumes ok: "flash_ok b mem" and len: "length buf = n" "4 \<le> n" and A: "A < 0x1000000"
  shows "\<exists>g. length g = 4 \<and> QspiFlashRead b A n buf s =
      (g @ map (\<lambda>i. mem (bus s) (unat A + i)) [0..<n - 4],
       s\<lparr>bus := bus s @ [Spi (flash_cmd FLASH_READ_CMD A) n]\<rparr>)
    \<and> mem (bus s @ [Spi (flash_cmd FLASH_READ_CMD A) n]) = mem (bus s)"
proof -
  let ?h = "bus s @ [Spi (flash_cmd FLASH_READ_CMD A) n]"
  have l: "length (spi_answer b ?h) = n" using ok by (rule flash_ok_len)
  have d: "drop 4 (spi_answer b ?h) = map (\<lambda>i. mem (bus s) (unat A + i)) [0..<n - 4]"
    using ok l len A by (intro nth_equalityI) (auto simp: flash_ok_def)
  then have "store (spi_answer b ?h) buf = take 4 (spi_answer b ?h) @ map (\<lambda>i. mem (bus s) (unat A + i)) [0..<n - 4]"
    using l len append_take_drop_id [of 4 "spi_answer b ?h"] by (simp add: store_def)
  moreover have "mem ?h = mem (bus s)" using ok A unfolding flash_ok_def by blast
  ultimately show ?thesis using l len
    by (auto simp: QspiFlashRead_def XQspiPs_PolledTransfer_def Let_def intro!: exI [of _ "take 4 (spi_answer b ?h)"])
qed

section \<open>Saving and loading\<close>

lemma and_FF: "(0xFF :: u8) AND x = x"
proof -
  have "(-1 :: u8) AND x = x" "(-1 :: u8) = 0xFF" by simp_all
  then show ?thesis by metis
qed

lemma unat_sector: "chan < 256 \<Longrightarrow> unat (chan * FLASH_SECTOR_SIZE) = unat chan * 65536"
  by (simp add: word_less_nat_alt unat_word_ariths)

lemma sector_24bit: "chan < 256 \<Longrightarrow> chan * FLASH_SECTOR_SIZE < 0x1000000"
  by (simp add: word_less_nat_alt unat_word_ariths)

text \<open>After erase, gather and write, the sector holds the gathered page.\<close>

lemma mem_after_save:
  assumes ok: "flash_ok b mem" and chan: "chan < 256" and len: "length wb = 256"
    and h1: "h1 = h0 @ enabled (flash_cmd FLASH_SECTOR_ERASE_CMD (chan * FLASH_SECTOR_SIZE)) 4 @ replicate n poll"
    and h2: "h2 = h1 @ map (\<lambda>r. Rd (f r)) rs"
    and h3: "h3 = h2 @ enabled (flash_cmd FLASH_WRITE_CMD (chan * FLASH_SECTOR_SIZE) @ drop 4 wb) 256 @ replicate k poll"
    and i: "i < 252"
  shows "mem h3 (unat chan * 65536 + i) = wb ! (4 + i)"
proof -
  note A = unat_sector [OF chan]
  have "mem h1 = mem (h0 @ enabled (flash_cmd FLASH_SECTOR_ERASE_CMD (chan * FLASH_SECTOR_SIZE)) 4)"
    using flash_mem_poll [OF ok] by (simp add: h1 flip: append_assoc)
  also have "\<dots> = (\<lambda>a. if a div 0x10000 = unat chan then 0xFF else mem h0 a)"
    using ok A sector_24bit [OF chan] by (simp add: flash_ok_def)
  finally have m1: "mem h2 = (\<lambda>a. if a div 0x10000 = unat chan then 0xFF else mem h0 a)"
    using flash_mem_Rd [OF ok, of h1 f rs] by (simp add: h2)
  have "mem h3 = mem (h2 @ enabled (flash_cmd FLASH_WRITE_CMD (chan * FLASH_SECTOR_SIZE) @ drop 4 wb) 256)"
    using flash_mem_poll [OF ok] by (simp add: h3 flip: append_assoc)
  also have "\<dots> = (\<lambda>a. if unat chan * 65536 \<le> a \<and> a < unat chan * 65536 + 252
      then mem h2 a AND drop 4 wb ! (a - unat chan * 65536) else mem h2 a)"
  proof -
    have "unat (chan * FLASH_SECTOR_SIZE) mod 256 = 0" "length (drop 4 wb) \<le> 256" "256 = 4 + length (drop 4 wb)"
      using len unfolding A by simp_all
    from flash_program [OF ok sector_24bit [OF chan] this, of h2] show ?thesis unfolding A length_drop len diff_numeral_simps
      by simp
  qed
  finally have "mem h3 (unat chan * 65536 + i) = mem h2 (unat chan * 65536 + i) AND drop 4 wb ! i"
    using i by simp
  also have "mem h2 (unat chan * 65536 + i) = 0xFF" using i unfolding m1 by simp
  finally show ?thesis using len by (simp only: and_FF nth_drop)
qed

lemma of_qspi_bytes_words:
  "length g = 4 \<Longrightarrow> length vs = 37 \<Longrightarrow> length fs = 7 \<Longrightarrow>
    qspi_words (of_qspi_bytes (g @ mem_words (vs @ fs))) = of_le32 g # vs @ fs"
proof -
  assume len: "length g = 4" "length vs = 37" "length fs = 7"
  have "g @ mem_words (vs @ fs) = mem_words (of_le32 g # vs @ fs)"
    using le32.enc_dec [OF len(1)] by (simp add: mem_words_def)
  then show ?thesis
    using len by (simp add: of_qspi_bytes_def words_of_mem_words qspi_words_of_words)
qed

lemma qspi_writes_zip: "qspi_writes q = zip qspi_regs (take 37 (drop 1 (qspi_words q)))"
  by (metis fst_qspi_writes snd_qspi_writes zip_map_fst_snd)

lemma sf_words_inj: "sf_words f = sf_words g \<longleftrightarrow> f = g"
  by (auto simp: sf_words_def intro: ScaleFactorType.equality)

lemma length_qspi_regs: "length qspi_regs = 37"
  by (simp add: qspi_regs_def qspi_writes_def)

lemma load_page:
  assumes ok: "flash_ok b mem" and chan: "chan < 256" and len: "length buf = 256"
    and vs: "length vs = 37"
    and mem: "map (\<lambda>i. mem (bus s) (unat chan * 65536 + i)) [0..<176] = mem_words (vs @ sf_words f)"
  shows "load_settings b chan buf s =
    sf_update chan (\<lambda>_. f) (s\<lparr>bus := bus s @ Spi (flash_cmd FLASH_READ_CMD (chan * FLASH_SECTOR_SIZE)) 256
      # map (chan_wr b chan) (zip qspi_regs vs)\<rparr>)"
proof -
  let ?m = "map (\<lambda>i. mem (bus s) (unat chan * 65536 + i)) [0..<252]"
  obtain g where g: "length g = 4" and r: "QspiFlashRead b (chan * FLASH_SECTOR_SIZE) 256 buf s =
      (g @ ?m, s\<lparr>bus := bus s @ [Spi (flash_cmd FLASH_READ_CMD (chan * FLASH_SECTOR_SIZE)) 256]\<rparr>)"
    using flash_read [OF ok len, of "chan * FLASH_SECTOR_SIZE" s] sector_24bit [OF chan] unat_sector [OF chan] by auto
  have "take 176 ?m = mem_words (vs @ sf_words f)"
    using mem by (simp add: take_map)
  then have page: "take 180 (g @ ?m) = g @ mem_words (vs @ sf_words f)"
    using g by simp
  have q: "qspi_words (of_qspi_bytes (take 180 (g @ ?m))) = of_le32 g # vs @ sf_words f"
    unfolding page using g vs by (intro of_qspi_bytes_words) (simp_all add: sf_words_def)
  then have "sf_words (sf_of_qspi (of_qspi_bytes (take 180 (g @ ?m)))) = sf_words f"
    using vs by (simp add: sf_of_qspi_words)
  then have "sf_of_qspi (of_qspi_bytes (take 180 (g @ ?m))) = f" by (simp add: sf_words_inj)
  moreover have "qspi_writes (of_qspi_bytes (take 180 (g @ ?m))) = zip qspi_regs vs"
    unfolding qspi_writes_zip q using vs by simp
  ultimately show ?thesis
    by (simp add: load_settings_def r disperse_state Let_def)
qed

lemma save_settings_Ret:
  assumes ok: "flash_ok b mem" and chan: "chan < 256" and len: "length buf = 256"
    and f: "sf_at chan s = Ret f"
  shows "\<exists>s1 s2 buf2. QspiFlashEraseSect b chan s = Ret s1 \<and> save_settings b header0 chan buf s = Ret (buf2, s2)
    \<and> scalefactors s2 = scalefactors s
    \<and> map (\<lambda>i. mem (bus s2) (unat chan * 65536 + i)) [0..<176]
      = mem_words (fst (read_regs b chan qspi_regs s1) @ sf_words f)"
proof -
  obtain n where e: "QspiFlashEraseSect b chan s =
      Ret (s\<lparr>bus := bus s @ enabled (flash_cmd FLASH_SECTOR_ERASE_CMD (chan * FLASH_SECTOR_SIZE)) 4 @ replicate n poll\<rparr>)"
    (is "_ = Ret ?s1") using flash_erase [OF ok] by blast
  define vs where "vs = fst (read_regs b chan qspi_regs ?s1)"
  define wb where "wb = store (mem_words (header0 # vs @ sf_words f)) buf"
  have vs: "length vs = 37" by (simp add: vs_def length_read_regs length_qspi_regs)
  have wb: "length wb = 256" using len vs by (simp add: wb_def length_store sf_words_def)
  have g: "QspiGatherData b header0 chan buf ?s1 =
      Ret (wb, ?s1\<lparr>bus := bus ?s1 @ map (\<lambda>r. Rd (chan_reg b chan r)) qspi_regs\<rparr>)" (is "_ = Ret (_, ?s2)")
    using f read_regs_state [of b chan qspi_regs ?s1]
    by (simp add: QspiGatherData_reads case_prod_unfold Let_def wb_def vs_def sf_at_def split: if_splits)
  obtain k where w: "QspiFlashWrite b (chan * FLASH_SECTOR_SIZE) 256 wb ?s2 =
      Ret (flash_cmd FLASH_WRITE_CMD (chan * FLASH_SECTOR_SIZE) @ drop 4 wb,
           ?s2\<lparr>bus := bus ?s2 @ enabled (flash_cmd FLASH_WRITE_CMD (chan * FLASH_SECTOR_SIZE) @ drop 4 wb) 256 @ replicate k poll\<rparr>)"
    (is "_ = Ret (_, ?s3)") using flash_write [OF ok wb] by fastforce
  have "mem (bus ?s3) (unat chan * 65536 + i) = wb ! (4 + i)" if "i < 252" for i
    by (rule mem_after_save [OF ok chan wb _ _ _ that, where ?h0.0 = "bus s" and n = n and k = k and f = "chan_reg b chan" and rs = qspi_regs])
      simp_all
  moreover have d: "drop 4 wb = mem_words (vs @ sf_words f) @ drop 180 buf"
    using vs by (simp add: wb_def store_def mem_words_def le32.length_enc sf_words_def le32.length_concat_enc)
  have "wb ! (4 + i) = mem_words (vs @ sf_words f) ! i" if "i < 176" for i
  proof -
    have "wb ! (4 + i) = drop 4 wb ! i" using wb by simp
    with d vs that show ?thesis by (simp add: nth_append sf_words_def)
  qed
  ultimately have "map (\<lambda>i. mem (bus ?s3) (unat chan * 65536 + i)) [0..<176] = mem_words (vs @ sf_words f)"
    using vs by (intro nth_equalityI) (simp_all add: sf_words_def)
  then show ?thesis using e g w by (auto simp: save_settings_def vs_def)
qed

section \<open>A concrete board\<close>

text \<open>
  For the witnesses: registers that hold the last value written, and a flash chip.
\<close>

definition last_write :: "io list \<Rightarrow> u32 \<Rightarrow> u32" where
  "last_write h a = fold (\<lambda>e v. case e of Wr a' w \<Rightarrow> if a' = a then w else v | _ \<Rightarrow> v) h 0"

definition cmd_addr :: "u8 list \<Rightarrow> nat" where
  "cmd_addr bs = unat (of_bytes4 0 (bs ! 1) (bs ! 2) (bs ! 3))"

fun chip_step :: "io \<Rightarrow> bool \<times> (nat \<Rightarrow> u8) \<Rightarrow> bool \<times> (nat \<Rightarrow> u8)" where
  "chip_step (Spi bs n) (wel, m) =
     (if bs = [FLASH_WRITE_ENABLE_CMD] then (True, m)
      else if wel \<and> hd bs = FLASH_SECTOR_ERASE_CMD
      then (False, \<lambda>a. if a div 0x10000 = cmd_addr bs div 0x10000 then 0xFF else m a)
      else if wel \<and> hd bs = FLASH_WRITE_CMD
      then (False, \<lambda>a. if cmd_addr bs \<le> a \<and> a < cmd_addr bs + (length bs - 4)
                       then m a AND drop 4 bs ! (a - cmd_addr bs) else m a)
      else (wel, m))"
| "chip_step _ c = c"

definition chip_mem :: "io list \<Rightarrow> nat \<Rightarrow> u8" where
  "chip_mem h = snd (fold chip_step h (False, \<lambda>_. 0xFF))"

definition chip_answer :: "io list \<Rightarrow> u8 list" where
  "chip_answer h =
     (case last h of
        Spi bs n \<Rightarrow> take n (replicate 4 0 @
          map (\<lambda>i. if hd bs = FLASH_READ_CMD then chip_mem (butlast h) (cmd_addr bs + i) else 0) [0..<n])
      | _ \<Rightarrow> [])"

definition sim_board :: board where
  "sim_board = \<lparr>axi_base = 0x43C00000, reg_answer = last_write, spi_answer = chip_answer\<rparr>"

lemma cmd_addr_flash_cmd:
  assumes "A < 0x1000000" shows "cmd_addr (flash_cmd c A @ d) = unat A"
proof -
  have "take_bit 24 (unat A) = unat A"
    using assms by (intro take_bit_nat_eq_self) (simp add: word_less_nat_alt)
  then have "take_bit 24 A = A" by (simp add: word_unat_eq_iff unsigned_take_bit_eq)
  then have high: "bit A n \<Longrightarrow> n < 24" for n by (metis bit_take_bit_iff)
  have "of_bytes4 0 (ucast (drop_bit 16 (A AND 0xFF0000))) (ucast (drop_bit 8 (A AND 0xFF00))) (ucast (A AND 0xFF)) = A"
  proof (rule bit_word_eqI)
    fix n assume n: "n < LENGTH(32)"
    have m: "(0xFF :: u32) = mask 8" "(0xFF00 :: u32) = push_bit 8 (mask 8)" "(0xFF0000 :: u32) = push_bit 16 (mask 8)"
      by (simp_all add: mask_eq_exp_minus_1 push_bit_eq_mult)
    show "bit (of_bytes4 0 (ucast (drop_bit 16 (A AND 0xFF0000))) (ucast (drop_bit 8 (A AND 0xFF00)))
        (ucast (A AND 0xFF))) n = bit A n"
      using n high [of n] unfolding m
      by (cases "n < 8"; cases "n < 16"; cases "n < 24") (auto simp: of_bytes4_def bit_simps)
  qed
  then show ?thesis by (simp add: cmd_addr_def flash_cmd_def)
qed

lemma chip_mem_append [simp]:
  "chip_mem (h @ [e]) = snd (chip_step e (fold chip_step h (False, \<lambda>_. 0xFF)))"
  by (simp add: chip_mem_def)

lemma flash_cmd_shape: "hd (flash_cmd c A @ d) = c" "hd (flash_cmd c A) = c"
  "flash_cmd c A \<noteq> [x]" "flash_cmd c A @ d \<noteq> [x]"
  "length (flash_cmd c A) = 4" "drop 4 (flash_cmd c A @ d) = d"
  by (simp_all add: flash_cmd_def numeral_eq_Suc)

lemma chip_step_keep:
  "hd bs \<noteq> FLASH_SECTOR_ERASE_CMD \<Longrightarrow> hd bs \<noteq> FLASH_WRITE_CMD \<Longrightarrow> snd (chip_step (Spi bs n) c) = snd c"
  by (cases c) simp

lemma sim_board_flash: "flash_ok sim_board chip_mem"
proof -
  have len: "length (chip_answer (h @ [Spi bs n])) = n" for h bs n
    by (simp add: chip_answer_def)
  have ready: "chip_answer (h @ replicate (Suc 0) poll) ! 1 AND 0x01 = 0" for h
    by (simp add: chip_answer_def numeral_eq_Suc)
  have keep: "chip_mem (h @ [Spi (flash_cmd FLASH_READ_CMD A) n]) = chip_mem h" for h A n
    by (simp add: chip_step_keep flash_cmd_shape chip_mem_def)
  have read: "chip_answer (h @ [Spi (flash_cmd FLASH_READ_CMD A) n]) ! (4 + i) = chip_mem h (unat A + i)"
    if "i < n - 4" "A < 0x1000000" for h A n i
  proof -
    have "i < n" using that(1) by simp
    with that show ?thesis using cmd_addr_flash_cmd [of A FLASH_READ_CMD "[]"]
      by (simp add: chip_answer_def flash_cmd_shape nth_append)
  qed
  have erase: "A < 0x1000000 \<Longrightarrow> chip_mem (h @ enabled (flash_cmd FLASH_SECTOR_ERASE_CMD A) 4) =
      (\<lambda>a. if a div 0x10000 = unat A div 0x10000 then 0xFF else chip_mem h a)" for h A
    using cmd_addr_flash_cmd [of A FLASH_SECTOR_ERASE_CMD "[]"]
    by (cases "fold chip_step h (False, \<lambda>_. 0xFF)")
      (simp add: enabled_def chip_mem_def flash_cmd_shape cong: if_cong)
  have prog: "A < 0x1000000 \<Longrightarrow> chip_mem (h @ enabled (flash_cmd FLASH_WRITE_CMD A @ d) (4 + length d)) =
      (\<lambda>a. if unat A \<le> a \<and> a < unat A + length d then chip_mem h a AND d ! (a - unat A) else chip_mem h a)" for h A d
    by (cases "fold chip_step h (False, \<lambda>_. 0xFF)")
      (simp add: enabled_def chip_mem_def flash_cmd_shape cmd_addr_flash_cmd cong: if_cong)
  have "\<exists>k. chip_answer (h @ replicate (Suc k) poll) ! 1 AND 0x01 = 0" for h
    using ready by blast
  with len keep read erase prog show ?thesis
    by (simp add: flash_ok_def sim_board_def chip_step_keep chip_mem_def)
qed

lemma last_write_hold: "(\<forall>w. Wr a w \<notin> set h') \<Longrightarrow> last_write (h @ Wr a v # h') a = v"
proof -
  assume no: "\<forall>w. Wr a w \<notin> set h'"
  have "fold (\<lambda>e v. case e of Wr a' w \<Rightarrow> if a' = a then w else v | _ \<Rightarrow> v) h' v = v"
    using no by (induction h') (auto split: io.splits)
  then show ?thesis by (simp add: last_write_def)
qed

lemma sim_board_hold: "regs_hold sim_board chan rvs"
  by (auto simp: regs_hold_def sim_board_def last_write_hold)

section \<open>Properties\<close>

text \<open>
  C10. Settings survive in the flash: saving a channel reads its 37 setting registers once, in
  the order of \<open>QspiData\<close>, and stores them with the scale factors; loading the page later, after
  any operations that leave the chip's contents alone and whatever the registers and scale
  factors have become, writes exactly those values to exactly those registers and restores the
  scale factors. Both calls return.
\<close>

theorem settings_survive:
  assumes "flash_ok b mem" "chan < 256" "length buf = 256" "sf_at chan s = Ret f"
  shows "\<exists>s1 buf2 s2. QspiFlashEraseSect b chan s = Ret s1 \<and> save_settings b header0 chan buf s = Ret (buf2, s2)
    \<and> (\<forall>rbuf s3. mem (bus s3) = mem (bus s2) \<longrightarrow> length rbuf = 256 \<longrightarrow>
        load_settings b chan rbuf s3 =
          sf_update chan (\<lambda>_. f) (s3\<lparr>bus := bus s3
            @ Spi (flash_cmd FLASH_READ_CMD (chan * FLASH_SECTOR_SIZE)) 256
            # map (chan_wr b chan) (zip qspi_regs (fst (read_regs b chan qspi_regs s1)))\<rparr>))"
proof -
  obtain s1 s2 buf2 where save: "QspiFlashEraseSect b chan s = Ret s1"
      "save_settings b header0 chan buf s = Ret (buf2, s2)"
    and m: "map (\<lambda>i. mem (bus s2) (unat chan * 65536 + i)) [0..<176]
      = mem_words (fst (read_regs b chan qspi_regs s1) @ sf_words f)"
    using save_settings_Ret [OF assms, of header0] by blast
  have "length (fst (read_regs b chan qspi_regs s1)) = 37"
    by (simp add: length_read_regs length_qspi_regs)
  with load_page [OF assms(1,2)] m save show ?thesis by auto
qed

text \<open>Channel 2 of a board whose registers are all zero, with some scale factors.\<close>

definition some_sf :: ScaleFactorType where
  "some_sf = \<lparr>ampspersec = 0x3F800000, dac_dccts = 0x41200000, vout = 0x40000000, ignd = 0x3F800000,
     spare = 0x3F800000, regulator = 0x41200000, error = 0x3F800000\<rparr>"

definition some_psc :: psc where
  "some_psc = \<lparr>bus = [], scalefactors = replicate 4 some_sf,
     CONVVOLTSTODACBITS = 0x474CCCCD, CONVDACBITSTOVOLTS = 0x37A00000\<rparr>"

lemma some_psc_bus: "bus some_psc = []"
  by (simp add: some_psc_def)

lemma some_psc_sf: "sf_at 2 some_psc = Ret some_sf"
  by (simp add: sf_at_def some_psc_def numeral_eq_Suc)

theorem settings_survive_witness:
  "\<exists>s1 buf2 s2. QspiFlashEraseSect sim_board 2 some_psc = Ret s1
    \<and> save_settings sim_board 7 2 (replicate 256 0) some_psc = Ret (buf2, s2)
    \<and> load_settings sim_board 2 (replicate 256 1) (s2\<lparr>scalefactors := []\<rparr>) =
        sf_update 2 (\<lambda>_. some_sf) (s2\<lparr>scalefactors := [], bus := bus s2
          @ Spi (flash_cmd FLASH_READ_CMD (2 * FLASH_SECTOR_SIZE)) 256
          # map (chan_wr sim_board 2) (zip qspi_regs (fst (read_regs sim_board 2 qspi_regs s1)))\<rparr>)"
proof -
  obtain s1 buf2 s2 where *: "QspiFlashEraseSect sim_board 2 some_psc = Ret s1"
    "save_settings sim_board 7 2 (replicate 256 0) some_psc = Ret (buf2, s2)"
    "\<And>rbuf s3. chip_mem (bus s3) = chip_mem (bus s2) \<Longrightarrow> length rbuf = 256 \<Longrightarrow>
        load_settings sim_board 2 rbuf s3 =
          sf_update 2 (\<lambda>_. some_sf) (s3\<lparr>bus := bus s3
            @ Spi (flash_cmd FLASH_READ_CMD (2 * FLASH_SECTOR_SIZE)) 256
            # map (chan_wr sim_board 2) (zip qspi_regs (fst (read_regs sim_board 2 qspi_regs s1)))\<rparr>)"
    using settings_survive [OF sim_board_flash _ _ some_psc_sf, of "replicate 256 0" 7] by auto
  from *(3) [of "s2\<lparr>scalefactors := []\<rparr>" "replicate 256 1"] *(1,2) show ?thesis by simp
qed

text \<open>
  Gathering inverts dispersing: on registers that hold the values of the page, a channel whose
  page has been dispersed gathers the same 176 bytes of settings again (the first four bytes
  belong to the flash command).
\<close>

theorem gather_after_disperse:
  assumes hold: "regs_hold b chan (qspi_writes (of_qspi_bytes (take 180 readbuf)))" and chan: "chan < 8"
    and d: "QspiDisperseData b chan readbuf s = Ret s1" and len: "180 \<le> length readbuf" "180 \<le> length writebuf"
  shows "\<exists>wb s2. QspiGatherData b header0 chan writebuf s1 = Ret (wb, s2)
    \<and> take 176 (drop 4 wb) = take 176 (drop 4 readbuf)"
proof -
  define q where "q = of_qspi_bytes (take 180 readbuf)"
  define s0 where "s0 = s\<lparr>bus := bus s @ map (chan_wr b chan) (qspi_writes q)\<rparr>"
  have d': "sf_update chan (\<lambda>_. sf_of_qspi q) s0 = Ret s1"
    using d by (simp add: disperse_state Let_def q_def s0_def)
  then have bus1: "bus s1 = bus s @ map (chan_wr b chan) (qspi_writes q) @ []"
    and sf1: "sf_at chan s1 = Ret (sf_of_qspi q)"
    by (auto simp: sf_update_def sf_at_def s0_def split: if_splits)
  have regs: "fst (read_regs b chan (map fst (qspi_writes q)) s1) = map snd (qspi_writes q)"
  proof (rule read_regs_hold [OF _ chan _ _ order_refl bus1])
    show "\<forall>r \<in> fst ` set (qspi_writes q). r < CHBASEADDR"
      using qspi_regs_in_block fst_qspi_writes [of q] by (metis set_map)
  qed (use hold distinct_qspi_regs in \<open>simp_all add: fst_qspi_writes q_def\<close>)
  have words: "map snd (qspi_writes q) @ sf_words (sf_of_qspi q) = drop 1 (qspi_words q)"
  proof -
    have "drop 38 (qspi_words q) = drop 37 (drop 1 (qspi_words q))" by simp
    then show ?thesis unfolding snd_qspi_writes sf_of_qspi_words by (simp only: append_take_drop_id)
  qed
  let ?ws = "header0 # drop 1 (qspi_words q)"
  have g: "QspiGatherData b header0 chan writebuf s1 = Ret (store (mem_words ?ws) writebuf,
      s1\<lparr>bus := bus s1 @ map (\<lambda>r. Rd (chan_reg b chan r)) qspi_regs\<rparr>)"
    using regs words sf1 read_regs_state [of b chan qspi_regs s1]
    by (simp add: QspiGatherData_reads case_prod_unfold Let_def fst_qspi_writes sf_at_def split: if_splits)
  have "mem_words (qspi_words q) = take 180 readbuf"
    using qspi.enc_dec [of "take 180 readbuf"] len by (simp add: q_def qspi_bytes_def)
  then have "drop 4 (mem_words (qspi_words q)) = take 176 (drop 4 readbuf)"
    by (simp add: drop_take)
  moreover have "drop 4 (mem_words (qspi_words q)) = mem_words (drop 1 (qspi_words q))"
    using le32.drop_concat_enc [of 1 "qspi_words q"] by (simp add: mem_words_def)
  moreover have "take 176 (drop 4 (store (mem_words ?ws) writebuf)) = mem_words (drop 1 (qspi_words q))"
    by (simp add: store_def mem_words_def le32.length_enc le32.length_concat_enc)
  ultimately show ?thesis using g by simp
qed

theorem gather_after_disperse_witness:
  "case QspiDisperseData sim_board 3 (replicate 256 5) some_psc of Ret s1 \<Rightarrow>
     \<exists>wb s2. QspiGatherData sim_board 0 3 (replicate 256 0) s1 = Ret (wb, s2)
       \<and> take 176 (drop 4 wb) = take 176 (drop 4 (replicate 256 5))
   | _ \<Rightarrow> False"
proof -
  obtain s1 where d: "QspiDisperseData sim_board 3 (replicate 256 5) some_psc = Ret s1"
    by (simp add: disperse_state Let_def sf_update_def some_psc_def)
  from gather_after_disperse [OF sim_board_hold _ d, of "replicate 256 0" 0] show ?thesis
    by (simp add: d)
qed

text \<open>
  C33. Erasing a sector ends exactly when the chip ends: it returns if at some poll after the
  erase command the busy bit is clear, and otherwise polls for ever; there is no time-out.
\<close>

theorem erase_ends_iff_ready:
  "(\<exists>s'. QspiFlashEraseSect b sector s = Ret s') \<longleftrightarrow>
     (\<exists>k. spi_answer b (bus s @ [Spi [FLASH_WRITE_ENABLE_CMD] 1, Spi (flash_cmd FLASH_SECTOR_ERASE_CMD (sector * FLASH_SECTOR_SIZE)) 4]
        @ replicate (Suc k) poll) ! 1 AND 0x01 = 0)"
proof -
  let ?s = "s\<lparr>bus := bus s @ [Spi [FLASH_WRITE_ENABLE_CMD] 1, Spi (flash_cmd FLASH_SECTOR_ERASE_CMD (sector * FLASH_SECTOR_SIZE)) 4]\<rparr>"
  have "QspiFlashEraseSect b sector s = or_hang (wait_ready b ?s)"
    by (simp add: QspiFlashEraseSect_def XQspiPs_PolledTransfer_def Let_def)
  then show ?thesis using wait_ready_iff [of b ?s] by simp
qed

end
