(* ===== verification/Sadata.thy ===== *)
theory Sadata
  imports Psc_State
begin

text \<open>
  sadata.c: what the readback and the snapshots share. The conversion of the byte order of a
  message in place, and the read of one averaged ADC value.
\<close>

text \<open>
  \<open>hton_conv\<close> of sadata.c and of snapshots.c: the bytes of each of the first \<open>len / 4\<close> words
  of the buffer in reverse order.
\<close>

definition rev4 :: "u8 list \<Rightarrow> nat \<Rightarrow> u8 list" where
  "rev4 buf i = buf[i := buf ! (i + 3), i + 3 := buf ! i, i + 1 := buf ! (i + 2), i + 2 := buf ! (i + 1)]"

fun hton_conv_from :: "nat \<Rightarrow> nat \<Rightarrow> u8 list \<Rightarrow> u8 list run" where
  "hton_conv_from i 0 buf = Ret buf"
| "hton_conv_from i (Suc n) buf =
     (if i + 3 < length buf then hton_conv_from (i + 4) n (rev4 buf i) else Undef Out_Of_Bounds)"

text \<open>The loop runs for \<open>i = 0, 4, ...\<close> below \<open>len\<close>.\<close>

definition hton_conv :: "u8 list \<Rightarrow> nat \<Rightarrow> u8 list run" where
  "hton_conv inbuf len = hton_conv_from 0 ((len + 3) div 4) inbuf"

lemma rev4_le32: "rev4 (pre @ le32 w @ rest) (length pre) = pre @ be32 w @ rest"
  by (simp add: rev4_def le32_def be32_def nth_append list_update_append)

text \<open>Words stored in memory order become words in network order; what is behind them stays.\<close>

lemma hton_conv_from_words:
  "hton_conv_from (length pre) (length ws) (pre @ mem_words ws @ rest) = Ret (pre @ concat (map be32 ws) @ rest)"
proof (induction ws arbitrary: pre)
  case (Cons w ws)
  have "rev4 (pre @ mem_words (w # ws) @ rest) (length pre) = (pre @ be32 w) @ mem_words ws @ rest"
    using rev4_le32 [of pre w "mem_words ws @ rest"] by (simp add: mem_words_def)
  moreover have "length pre + 3 < length (pre @ mem_words (w # ws) @ rest)" by simp
  moreover have "length (w # ws) = Suc (length ws)" "length pre + 4 = length (pre @ be32 w)"
    by (simp_all add: be32.length_enc)
  ultimately show ?case
    by (simp only: hton_conv_from.simps if_P Cons) simp
qed (simp add: mem_words_def)

lemma hton_conv_words: "hton_conv (mem_words ws @ rest) (4 * length ws) = Ret (concat (map be32 ws) @ rest)"
  using hton_conv_from_words [of "[]" ws rest] by (simp add: hton_conv_def)

text \<open>Any buffer of at least \<open>len\<close> bytes is converted, in whole words.\<close>

lemma words_of_take: "words_of n (take (4 * n) buf) = words_of n buf"
  by (auto simp: words_of_def drop_take min_def)

lemma be32_htonl: "be32 (htonl w) = le32 w"
  by (simp add: le32_def be32_def htonl_def)

lemma hton_conv_Ret:
  assumes "4 * n \<le> length buf"
  shows "hton_conv buf (4 * n) = Ret (concat (map be32 (words_of n buf)) @ drop (4 * n) buf)"
proof -
  have "mem_words (words_of n (take (4 * n) buf)) = take (4 * n) buf"
    using assms by (intro mem_words_words_of) simp
  moreover note words_of_take [of n buf]
  ultimately show ?thesis
    using hton_conv_words [of "words_of n buf" "drop (4 * n) buf"] by (simp add: append_take_drop_id)
qed

text \<open>
  C21. The swap of bytes in place is the conversion it stands for: read as words of the target's
  memory and written in network order, the rest of the buffer as it was; and doing it twice gives
  the buffer back.
\<close>

theorem hton_conv_is_network_order:
  assumes "4 * n \<le> length buf"
  shows "hton_conv buf (4 * n) = Ret (concat (map be32 (words_of n buf)) @ drop (4 * n) buf)
    \<and> run_bind (hton_conv buf (4 * n)) (\<lambda>buf. hton_conv buf (4 * n)) = Ret buf"
proof -
  let ?ws = "words_of n buf"
  let ?b = "concat (map be32 ?ws) @ drop (4 * n) buf"
  have "concat (map be32 ?ws) = mem_words (map htonl ?ws)" by (simp add: mem_words_def o_def le32_htonl)
  moreover have "mem_words ?ws = take (4 * n) buf"
    using mem_words_words_of [of "take (4 * n) buf" n] words_of_take assms by simp
  moreover have "concat (map be32 (map htonl ?ws)) = mem_words ?ws" by (simp add: mem_words_def o_def be32_htonl)
  ultimately have "hton_conv ?b (4 * n) = Ret buf"
    using hton_conv_words [of "map htonl ?ws" "drop (4 * n) buf"] by simp
  then show ?thesis using hton_conv_Ret [OF assms] by simp
qed

theorem hton_conv_is_network_order_witness:
  "hton_conv [1, 2, 3, 4, 5] (4 * 1) = Ret (concat (map be32 (words_of 1 [1, 2, 3, 4, 5])) @ drop (4 * 1) [1, 2, 3, 4, 5])
    \<and> run_bind (hton_conv [1, 2, 3, 4, 5] (4 * 1)) (\<lambda>buf. hton_conv buf (4 * 1)) = Ret [1, 2, 3, 4, 5]"
  by (rule hton_conv_is_network_order) simp

text \<open>The sum of the samples of one period, scaled by their number.\<close>

definition accum :: "u32 \<Rightarrow> u32 \<Rightarrow> f32" where
  "accum ave_mode raw =
     (if ave_mode = 0 then f32_of_int (sint raw)
      else if ave_mode = 1 then f32_of_f64 (f64_div (f64_of_int (sint raw)) (f64_lit 167 1))
      else if ave_mode = 2 then f32_of_f64 (f64_div (f64_of_int (sint raw)) (f64_lit 500 1))
      else enc32 FNaN)"

definition ReadAccumSA :: "board \<Rightarrow> u32 \<Rightarrow> u32 \<Rightarrow> psc \<Rightarrow> f32 \<times> psc" where
  "ReadAccumSA b reg_addr ave_mode s = (let (raw, s) = Xil_In32 b reg_addr s in (accum ave_mode raw, s))"

end
