(* ===== verification/Control.thy ===== *)
theory Control
  imports Qspi_Flash Sadata
begin

text \<open>
  control.c: what the messages of a client do. Global settings act on registers outside the
  channel blocks; channel settings convert a float to the units of the gateware and write one
  register of the channel, change a scale factor, or run one of the longer operations: a
  setpoint, a change of the DAC mode, the ramp table, the settings page in flash.

  The conversions are those of C on the target: float arithmetic as written, one rounding per
  operation, and a conversion to an integer that is undefined out of range. Arguments of
  \<open>xil_printf\<close> and \<open>printf\<close> are evaluated (they read registers in \<open>dump_adcs\<close>); the output is
  not modelled.
\<close>

section \<open>Registers of a channel\<close>

text \<open>\<open>Xil_Out32(XPAR_M_AXI_BASEADDR + r + chan*CHBASEADDR, v)\<close>\<close>

definition chan_out :: "board \<Rightarrow> u32 \<Rightarrow> u32 \<Rightarrow> u32 \<Rightarrow> psc \<Rightarrow> psc run" where
  "chan_out b chan r v s = Ret (Xil_Out32 (chan_reg b chan r) v s)"

section \<open>Conversions\<close>

text \<open>A gain: \<open>data.f*GAIN20BITFRACT\<close>, a double, passed as \<open>u32\<close>.\<close>

definition set_gain :: "board \<Rightarrow> u32 \<Rightarrow> u32 \<Rightarrow> f32 \<Rightarrow> psc \<Rightarrow> psc run" where
  "set_gain b chan r f s =
     run_bind (u32_of_f64 (f64_mul (f64_of_f32 f) GAIN20BITFRACT)) (\<lambda>v. chan_out b chan r v s)"

text \<open>Amps to DAC bits: \<open>data.f*CONVVOLTSTODACBITS / scalefactors[chan-1].dac_dccts\<close>, in float.\<close>

definition dac_bits :: "u32 \<Rightarrow> f32 \<Rightarrow> psc \<Rightarrow> s32 run" where
  "dac_bits chan f s =
     run_bind (sf_at chan s) (\<lambda>sf. s32_of_f32 (f32_div (f32_mul f (CONVVOLTSTODACBITS s)) (dac_dccts sf)))"

definition set_dac_bits :: "board \<Rightarrow> u32 \<Rightarrow> u32 \<Rightarrow> f32 \<Rightarrow> psc \<Rightarrow> psc run" where
  "set_dac_bits b chan r f s = run_bind (dac_bits chan f s) (\<lambda>v. chan_out b chan r v s)"

text \<open>To 16-bit ADC units: \<open>data.f*CONVVOLTSTO16BITS / scalefactors[chan-1].k\<close>, in double.\<close>

definition adc_bits :: "u32 \<Rightarrow> (ScaleFactorType \<Rightarrow> f32) \<Rightarrow> f32 \<Rightarrow> psc \<Rightarrow> s32 run" where
  "adc_bits chan k f s =
     run_bind (sf_at chan s) (\<lambda>sf.
       s32_of_f64 (f64_div (f64_mul (f64_of_f32 f) CONVVOLTSTO16BITS) (f64_of_f32 (k sf))))"

definition set_adc_bits ::
    "board \<Rightarrow> u32 \<Rightarrow> u32 \<Rightarrow> (ScaleFactorType \<Rightarrow> f32) \<Rightarrow> f32 \<Rightarrow> psc \<Rightarrow> psc run" where
  "set_adc_bits b chan r k f s = run_bind (adc_bits chan k f s) (\<lambda>v. chan_out b chan r v s)"

text \<open>A threshold: \<open>if (scaled_val >= 32767) scaled_val = 32767;\<close>\<close>

definition clamp16 :: "s32 \<Rightarrow> s32" where
  "clamp16 v = (if 32767 \<le> sint v then 32767 else v)"

definition set_thresh ::
    "board \<Rightarrow> u32 \<Rightarrow> u32 \<Rightarrow> (ScaleFactorType \<Rightarrow> f32) \<Rightarrow> f32 \<Rightarrow> psc \<Rightarrow> psc run" where
  "set_thresh b chan r k f s = run_bind (adc_bits chan k f s) (\<lambda>v. chan_out b chan r (clamp16 v) s)"

text \<open>A time in seconds to samples: \<open>(s32)(data.f * SAMPLERATE)\<close>.\<close>

definition set_cntlim :: "board \<Rightarrow> u32 \<Rightarrow> u32 \<Rightarrow> f32 \<Rightarrow> psc \<Rightarrow> psc run" where
  "set_cntlim b chan r f s =
     run_bind (s32_of_f64 (f64_mul (f64_of_f32 f) SAMPLERATE)) (\<lambda>v. chan_out b chan r v s)"

text \<open>\<open>abs\<close> of a difference of two \<open>s32\<close>: undefined when it does not fit an \<open>int\<close>.\<close>

definition abs_diff :: "s32 \<Rightarrow> s32 \<Rightarrow> int run" where
  "abs_diff x y =
     (let d = sint x - sint y in
      if - (2 ^ 31) < d \<and> d < 2 ^ 31 then Ret \<bar>d\<bar> else Undef Signed_Overflow)"

definition abs_s32 :: "s32 \<Rightarrow> int run" where
  "abs_s32 x = (if sint x = - (2 ^ 31) then Undef Signed_Overflow else Ret \<bar>sint x\<bar>)"

section \<open>Setpoints and modes\<close>

abbreviation (input) CORDIC_INIT_PHASE :: u32 where "CORDIC_INIT_PHASE \<equiv> 421657300"

text \<open>The rate of a ramp in DAC bits per second, and the samples a ramp of \<open>n\<close> bits takes.\<close>

definition ramp_rate :: "ScaleFactorType \<Rightarrow> f32 \<Rightarrow> f32" where
  "ramp_rate sf conv = f32_mul (f32_div (ampspersec sf) (dac_dccts sf)) conv"

definition ramp_samples :: "int \<Rightarrow> f32 \<Rightarrow> u32 run" where
  "ramp_samples n rate = u32_of_f64 (f64_mul (f64_of_f32 (f32_div (f32_of_int n) rate)) SAMPLERATE)"

definition Calc_WriteSmooth :: "board \<Rightarrow> u32 \<Rightarrow> s32 \<Rightarrow> psc \<Rightarrow> psc run" where
  "Calc_WriteSmooth b chan new_setpt s =
     (let (cur_setpt, s) = Xil_In32 b (chan_reg b chan DAC_CURRSETPT_REG) s in
      run_bind (sf_at chan s) (\<lambda>sf.
      let rate = ramp_rate sf (CONVVOLTSTODACBITS s) in
      run_bind (abs_diff new_setpt cur_setpt) (\<lambda>n.
      run_bind (ramp_samples n rate) (\<lambda>num_samples.
      run_bind (ramp_samples n rate) (\<lambda>smooth_len.
      if num_samples = 0 then Undef Div_By_Zero
      else
        let phase_inc = f32_of_int (uint (CORDIC_INIT_PHASE div num_samples)) in
        run_bind (u32_of_f32 phase_inc) (\<lambda>v.
        run_bind (chan_out b chan SMOOTH_PHASEINC_REG v s)
          (chan_out b chan DAC_SETPT_REG new_setpt)))))))"

definition Set_dacOpmode :: "board \<Rightarrow> u32 \<Rightarrow> s32 \<Rightarrow> psc \<Rightarrow> psc run" where
  "Set_dacOpmode b chan new_opmode s =
     (let (dac_mode, s) = Xil_In32 b (chan_reg b chan DAC_OPMODE_REG) s in
      run_bind
        (if (dac_mode = SMOOTH \<or> dac_mode = RAMP) \<and> new_opmode = JUMP
         then run_bind (Calc_WriteSmooth b chan 0 s) (\<lambda>s.
              run_bind (chan_out b chan DAC_SETPT_REG 0 s)
                (chan_out b chan DAC_OPMODE_REG JUMP))
         else Ret s)
        (\<lambda>s.
         if dac_mode = JUMP \<and> (new_opmode = SMOOTH \<or> new_opmode = RAMP)
         then run_bind (Calc_WriteSmooth b chan 0 s) (\<lambda>s.
              run_bind (chan_out b chan DAC_SETPT_REG 0 s)
                (chan_out b chan DAC_OPMODE_REG new_opmode))
         else Ret s))"

text \<open>
  The limits of \<open>Set_dac\<close>: \<open>9.9999 * dac_dccts\<close> is a double, \<open>-10 * dac_dccts\<close> a float; an
  amps value beyond one is replaced by it.
\<close>

definition clamp_amps :: "f32 \<Rightarrow> f32 \<Rightarrow> f32" where
  "clamp_amps dccts amps =
     (let high = f64_mul (f64_lit 99999 10000) (f64_of_f32 dccts);
          low = f32_mul (f32_of_int (-10)) dccts
      in if f64_less high (f64_of_f32 amps) then f32_of_f64 high
         else if f32_less amps low then low
         else amps)"

definition Set_dac :: "board \<Rightarrow> u32 \<Rightarrow> f32 \<Rightarrow> psc \<Rightarrow> psc run" where
  "Set_dac b chan new_setpt_amps s =
     (let (dac_mode, s) = Xil_In32 b (chan_reg b chan DAC_OPMODE_REG) s in
      run_bind (sf_at chan s) (\<lambda>sf.
      run_bind (dac_bits chan (clamp_amps (dac_dccts sf) new_setpt_amps) s) (\<lambda>new_setpt.
      if dac_mode = SMOOTH then Calc_WriteSmooth b chan new_setpt s
      else if dac_mode = JUMP then chan_out b chan DAC_SETPT_REG new_setpt s
      else Ret s)))"

section \<open>The ramp table\<close>

text \<open>
  One point of \<open>write_ramptable\<close>: the limit of the DAC's resolution (0: medium, 1: high), then
  the address and the data of the dual-port memory.
\<close>

definition clamp_ramp :: "u32 \<Rightarrow> s32 \<Rightarrow> s32 run" where
  "clamp_ramp psc_resolution v =
     (if psc_resolution = 1 then
        run_bind (abs_s32 v) (\<lambda>n.
          Ret (if 2 ^ 20 < n then (if 0 < sint v then 2 ^ 20 - 1 else - (2 ^ 20)) else v))
      else if psc_resolution = 0 then
        run_bind (abs_s32 v) (\<lambda>n.
          Ret (if 2 ^ 18 < n then (if 0 < sint v then 2 ^ 18 - 1 else - (2 ^ 18)) else v))
      else Ret v)"

definition ramp_point :: "board \<Rightarrow> u32 \<Rightarrow> u8 list \<Rightarrow> u32 \<Rightarrow> nat \<Rightarrow> psc \<Rightarrow> psc run" where
  "ramp_point b chan msg psc_resolution i s =
     run_bind (ld32 msg i) (\<lambda>w.
     run_bind (dac_bits chan (htonl w) s) (\<lambda>v.
     run_bind (clamp_ramp psc_resolution v) (\<lambda>v.
     run_bind (chan_out b chan DAC_RAMPADDR_REG (word_of_nat i) s)
       (chan_out b chan DAC_RAMPDATA_REG v))))"

text \<open>The first loop only prints, but reads the first points of the message.\<close>

definition read_points :: "u8 list \<Rightarrow> nat list \<Rightarrow> unit run" where
  "read_points msg is = run_fold (\<lambda>i _. run_bind (ld32 msg i) (\<lambda>_. Ret ())) is ()"

definition write_ramptable :: "board \<Rightarrow> u32 \<Rightarrow> u8 list \<Rightarrow> u32 \<Rightarrow> psc \<Rightarrow> psc run" where
  "write_ramptable b chan msg msglen s =
     (let ramp_len = unat msglen div 4 in
      run_bind (read_points msg [0..<min 20 ramp_len]) (\<lambda>_.
      if 50000 < ramp_len then Ret s
      else
        run_bind (chan_out b chan DAC_RAMPLEN_REG (word_of_nat ramp_len) s) (\<lambda>s.
        let (psc_resolution, s) = Xil_In32 b (glob_reg b RESOLUTION_REG) s in
        run_bind (sf_at chan s) (\<lambda>_.
        run_fold (ramp_point b chan msg psc_resolution) [0..<ramp_len] s))))"

text \<open>\<open>load_ramptable\<close> only prints the points.\<close>

definition load_ramptable :: "u8 list \<Rightarrow> u32 \<Rightarrow> psc \<Rightarrow> psc run" where
  "load_ramptable msg msglen s = run_bind (read_points msg [0..<unat msglen div 4]) (\<lambda>_. Ret s)"

section \<open>Reading the ADCs\<close>

definition dump_adcs :: "board \<Rightarrow> u32 \<Rightarrow> psc \<Rightarrow> psc run" where
  "dump_adcs b chan s =
     (let (ave_mode, s) = Xil_In32 b (chan_reg b chan AVEMODE_REG) s;
          s = fold (\<lambda>r s. snd (ReadAccumSA b (chan_reg b chan r) ave_mode s))
                [DCCT1_REG, DCCT2_REG, DACMON_REG, VOLT_REG, GND_REG, SPARE_REG, REG_REG, ERR_REG] s;
          (_, s) = Xil_In32 b (chan_reg b chan DAC_CURRSETPT_REG) s;
          (_, s) = Xil_In32 b (chan_reg b chan DAC_CURRSETPT_REG) s
      in run_bind (sf_at chan s) (\<lambda>_. Ret s))"

section \<open>Global settings\<close>

definition set_fpleds :: "board \<Rightarrow> u32 \<Rightarrow> psc \<Rightarrow> psc" where
  "set_fpleds b msgVal s = Xil_Out32 (glob_reg b LEDS_REG) msgVal s"

definition soft_trig :: "board \<Rightarrow> u32 \<Rightarrow> psc \<Rightarrow> psc" where
  "soft_trig b msgVal s = Xil_Out32 (glob_reg b SOFTTRIG) 0 (Xil_Out32 (glob_reg b SOFTTRIG) msgVal s)"

definition glob_set :: "board \<Rightarrow> u32 \<Rightarrow> u32 \<Rightarrow> psc \<Rightarrow> psc" where
  "glob_set b addr u s =
     (if addr = SOFT_TRIG_MSG then soft_trig b u s
      else if addr = TEST_TRIG_MSG then
        Xil_Out32 (glob_reg b TESTTRIG) 0 (Xil_Out32 (glob_reg b TESTTRIG) u s)
      else if addr = FP_LED_MSG then set_fpleds b u s
      else if addr = EVR_RESET_MSG then
        Xil_Out32 (glob_reg b EVR_RESET_REG) (if u = 1 then 0xFF else 0) s
      else if addr = EVR_INJ_EVENTNUM_MSG then Xil_Out32 (glob_reg b EVR_INJ_EVENTNUM_REG) u s
      else if addr = EVR_PM_EVENTNUM_MSG then Xil_Out32 (glob_reg b EVR_PM_EVENTNUM_REG) u s
      else if addr = EVR_1HZ_EVENTNUM_MSG then Xil_Out32 (glob_reg b EVR_1HZ_EVENTNUM_REG) u s
      else if addr = EVR_10HZ_EVENTNUM_MSG then Xil_Out32 (glob_reg b EVR_10HZ_EVENTNUM_REG) u s
      else if addr = EVR_10KHZ_EVENTNUM_MSG then Xil_Out32 (glob_reg b EVR_10KHZ_EVENTNUM_REG) u s
      else s)"

definition glob_settings :: "board \<Rightarrow> u8 list \<Rightarrow> psc \<Rightarrow> psc run" where
  "glob_settings b msg s =
     run_bind (ld32 msg 0) (\<lambda>a. run_bind (ld32 msg 1) (\<lambda>d. Ret (glob_set b (htonl a) (htonl d) s)))"

section \<open>Channel settings\<close>

text \<open>
  The cases of the switch in \<open>chan_settings\<close>, in three groups, each \<open>None\<close> for an \<open>addr\<close> that is
  not one of its cases. \<open>u\<close> is the data word, read as a float where the code uses \<open>data.f\<close>.
\<close>

definition chan_set_dac_adc ::
    "board \<Rightarrow> u32 \<Rightarrow> u32 \<Rightarrow> u32 \<Rightarrow> psc \<Rightarrow> psc run option" where
  "chan_set_dac_adc b chan addr u s =
    (if addr = DAC_OPMODE_MSG then Some (Set_dacOpmode b chan u s)
     else if addr = DAC_SETPT_MSG then Some (run_bind (dac_bits chan u s) (\<lambda>_. Set_dac b chan u s))
     else if addr = DAC_RAMPLEN_MSG then Some (chan_out b chan DAC_RAMPLEN_REG u s)
     else if addr = DAC_RUNRAMP_MSG then Some (chan_out b chan DAC_RUNRAMP_REG u s)
     else if addr = DAC_SETPT_GAIN_MSG then Some (set_gain b chan DAC_SETPT_GAIN_REG u s)
     else if addr = DAC_SETPT_OFFSET_MSG then Some (set_dac_bits b chan DAC_SETPT_OFFSET_REG u s)
     else if addr = DCCT1_GAIN_MSG then Some (set_gain b chan DCCT1_GAIN_REG u s)
     else if addr = DCCT1_OFFSET_MSG then Some (set_dac_bits b chan DCCT1_OFFSET_REG u s)
     else if addr = DCCT2_GAIN_MSG then Some (set_gain b chan DCCT2_GAIN_REG u s)
     else if addr = DCCT2_OFFSET_MSG then Some (set_dac_bits b chan DCCT2_OFFSET_REG u s)
     else if addr = DACMON_GAIN_MSG then Some (set_gain b chan DACMON_GAIN_REG u s)
     else if addr = DACMON_OFFSET_MSG then Some (set_adc_bits b chan DACMON_OFFSET_REG dac_dccts u s)
     else if addr = VOLT_GAIN_MSG then Some (set_gain b chan VOLT_GAIN_REG u s)
     else if addr = VOLT_OFFSET_MSG then Some (set_adc_bits b chan VOLT_OFFSET_REG vout u s)
     else if addr = GND_GAIN_MSG then Some (set_gain b chan GND_GAIN_REG u s)
     else if addr = GND_OFFSET_MSG then Some (set_adc_bits b chan GND_OFFSET_REG ignd u s)
     else if addr = SPARE_GAIN_MSG then Some (set_gain b chan SPARE_GAIN_REG u s)
     else if addr = SPARE_OFFSET_MSG then Some (set_adc_bits b chan SPARE_OFFSET_REG spare u s)
     else if addr = REG_GAIN_MSG then Some (set_gain b chan REG_GAIN_REG u s)
     else if addr = REG_OFFSET_MSG then Some (set_adc_bits b chan REG_OFFSET_REG regulator u s)
     else if addr = ERR_GAIN_MSG then Some (set_gain b chan ERR_GAIN_REG u s)
     else if addr = ERR_OFFSET_MSG then Some (set_adc_bits b chan ERR_OFFSET_REG error u s)
     else None)"

definition chan_set_limits ::
    "board \<Rightarrow> u32 \<Rightarrow> u32 \<Rightarrow> u32 \<Rightarrow> psc \<Rightarrow> psc run option" where
  "chan_set_limits b chan addr u s =
    (if addr = OVC1_THRESH_MSG then Some (set_dac_bits b chan OVC1_THRESH_REG u s)
     else if addr = OVC2_THRESH_MSG then Some (set_dac_bits b chan OVC2_THRESH_REG u s)
     else if addr = OVV_THRESH_MSG then Some (set_thresh b chan OVV_THRESH_REG vout u s)
     else if addr = ERR1_THRESH_MSG then Some (set_thresh b chan ERR1_THRESH_REG error u s)
     else if addr = ERR2_THRESH_MSG then Some (set_thresh b chan ERR2_THRESH_REG error u s)
     else if addr = IGND_THRESH_MSG then Some (set_thresh b chan IGND_THRESH_REG error u s)
     else if addr = OVC1_CNTLIM_MSG then Some (set_cntlim b chan OVC1_CNTLIM_REG u s)
     else if addr = OVC2_CNTLIM_MSG then Some (set_cntlim b chan OVC2_CNTLIM_REG u s)
     else if addr = OVV_CNTLIM_MSG then Some (set_cntlim b chan OVV_CNTLIM_REG u s)
     else if addr = ERR1_CNTLIM_MSG then Some (set_cntlim b chan ERR1_CNTLIM_REG u s)
     else if addr = ERR2_CNTLIM_MSG then Some (set_cntlim b chan ERR2_CNTLIM_REG u s)
     else if addr = IGND_CNTLIM_MSG then Some (set_cntlim b chan IGND_CNTLIM_REG u s)
     else if addr = DCCT_CNTLIM_MSG then Some (set_cntlim b chan DCCT_CNTLIM_REG u s)
     else if addr = FLT1_CNTLIM_MSG then Some (set_cntlim b chan FLT1_CNTLIM_REG u s)
     else if addr = FLT2_CNTLIM_MSG then Some (set_cntlim b chan FLT2_CNTLIM_REG u s)
     else if addr = FLT3_CNTLIM_MSG then Some (set_cntlim b chan FLT3_CNTLIM_REG u s)
     else if addr = ON_CNTLIM_MSG then Some (set_cntlim b chan ON_CNTLIM_REG u s)
     else if addr = HEART_CNTLIM_MSG then Some (set_cntlim b chan HEARTBEAT_CNTLIM_REG u s)
     else None)"

text \<open>
  The remaining operations: the page is written, read back and dispersed; a PID constant is
  read back after it is written. \<open>stack\<close> and \<open>header0\<close> are what the uninitialised locals hold.
\<close>

definition write_qspi :: "board \<Rightarrow> u32 \<Rightarrow> u32 \<Rightarrow> u8 list \<Rightarrow> psc \<Rightarrow> psc run" where
  "write_qspi b header0 chan stack s =
     run_bind (save_settings b header0 chan stack s) (\<lambda>(qspibuf, s). load_settings b chan qspibuf s)"

definition set_pid :: "board \<Rightarrow> u32 \<Rightarrow> u32 \<Rightarrow> u32 \<Rightarrow> psc \<Rightarrow> psc run" where
  "set_pid b chan r u s =
     run_bind (chan_out b chan r u s) (\<lambda>s. Ret (snd (Xil_In32 b (chan_reg b chan r) s)))"

definition chan_set_misc ::
    "board \<Rightarrow> u32 \<Rightarrow> u8 list \<Rightarrow> u32 \<Rightarrow> u32 \<Rightarrow> u32 \<Rightarrow> psc \<Rightarrow> psc run option" where
  "chan_set_misc b header0 stack chan addr u s =
    (if addr = FAULT_CLEAR_MSG then Some (chan_out b chan FAULT_CLEAR_REG u s)
     else if addr = FAULT_MASK_MSG then Some (chan_out b chan FAULT_MASK_REG u s)
     else if addr = DIGOUT_ON1_MSG then Some (chan_out b chan DIGOUT_ON1_REG u s)
     else if addr = DIGOUT_ON2_MSG then Some (chan_out b chan DIGOUT_ON2_REG u s)
     else if addr = DIGOUT_RESET_MSG then Some (chan_out b chan DIGOUT_RESET_REG u s)
     else if addr = DIGOUT_SPARE_MSG then Some (chan_out b chan DIGOUT_SPARE_REG u s)
     else if addr = DIGOUT_PARK_MSG then Some (chan_out b chan DIGOUT_PARK_REG u s)
     else if addr = SF_AMPS_PER_SEC_MSG then Some (sf_update chan (ampspersec_update (\<lambda>_. u)) s)
     else if addr = SF_DAC_DCCTS_MSG then Some (sf_update chan (dac_dccts_update (\<lambda>_. u)) s)
     else if addr = SF_VOUT_MSG then Some (sf_update chan (vout_update (\<lambda>_. u)) s)
     else if addr = SF_IGND_MSG then Some (sf_update chan (ignd_update (\<lambda>_. u)) s)
     else if addr = SF_SPARE_MSG then Some (sf_update chan (spare_update (\<lambda>_. u)) s)
     else if addr = SF_REGULATOR_MSG then Some (sf_update chan (regulator_update (\<lambda>_. u)) s)
     else if addr = SF_ERROR_MSG then Some (sf_update chan (error_update (\<lambda>_. u)) s)
     else if addr = AVE_MODE_MSG then Some (chan_out b chan AVEMODE_REG u s)
     else if addr = WRITE_QSPI_MSG then Some (if u = 1 then write_qspi b header0 chan stack s else Ret s)
     else if addr = READ_QSPI_MSG then Some (if u = 1 then load_settings b chan stack s else Ret s)
     else if addr = DUMP_ADCS_MSG then Some (dump_adcs b chan s)
     else if addr = KP_MSG then Some (set_pid b chan DPID_KP_REG u s)
     else if addr = KI_MSG then Some (set_pid b chan DPID_KI_REG u s)
     else if addr = KD_MSG then Some (set_pid b chan DPID_KD_REG u s)
     else if addr = DPID_ENB_MSG then Some (chan_out b chan DPID_ENB_REG u s)
     else if addr = DPID_PARK_MSG then Some (chan_out b chan DPID_PARK_REG u s)
     else if addr = DPID_IRESET_MSG then Some (chan_out b chan DPID_IRESET_REG u s)
     else if addr = DPID_ILIMIT_MSG then Some (chan_out b chan DPID_ILIMIT_REG u s)
     else None)"

definition chan_set ::
    "board \<Rightarrow> u32 \<Rightarrow> u8 list \<Rightarrow> u32 \<Rightarrow> u32 \<Rightarrow> u32 \<Rightarrow> psc \<Rightarrow> psc run" where
  "chan_set b header0 stack chan addr u s =
     (case chan_set_dac_adc b chan addr u s of
        Some r \<Rightarrow> r
      | None \<Rightarrow> (case chan_set_limits b chan addr u s of
          Some r \<Rightarrow> r
        | None \<Rightarrow> (case chan_set_misc b header0 stack chan addr u s of
            Some r \<Rightarrow> r
          | None \<Rightarrow> Ret s)))"

definition chan_settings :: "board \<Rightarrow> u32 \<Rightarrow> u8 list \<Rightarrow> u32 \<Rightarrow> u8 list \<Rightarrow> psc \<Rightarrow> psc run" where
  "chan_settings b header0 stack chan msg s =
     run_bind (ld32 msg 0) (\<lambda>a. run_bind (ld32 msg 1) (\<lambda>d.
       chan_set b header0 stack chan (htonl a) (htonl d) s))"

section \<open>Nothing reaches another channel\<close>

lemma confined_chan_out [confined]: "r < CHBASEADDR \<Longrightarrow> confined (chan_block b chan) chan s (chan_out b chan r v s)"
  by (simp add: chan_out_def touches_chan_reg)

lemma confined_conversions [confined]:
  assumes "r < CHBASEADDR"
  shows "confined (chan_block b chan) chan s (set_gain b chan r f s)"
    and "confined (chan_block b chan) chan s (set_dac_bits b chan r f s)"
    and "confined (chan_block b chan) chan s (set_adc_bits b chan r k f s)"
    and "confined (chan_block b chan) chan s (set_thresh b chan r k f s)"
    and "confined (chan_block b chan) chan s (set_cntlim b chan r f s)"
    and "confined (chan_block b chan) chan s (set_pid b chan r f s)"
  using assms
  by (auto simp: set_gain_def set_dac_bits_def set_adc_bits_def set_thresh_def set_cntlim_def set_pid_def intro!: confined)

lemma confined_Calc_WriteSmooth [confined]: "confined (chan_block b chan) chan s (Calc_WriteSmooth b chan v s)"
  unfolding Calc_WriteSmooth_def Let_def [of "ramp_rate _ _"] Let_def [of "f32_of_int _"]
  by (rule confined_read) (auto intro!: confined)

lemma confined_Set_dacOpmode [confined]: "confined (chan_block b chan) chan s (Set_dacOpmode b chan v s)"
  unfolding Set_dacOpmode_def
  by (rule confined_read) (auto intro!: confined)

lemma confined_Set_dac [confined]: "confined (chan_block b chan) chan s (Set_dac b chan v s)"
  unfolding Set_dac_def
  by (rule confined_read) (auto intro!: confined)

lemma touches_ReadAccumSA: "touches A chan s (snd (ReadAccumSA b r m s))"
proof -
  have "snd (ReadAccumSA b r m s) = snd (Xil_In32 b r s)"
    by (simp add: ReadAccumSA_def Let_def case_prod_unfold)
  then show ?thesis by simp
qed

lemma confined_dump_adcs [confined]: "confined A chan s (dump_adcs b chan s)"
  unfolding dump_adcs_def Let_def [of "fold _ _ _"]
proof (rule confined_read)
  fix m t assume "touches A chan s t"
  let ?u = "fold (\<lambda>r s. snd (ReadAccumSA b (chan_reg b chan r) m s))
      [DCCT1_REG, DCCT2_REG, DACMON_REG, VOLT_REG, GND_REG, SPARE_REG, REG_REG, ERR_REG] t"
  let ?k = "let (_, s) = Xil_In32 b (chan_reg b chan DAC_CURRSETPT_REG) ?u;
            (_, s) = Xil_In32 b (chan_reg b chan DAC_CURRSETPT_REG) s
      in run_bind (sf_at chan s) (\<lambda>_. Ret s)"
  have "touches A chan t ?u" by (rule touches_fold) (rule touches_ReadAccumSA)
  moreover have "confined A chan ?u ?k"
    by (rule confined_read)+ (rule confined_bind_val, simp)
  ultimately show "confined A chan t ?k" using touches_trans by (auto simp: confined_def)
qed

lemma touches_polls: "touches A chan s (s\<lparr>bus := bus s @ replicate n poll\<rparr>)"
  by (rule touches_bus) simp

lemma touches_transfer:
  "XQspiPs_PolledTransfer b bs n s = (x, t) \<Longrightarrow> touches A chan s t"
  using touches_Spi [of A chan s b bs n] by simp

lemma touches_wait: "wait_ready b s = Some t \<Longrightarrow> touches A chan s t"
  using wait_ready_polls [of b s] touches_polls by auto

lemma confined_erase [confined]: "confined A chan s (QspiFlashEraseSect b sector s)"
  by (simp add: QspiFlashEraseSect_def confined_def Let_def split: prod.splits)
    (meson touches_trans touches_wait touches_transfer)

lemma touches_flash_write: "QspiFlashWrite b a n buf s = Ret (buf', t) \<Longrightarrow> touches A chan s t"
  by (simp add: QspiFlashWrite_def Let_def split: prod.splits)
    (meson touches_trans touches_wait touches_transfer)

lemma touches_reads: "touches A chan s (snd (read_regs b c rs s))"
  unfolding read_regs_state by (rule touches_bus) auto

lemma touches_gather: "QspiGatherData b h c buf s = Ret (buf', t) \<Longrightarrow> touches A chan s t"
  using touches_reads [of A chan s b c qspi_regs]
  by (auto simp: QspiGatherData_reads Let_def case_prod_unfold)

lemma confined_disperse [confined]: "confined (chan_block b chan) chan s (QspiDisperseData b chan buf s)"
proof -
  define q where "q = of_qspi_bytes (take 180 buf)"
  let ?t = "s\<lparr>bus := bus s @ map (chan_wr b chan) (qspi_writes q)\<rparr>"
  have "fst ` set (qspi_writes q) \<subseteq> {r. r < CHBASEADDR}"
    using qspi_regs_in_block fst_qspi_writes [of q] by (metis mem_Collect_eq set_map subsetI)
  then have "touches (chan_block b chan) chan s ?t"
    by (intro touches_bus) (auto simp: chan_wr_def intro!: chan_reg_in_block)
  moreover have "confined (chan_block b chan) chan ?t (sf_update chan (\<lambda>_. sf_of_qspi q) ?t)"
    by (rule confined_sf_update)
  ultimately show ?thesis
    using touches_trans by (auto simp: confined_def disperse_state Let_def q_def [symmetric])
qed

lemma confined_load [confined]: "confined (chan_block b chan) chan s (load_settings b chan buf s)"
proof -
  obtain buf' t where r: "QspiFlashRead b (chan * FLASH_SECTOR_SIZE) FLASH_PAGE_SIZE buf s = (buf', t)"
    by (cases "QspiFlashRead b (chan * FLASH_SECTOR_SIZE) FLASH_PAGE_SIZE buf s")
  then have "touches (chan_block b chan) chan s t"
    by (auto simp: QspiFlashRead_def split: prod.splits intro: touches_transfer)
  moreover have "confined (chan_block b chan) chan t (QspiDisperseData b chan buf' t)"
    by (rule confined_disperse)
  ultimately show ?thesis using touches_trans by (auto simp: load_settings_def r confined_def)
qed

lemma touches_save: "save_settings b h chan buf s = Ret (buf', t) \<Longrightarrow> touches A chan s t"
  using confined_erase [of A chan s b chan]
  by (auto simp: save_settings_def confined_def)
    (meson touches_trans touches_gather touches_flash_write)

lemma confined_write_qspi [confined]: "confined (chan_block b chan) chan s (write_qspi b h chan buf s)"
  unfolding write_qspi_def
  by (rule confined_bind_pair) (auto intro: touches_save confined)

lemma confined_groups:
  "chan_set_dac_adc b chan addr u s = Some r \<Longrightarrow> confined (chan_block b chan) chan s r"
  "chan_set_limits b chan addr u s = Some r \<Longrightarrow> confined (chan_block b chan) chan s r"
  "chan_set_misc b h stack chan addr u s = Some r \<Longrightarrow> confined (chan_block b chan) chan s r"
  unfolding chan_set_dac_adc_def chan_set_limits_def chan_set_misc_def
  by (auto simp: confined split: if_splits intro!: confined)

lemma confined_chan_set: "confined (chan_block b chan) chan s (chan_set b h stack chan addr u s)"
  using confined_groups by (auto simp: chan_set_def split: option.split)

lemma confined_chan_settings: "confined (chan_block b chan) chan s (chan_settings b h stack chan msg s)"
  unfolding chan_settings_def by (intro confined_bind_vals confined_chan_set)

text \<open>
  The global registers lie in the first block and, the software triggers, in the sixth, which
  belong to no channel.
\<close>

definition glob_area :: "board \<Rightarrow> u32 set" where
  "glob_area b = chan_block b 0 \<union> chan_block b 5"

lemma glob_reg_area:
  "r < CHBASEADDR \<Longrightarrow> glob_reg b r \<in> glob_area b"
  "5 * CHBASEADDR \<le> r \<Longrightarrow> r < 6 * CHBASEADDR \<Longrightarrow> glob_reg b r \<in> glob_area b"
proof -
  show "r < CHBASEADDR \<Longrightarrow> glob_reg b r \<in> glob_area b"
    by (auto simp: glob_area_def glob_reg_def chan_block_def chan_reg_def)
  assume r: "5 * CHBASEADDR \<le> r" "r < 6 * CHBASEADDR"
  then have "r - 5 * CHBASEADDR < CHBASEADDR" by (simp add: word_less_nat_alt word_le_nat_alt unat_sub)
  moreover have "glob_reg b r = chan_reg b 5 (r - 5 * CHBASEADDR)"
    by (simp add: glob_reg_def chan_reg_def)
  ultimately show "glob_reg b r \<in> glob_area b" by (simp add: glob_area_def)
qed

lemma glob_area_disjoint:
  assumes "1 \<le> c" "c \<le> 4" shows "glob_area b \<inter> chan_block b c = {}"
proof -
  have "c < 8" "c \<noteq> 0" "c \<noteq> 5" using assms by (auto simp: word_le_nat_alt word_less_nat_alt)
  then show ?thesis
    using chan_block_disjoint [of 0 c b] chan_block_disjoint [of 5 c b] by (auto simp: glob_area_def)
qed

lemma touches_glob_set: "touches (glob_area b) chan s (glob_set b addr u s)"
proof -
  have two: "touches (glob_area b) chan s (Xil_Out32 a 0 (Xil_Out32 a v s))" if "a \<in> glob_area b" for a v
    using that by (blast intro: touches_trans touches_Xil_Out32)
  show ?thesis
    unfolding glob_set_def soft_trig_def set_fpleds_def
    by (simp add: two touches_Xil_Out32 glob_reg_area)
qed

section \<open>What the longer operations do to the bus\<close>

lemma Calc_WriteSmooth_bus:
  assumes "Calc_WriteSmooth b chan v s = Ret s'"
  shows "\<exists>p. s' = s\<lparr>bus := bus s @ [Rd (chan_reg b chan DAC_CURRSETPT_REG),
    Wr (chan_reg b chan SMOOTH_PHASEINC_REG) p, Wr (chan_reg b chan DAC_SETPT_REG) v]\<rparr>"
  using assms
  by (auto simp: Calc_WriteSmooth_def Xil_In32_def Xil_Out32_def chan_out_def Let_def split: if_splits)

text \<open>The changes of mode the code handles.\<close>

definition handled_change :: "u32 \<Rightarrow> u32 \<Rightarrow> bool" where
  "handled_change old new \<longleftrightarrow>
     (old = SMOOTH \<or> old = RAMP) \<and> new = JUMP \<or> old = JUMP \<and> (new = SMOOTH \<or> new = RAMP)"

lemma Set_dacOpmode_bus:
  assumes "Set_dacOpmode b chan new s = Ret s'"
  shows "if handled_change (reg_answer b (bus s) (chan_reg b chan DAC_OPMODE_REG)) new
    then \<exists>p. s' = s\<lparr>bus := bus s @ [Rd (chan_reg b chan DAC_OPMODE_REG), Rd (chan_reg b chan DAC_CURRSETPT_REG),
        Wr (chan_reg b chan SMOOTH_PHASEINC_REG) p, Wr (chan_reg b chan DAC_SETPT_REG) 0,
        Wr (chan_reg b chan DAC_SETPT_REG) 0, Wr (chan_reg b chan DAC_OPMODE_REG) new]\<rparr>
    else s' = s\<lparr>bus := bus s @ [Rd (chan_reg b chan DAC_OPMODE_REG)]\<rparr>"
  using assms
  by (auto simp: Set_dacOpmode_def Xil_In32_def Xil_Out32_def chan_out_def handled_change_def Let_def
      dest!: Calc_WriteSmooth_bus split: if_splits)

lemma clamp_ramp_bounds:
  assumes "clamp_ramp res v = Ret w"
  shows "res = 1 \<Longrightarrow> \<bar>sint w\<bar> \<le> 2 ^ 20" "res = 0 \<Longrightarrow> \<bar>sint w\<bar> \<le> 2 ^ 18"
  using assms by (auto simp: clamp_ramp_def abs_s32_def split: if_splits)

lemma ramp_point_bus:
  assumes "ramp_point b chan msg res i s = Ret s'"
  shows "\<exists>w v d. ld32 msg i = Ret w \<and> dac_bits chan (htonl w) s = Ret v \<and> clamp_ramp res v = Ret d
    \<and> s' = s\<lparr>bus := bus s @ [Wr (chan_reg b chan DAC_RAMPADDR_REG) (word_of_nat i),
        Wr (chan_reg b chan DAC_RAMPDATA_REG) d]\<rparr>"
  using assms by (auto simp: ramp_point_def chan_out_def Xil_Out32_def)

lemma dac_bits_bus: "dac_bits chan f (s\<lparr>bus := x\<rparr>) = dac_bits chan f s"
  by (simp add: dac_bits_def sf_at_def)

text \<open>What the table's data word for point \<open>i\<close> of the message is.\<close>

definition ramp_word :: "u32 \<Rightarrow> u8 list \<Rightarrow> u32 \<Rightarrow> psc \<Rightarrow> nat \<Rightarrow> s32 run" where
  "ramp_word chan msg res s i =
     run_bind (ld32 msg i) (\<lambda>w. run_bind (dac_bits chan (htonl w) s) (clamp_ramp res))"

definition ramp_writes :: "board \<Rightarrow> u32 \<Rightarrow> (nat \<times> s32) list \<Rightarrow> io list" where
  "ramp_writes b chan ds = concat (map (\<lambda>(i, d).
     [Wr (chan_reg b chan DAC_RAMPADDR_REG) (word_of_nat i), Wr (chan_reg b chan DAC_RAMPDATA_REG) d]) ds)"

lemma ramp_fold_bus:
  "run_fold (ramp_point b chan msg res) is s = Ret s' \<Longrightarrow>
    \<exists>ds. length ds = length is \<and> (\<forall>(i, d) \<in> set (zip is ds). ramp_word chan msg res s i = Ret d)
      \<and> s' = s\<lparr>bus := bus s @ ramp_writes b chan (zip is ds)\<rparr>"
proof (induction "is" arbitrary: s)
  case Nil
  then show ?case by (simp add: ramp_writes_def)
next
  case (Cons i "is")
  then obtain s1 where s1: "ramp_point b chan msg res i s = Ret s1"
      "run_fold (ramp_point b chan msg res) is s1 = Ret s'" by auto
  from ramp_point_bus [OF s1(1)] obtain d where d: "ramp_word chan msg res s i = Ret d"
    "s1 = s\<lparr>bus := bus s @ [Wr (chan_reg b chan DAC_RAMPADDR_REG) (word_of_nat i),
        Wr (chan_reg b chan DAC_RAMPDATA_REG) d]\<rparr>"
    by (auto simp: ramp_word_def)
  from Cons.IH [OF s1(2)] obtain ds where ds: "length ds = length is"
    "\<forall>(i, d) \<in> set (zip is ds). ramp_word chan msg res s1 i = Ret d"
    "s' = s1\<lparr>bus := bus s1 @ ramp_writes b chan (zip is ds)\<rparr>" by blast
  have "ramp_word chan msg res s1 = ramp_word chan msg res s"
    by (rule ext) (simp add: ramp_word_def d(2) dac_bits_bus)
  with d ds show ?case
    by (intro exI [of _ "d # ds"]) (auto simp: ramp_writes_def)
qed

text \<open>The settings control.h names for a channel and the switch handles.\<close>

definition chan_msgs :: "u32 list" where
  "chan_msgs =
    [DAC_OPMODE_MSG, DAC_SETPT_MSG, DAC_RAMPLEN_MSG, DAC_RUNRAMP_MSG, DAC_SETPT_GAIN_MSG,
     DAC_SETPT_OFFSET_MSG, DCCT1_GAIN_MSG, DCCT1_OFFSET_MSG, DCCT2_GAIN_MSG, DCCT2_OFFSET_MSG,
     DACMON_GAIN_MSG, DACMON_OFFSET_MSG, VOLT_GAIN_MSG, VOLT_OFFSET_MSG, GND_GAIN_MSG,
     GND_OFFSET_MSG, SPARE_GAIN_MSG, SPARE_OFFSET_MSG, REG_GAIN_MSG, REG_OFFSET_MSG,
     ERR_GAIN_MSG, ERR_OFFSET_MSG, OVC1_THRESH_MSG, OVC2_THRESH_MSG, OVV_THRESH_MSG,
     ERR1_THRESH_MSG, ERR2_THRESH_MSG, IGND_THRESH_MSG, OVC1_CNTLIM_MSG, OVC2_CNTLIM_MSG,
     OVV_CNTLIM_MSG, ERR1_CNTLIM_MSG, ERR2_CNTLIM_MSG, IGND_CNTLIM_MSG, DCCT_CNTLIM_MSG,
     FLT1_CNTLIM_MSG, FLT2_CNTLIM_MSG, FLT3_CNTLIM_MSG, ON_CNTLIM_MSG, HEART_CNTLIM_MSG,
     FAULT_CLEAR_MSG, FAULT_MASK_MSG, DIGOUT_ON1_MSG, DIGOUT_ON2_MSG, DIGOUT_RESET_MSG,
     DIGOUT_SPARE_MSG, DIGOUT_PARK_MSG, SF_AMPS_PER_SEC_MSG, SF_DAC_DCCTS_MSG, SF_VOUT_MSG,
     SF_IGND_MSG, SF_SPARE_MSG, SF_REGULATOR_MSG, SF_ERROR_MSG, AVE_MODE_MSG, WRITE_QSPI_MSG,
     READ_QSPI_MSG, DUMP_ADCS_MSG, KP_MSG, KI_MSG, KD_MSG, DPID_ENB_MSG, DPID_PARK_MSG,
     DPID_IRESET_MSG, DPID_ILIMIT_MSG]"

lemma chan_set_unsupported: "addr \<notin> set chan_msgs \<Longrightarrow> chan_set b h stack chan addr u s = Ret s"
  by (simp add: chan_msgs_def chan_set_def chan_set_dac_adc_def chan_set_limits_def chan_set_misc_def)

section \<open>Properties\<close>

text \<open>
  A channel message acts on its channel alone: whatever the message, its operations on the
  bus write only registers of that channel's block, none of another channel's, and of the
  scale factors only that channel's entry can change.
\<close>

theorem chan_settings_isolated:
  assumes "chan_settings b header0 stack chan msg s = Ret s'" "chan < 8"
  shows "\<exists>evs. bus s' = bus s @ evs
    \<and> (\<forall>a v. Wr a v \<in> set evs \<longrightarrow> a \<in> chan_block b chan \<and> (\<forall>c < 8. c \<noteq> chan \<longrightarrow> a \<notin> chan_block b c))
    \<and> length (scalefactors s') = length (scalefactors s)
    \<and> (\<forall>i. i \<noteq> unat (chan - 1) \<longrightarrow> scalefactors s' ! i = scalefactors s ! i)"
proof -
  have "touches (chan_block b chan) chan s s'"
    using confined_chan_settings assms(1) unfolding confined_def by blast
  moreover have "a \<notin> chan_block b c" if "a \<in> chan_block b chan" "c < 8" "c \<noteq> chan" for a c
    using chan_block_disjoint [OF that(2) assms(2) that(3), of b] that(1) by blast
  ultimately show ?thesis unfolding touches_def by blast
qed

text \<open>The message that sets the fault mask of channel 3.\<close>

theorem chan_settings_isolated_witness:
  "case chan_settings sim_board 0 [] 3 (be32 FAULT_MASK_MSG @ be32 5) some_psc of
     Ret s' \<Rightarrow> \<exists>evs. bus s' = bus some_psc @ evs
       \<and> (\<forall>a v. Wr a v \<in> set evs \<longrightarrow> a \<in> chan_block sim_board 3 \<and> (\<forall>c < 8. c \<noteq> 3 \<longrightarrow> a \<notin> chan_block sim_board c))
       \<and> length (scalefactors s') = length (scalefactors some_psc)
       \<and> (\<forall>i. i \<noteq> unat ((3 :: u32) - 1) \<longrightarrow> scalefactors s' ! i = scalefactors some_psc ! i)
   | _ \<Rightarrow> False"
proof -
  obtain s' where r: "chan_settings sim_board 0 [] 3 (be32 FAULT_MASK_MSG @ be32 5) some_psc = Ret s'"
    by (simp add: chan_settings_def ld32_def be32.length_enc htonl_of_le32 be32.dec_enc chan_set_def
        chan_set_dac_adc_def chan_set_limits_def chan_set_misc_def chan_out_def)
  from chan_settings_isolated [OF r] show ?thesis unfolding r by simp
qed

text \<open>
  A global message never writes a channel's registers: its writes are in the block below
  the channels or in the block of the software triggers, and it changes nothing else.
\<close>

theorem glob_settings_isolated:
  assumes "glob_settings b msg s = Ret s'" "1 \<le> c" "c \<le> 4"
  shows "\<exists>evs. bus s' = bus s @ evs \<and> (\<forall>a v. Wr a v \<in> set evs \<longrightarrow> a \<notin> chan_block b c)
    \<and> scalefactors s' = scalefactors s"
proof -
  obtain addr u where s': "s' = glob_set b addr u s"
    using assms(1) by (auto simp: glob_settings_def)
  have "scalefactors (glob_set b addr u s) = scalefactors s"
    by (simp add: glob_set_def soft_trig_def set_fpleds_def)
  moreover obtain evs where "bus s' = bus s @ evs" "\<forall>a v. Wr a v \<in> set evs \<longrightarrow> a \<in> glob_area b"
    using touches_glob_set [of b 0 s addr u] by (auto simp: s' touches_def)
  ultimately show ?thesis using glob_area_disjoint [OF assms(2,3), of b] s' by blast
qed

theorem glob_settings_isolated_witness:
  "case glob_settings sim_board (be32 SOFT_TRIG_MSG @ be32 1) some_psc of
     Ret s' \<Rightarrow> \<exists>evs. bus s' = bus some_psc @ evs \<and> (\<forall>a v. Wr a v \<in> set evs \<longrightarrow> a \<notin> chan_block sim_board 4)
       \<and> scalefactors s' = scalefactors some_psc
   | _ \<Rightarrow> False"
proof -
  obtain s' where r: "glob_settings sim_board (be32 SOFT_TRIG_MSG @ be32 1) some_psc = Ret s'"
    by (simp add: glob_settings_def ld32_def be32.length_enc)
  from glob_settings_isolated [OF r, of 4] show ?thesis unfolding r by simp
qed

text \<open>
  C35. The mode of the DAC changes only by \<open>Set_dacOpmode\<close>'s two rules: between jump mode and
  smooth or ramp mode, in that order of operations a phase increment and setpoint 0 to bring
  the output to zero, setpoint 0 for the register, and then, with no wait for the ramp, the new
  mode. In every other case (the fast feedback mode, smooth to ramp, no change) nothing is
  written.
\<close>

theorem Set_dacOpmode_changes:
  assumes "Set_dacOpmode b chan new s = Ret s'"
    and "old = reg_answer b (bus s) (chan_reg b chan DAC_OPMODE_REG)"
  shows "\<exists>evs. bus s' = bus s @ Rd (chan_reg b chan DAC_OPMODE_REG) # evs
    \<and> (if handled_change old new
       then \<exists>p. evs = [Rd (chan_reg b chan DAC_CURRSETPT_REG),
         Wr (chan_reg b chan SMOOTH_PHASEINC_REG) p, Wr (chan_reg b chan DAC_SETPT_REG) 0,
         Wr (chan_reg b chan DAC_SETPT_REG) 0, Wr (chan_reg b chan DAC_OPMODE_REG) new]
       else evs = [])"
  using Set_dacOpmode_bus [OF assms(1)] assms(2) by (auto split: if_splits)

text \<open>A channel in smooth mode asked for ramp mode.\<close>

theorem Set_dacOpmode_changes_witness:
  "case Set_dacOpmode sim_board 2 RAMP some_psc of
     Ret s' \<Rightarrow> bus s' = [Rd (chan_reg sim_board 2 DAC_OPMODE_REG)]
   | _ \<Rightarrow> False"
proof -
  have smooth: "reg_answer sim_board (bus some_psc) (chan_reg sim_board 2 DAC_OPMODE_REG) = SMOOTH"
    by (simp add: sim_board_def last_write_def some_psc_def)
  obtain s' where r: "Set_dacOpmode sim_board 2 RAMP some_psc = Ret s'"
    using smooth by (simp add: Set_dacOpmode_def Xil_In32_def)
  from Set_dacOpmode_changes [OF r smooth [symmetric]]
  have "bus s' = [Rd (chan_reg sim_board 2 DAC_OPMODE_REG)]"
    by (simp add: handled_change_def some_psc_def)
  then show ?thesis by (simp add: r)
qed

text \<open>
  The voltage, error and ground-current thresholds fit the 16-bit comparators from above:
  such a message, when its conversion is defined, writes one register, with a value of at most
  32767.
\<close>

theorem thresholds_limited:
  assumes "addr \<in> {OVV_THRESH_MSG, ERR1_THRESH_MSG, ERR2_THRESH_MSG, IGND_THRESH_MSG}"
    and "chan_set b header0 stack chan addr u s = Ret s'"
  shows "\<exists>r v. s' = s\<lparr>bus := bus s @ [Wr (chan_reg b chan r) v]\<rparr>
    \<and> r \<in> {OVV_THRESH_REG, ERR1_THRESH_REG, ERR2_THRESH_REG, IGND_THRESH_REG} \<and> sint v \<le> 32767"
proof -
  obtain r k where r: "r \<in> {OVV_THRESH_REG, ERR1_THRESH_REG, ERR2_THRESH_REG, IGND_THRESH_REG}"
    and set: "set_thresh b chan r k u s = Ret s'"
    using assms by (auto simp: chan_set_def chan_set_dac_adc_def chan_set_limits_def) blast+
  obtain v where "s' = s\<lparr>bus := bus s @ [Wr (chan_reg b chan r) (clamp16 v)]\<rparr>"
    using set by (auto simp: set_thresh_def chan_out_def Xil_Out32_def)
  moreover have "sint (clamp16 v) \<le> 32767" by (simp add: clamp16_def)
  ultimately show ?thesis using r by blast
qed

text \<open>An overvoltage threshold of 40000 V with a scale of 2: far beyond 32767 counts.\<close>

theorem thresholds_limited_witness:
  "\<exists>r v. chan_set sim_board 0 [] 1 OVV_THRESH_MSG 0x471C4000 some_psc
      = Ret (some_psc\<lparr>bus := [Wr (chan_reg sim_board 1 r) v]\<rparr>)
    \<and> r \<in> {OVV_THRESH_REG, ERR1_THRESH_REG, ERR2_THRESH_REG, IGND_THRESH_REG} \<and> sint v \<le> 32767"
proof -
  have "f64_of_f32 0x471C4000 = 0x40E3880000000000" "CONVVOLTSTO16BITS = 0x40A999999999999A" "f64_of_f32 0x40000000 = 0x4000000000000000"
    "f64_mul 0x40E3880000000000 0x40A999999999999A = 0x419F400000000000" "f64_div 0x419F400000000000 0x4000000000000000 = 0x418F400000000000" "s32_of_f64 0x418F400000000000 = Ret 65536000"
    by (simp_all add: float_eval CONVVOLTSTO16BITS_def)
  then have "adc_bits 1 vout 0x471C4000 some_psc = Ret 65536000"
    by (simp add: adc_bits_def sf_at_def some_psc_def some_sf_def)
  then obtain s' where r: "chan_set sim_board 0 [] 1 OVV_THRESH_MSG 0x471C4000 some_psc = Ret s'"
    by (simp add: chan_set_def chan_set_dac_adc_def chan_set_limits_def set_thresh_def chan_out_def)
  from thresholds_limited [OF _ r] show ?thesis by (simp add: r some_psc_bus)
qed

text \<open>
  A message whose field is none of those of the switch has no effect at all.
\<close>

theorem unsupported_settings_ignored:
  assumes "ld32 msg 0 = Ret a" "ld32 msg 1 = Ret d" "htonl a \<notin> set chan_msgs"
  shows "chan_settings b header0 stack chan msg s = Ret s"
  using assms by (simp add: chan_settings_def chan_set_unsupported)

theorem unsupported_settings_ignored_witness:
  "chan_settings sim_board 0 [] 2 (be32 3 @ be32 5) some_psc = Ret some_psc"
  by (rule unsupported_settings_ignored [of _ "htonl 3" "htonl 5"])
    (simp_all add: ld32_def be32.length_enc chan_msgs_def htonl_def of_le32_def of_bytes4_def be32_def)

text \<open>
  C36. \<open>write_ramptable\<close>: more than 50000 points and nothing is written; otherwise the length,
  then address and data of every point in order, the data being the point in DAC bits limited
  to the resolution read from the gateware.
\<close>

theorem write_ramptable_writes:
  assumes r: "write_ramptable b chan msg msglen s = Ret s'" and n: "n = unat msglen div 4"
  shows "if 50000 < n then s' = s
    else \<exists>res ds. res = reg_answer b (bus s @ [Wr (chan_reg b chan DAC_RAMPLEN_REG) (word_of_nat n)]) (glob_reg b RESOLUTION_REG)
      \<and> length ds = n \<and> (\<forall>i < n. ramp_word chan msg res s i = Ret (ds ! i))
      \<and> bus s' = bus s @ [Wr (chan_reg b chan DAC_RAMPLEN_REG) (word_of_nat n), Rd (glob_reg b RESOLUTION_REG)]
          @ ramp_writes b chan (zip [0..<n] ds)
      \<and> (\<forall>d \<in> set ds. (res = 1 \<longrightarrow> \<bar>sint d\<bar> \<le> 2 ^ 20) \<and> (res = 0 \<longrightarrow> \<bar>sint d\<bar> \<le> 2 ^ 18))"
proof (cases "50000 < n")
  case True
  with r n show ?thesis by (auto simp: write_ramptable_def Let_def)
next
  case False
  define s0 where "s0 = s\<lparr>bus := bus s @ [Wr (chan_reg b chan DAC_RAMPLEN_REG) (word_of_nat n), Rd (glob_reg b RESOLUTION_REG)]\<rparr>"
  define res where "res = reg_answer b (bus s @ [Wr (chan_reg b chan DAC_RAMPLEN_REG) (word_of_nat n)]) (glob_reg b RESOLUTION_REG)"
  from r False have "run_fold (ramp_point b chan msg res) [0..<n] s0 = Ret s'"
    by (auto simp: write_ramptable_def Let_def chan_out_def Xil_Out32_def Xil_In32_def s0_def res_def n)
  from ramp_fold_bus [OF this] obtain ds where ds: "length ds = n"
    "\<forall>(i, d) \<in> set (zip [0..<n] ds). ramp_word chan msg res s0 i = Ret d"
    "s' = s0\<lparr>bus := bus s0 @ ramp_writes b chan (zip [0..<n] ds)\<rparr>" by auto
  have "ramp_word chan msg res s0 = ramp_word chan msg res s"
    by (rule ext) (simp add: ramp_word_def s0_def dac_bits_bus)
  then have points: "ramp_word chan msg res s i = Ret (ds ! i)" if "i < n" for i
    using ds(1,2) that by (force simp: set_zip)
  have "(res = 1 \<longrightarrow> \<bar>sint d\<bar> \<le> 2 ^ 20) \<and> (res = 0 \<longrightarrow> \<bar>sint d\<bar> \<le> 2 ^ 18)" if "d \<in> set ds" for d
    using that points clamp_ramp_bounds ds(1) by (fastforce simp: ramp_word_def in_set_conv_nth)
  with False ds points show ?thesis by (auto simp: s0_def res_def)
qed

theorem write_ramptable_writes_witness:
  "case write_ramptable sim_board 1 (be32 0x3F800000) 4 some_psc of
     Ret s' \<Rightarrow> \<exists>ds. length ds = 1 \<and> bus s' = [Wr (chan_reg sim_board 1 DAC_RAMPLEN_REG) 1,
       Rd (glob_reg sim_board RESOLUTION_REG)] @ ramp_writes sim_board 1 (zip [0..<1] ds)
   | _ \<Rightarrow> False"
proof -
  have w: "ld32 (be32 0x3F800000) 0 = Ret (htonl 0x3F800000)"
    by (simp add: ld32_def be32_def of_le32_def htonl_def)
  have "f32_mul 0x3F800000 0x474CCCCD = 0x474CCCCD" "f32_div 0x474CCCCD 0x41200000 = 0x45A3D70A"
    "s32_of_f32 0x45A3D70A = Ret 5242"
    by (simp_all add: float_eval)
  then have "dac_bits 1 0x3F800000 (some_psc\<lparr>bus := x\<rparr>) = Ret 5242" for x
    by (simp add: dac_bits_def sf_at_def some_psc_def some_sf_def)
  then have "\<exists>s'. write_ramptable sim_board 1 (be32 0x3F800000) 4 some_psc = Ret s'"
    using w by (simp add: write_ramptable_def read_points_def chan_out_def Let_def Xil_Out32_def Xil_In32_def
      ramp_point_def clamp_ramp_def abs_s32_def dac_bits_bus sf_at_def sim_board_def last_write_def some_psc_def glob_reg_def chan_reg_def)
  then obtain s' where r: "write_ramptable sim_board 1 (be32 0x3F800000) 4 some_psc = Ret s'" ..
  from write_ramptable_writes [OF r, of 1] show ?thesis by (auto simp: r some_psc_bus)
qed

end
