(* ===== verification/Setpoint.thy ===== *)
theory Setpoint
  imports Control Float_Real
begin

text \<open>
  The numerical side of control.c: whatever the client sends, the clamp in \<open>Set_dac\<close> keeps the
  setpoint inside the range of the DAC, shown by an error analysis of the float operations as
  the code has them.
\<close>

section \<open>Bounds through one rounding\<close>

lemma near_bounds:
  assumes "near p t y x" "lo \<le> x" "x \<le> hi" "lo \<le> 0" "0 \<le> hi" "0 \<le> t"
  shows "lo * (1 + 1 / 2 ^ p) - t \<le> y" "y \<le> hi * (1 + 1 / 2 ^ p) + t"
proof -
  define q :: real where "q = 1 / 2 ^ p"
  have q: "0 < q" "q \<le> 1" by (simp_all add: q_def)
  have e: "\<bar>y - x\<bar> \<le> \<bar>x\<bar> * q + t" using assms(1) by (simp add: near_def q_def)
  have m: "x * q \<le> hi * q" "lo * q \<le> x * q" "0 \<le> hi * q" "lo * q \<le> 0" "\<bar>x\<bar> * q \<le> \<bar>x\<bar>"
    using q assms by (auto intro: mult_right_mono mult_nonneg_nonneg mult_nonpos_nonneg mult_left_le)
  have y: "y - x \<le> \<bar>x\<bar> * q + t" "x - y \<le> \<bar>x\<bar> * q + t" using e by linarith+
  have "y \<le> hi + hi * q + t \<and> lo + lo * q - t \<le> y"
  proof (cases "0 \<le> x")
    case True
    with y m assms(2-6) show ?thesis unfolding abs_of_nonneg [OF True] by linarith
  next
    case False
    then have "\<bar>x\<bar> = - x" by simp
    with y m assms(2-6) False show ?thesis by (simp only: mult_minus_left) linarith
  qed
  then show "y \<le> hi * (1 + 1 / 2 ^ p) + t" "lo * (1 + 1 / 2 ^ p) - t \<le> y"
    by (simp_all add: q_def distrib_left)
qed

lemma sint_s32: "- (2 ^ 31) \<le> i \<Longrightarrow> i < 2 ^ 31 \<Longrightarrow> sint (word_of_int i :: s32) = i"
  by (simp add: signed_of_int signed_take_bit_int_eq_self)

text \<open>A finite float converts to an \<open>int\<close> when it is in range, towards zero.\<close>

lemma s32_of_f32_range:
  assumes "fin32 x" "- (N + 1) < val32 x" "val32 x < N" "0 < N" "N \<le> 2 ^ 31" "N = real_of_int n"
  shows "\<exists>v. s32_of_f32 x = Ret v \<and> - n \<le> sint v \<and> sint v < n"
proof -
  obtain i where i: "fv_trunc (dec32 x) = Some i"
    "0 \<le> val32 x \<Longrightarrow> i = \<lfloor>val32 x\<rfloor>" "val32 x \<le> 0 \<Longrightarrow> i = - \<lfloor>- val32 x\<rfloor>"
    using fv_trunc_real [of "dec32 x"] assms(1) unfolding fin32_def val32_def by metis
  have "real_of_int n \<le> real_of_int (2 ^ 31)" using assms(5,6) by simp
  then have n: "0 < n" "n \<le> 2 ^ 31" using assms(4,6) by (simp_all only: of_int_le_iff of_int_0_less_iff)
  have "- n \<le> i \<and> i < n"
  proof (cases "0 \<le> val32 x")
    case True
    with i(2) assms n show ?thesis by linarith
  next
    case False
    with i(3) assms n show ?thesis by linarith
  qed
  with i(1) n sint_s32 [of i] show ?thesis
    by (auto simp: s32_of_f32_def s32_of_fv_def)
qed

lemma fin32_bound:
  assumes "fin32 x" shows "\<bar>val32 x\<bar> < 2 ^ 128"
proof -
  obtain s m e where v: "dec32 x = FFin s m e"
    using assms unfolding fin32_def by (metis fv_finiteE)
  have "m < 2 ^ 24 \<and> e \<le> 104"
  proof -
    have fr: "unat x mod 8388608 < 8388608" "unat x div 8388608 mod 256 < 256" by simp_all
    with v show ?thesis
      by (auto simp: dec32_def decode_def single_def emin_def Let_def split: if_splits)
  qed
  then have m: "real m < 2 ^ 24" and e: "(2::real) powi e \<le> 2 powi 104"
    by (simp, intro power_int_increasing) simp_all
  have "\<bar>val32 x\<bar> = real m * 2 powi e"
    by (simp add: val32_def v abs_mult)
  also have "\<dots> \<le> real m * 2 powi 104" using e by (simp add: mult_left_mono)
  also have "\<dots> < 2 ^ 24 * 2 powi 104" using m by (simp add: mult_strict_right_mono)
  finally show ?thesis by simp
qed

section \<open>The clamp\<close>

lemma minus_ten: "fin32 (f32_of_int (- 10)) \<and> val32 (f32_of_int (- 10)) = - 10"
  by (simp add: fin32_def val32_def float_eval)

text \<open>A usable scale factor: positive, finite and not absurdly small or large.\<close>

definition sane_scale :: "f32 \<Rightarrow> bool" where
  "sane_scale D \<longleftrightarrow> fin32 D \<and> 1 / 2 ^ 60 \<le> val32 D \<and> val32 D \<le> 2 ^ 60"

lemma pows:
  "(2::real) ^ 20 = 1048576"
  "(2::real) ^ 21 = 2097152"
  "(2::real) ^ 22 = 4194304"
  "(2::real) ^ 23 = 8388608"
  "(2::real) ^ 24 = 16777216"
  "(2::real) ^ 50 = 1125899906842624"
  "(2::real) ^ 52 = 4503599627370496"
  "(2::real) ^ 53 = 9007199254740992"
  "(2::real) ^ 60 = 1152921504606846976"
  "(2::real) ^ 80 = 1208925819614629174706176"
  "(2::real) ^ 140 = 1393796574908163946345982392040522594123776"
  by simp_all

text \<open>The rounding errors below the normal range, named so that they are not computed with.\<close>

definition t32 :: real where "t32 = tiny32"
definition t64 :: real where "t64 = tiny64"

lemma tiny_bounds: "0 \<le> t32" "0 \<le> t64" "t32 \<le> 1 / 2 ^ 140" "t64 \<le> 1 / 2 ^ 140"
  by (simp_all add: t32_def t64_def power_int_minus field_simps)

lemma tiny_scaled:
  assumes "1 / 2 ^ 60 \<le> (d::real)"
  shows "t32 \<le> d / 2 ^ 80" "t64 \<le> d / 2 ^ 80" "0 \<le> d"
proof -
  have "(1 / 2 ^ 60) / 2 ^ 80 \<le> d / 2 ^ 80" using assms by (rule divide_right_mono) simp
  then show "t32 \<le> d / 2 ^ 80" "t64 \<le> d / 2 ^ 80" using tiny_bounds by simp_all
  show "0 \<le> d" using assms by (rule order_trans [rotated]) simp
qed

lemmas near_ops = f32_mul_near f32_div_near f64_mul_near f64_div_near f64_of_f32_near f32_of_f64_near f64_lit_near
lemmas near_ops' = near_ops [folded t32_def t64_def]

lemma high_bounds:
  assumes "sane_scale D"
  shows "fin64 (f64_mul (f64_lit 99999 10000) (f64_of_f32 D))"
    and "9999 / 1000 * val32 D \<le> val64 (f64_mul (f64_lit 99999 10000) (f64_of_f32 D))"
    and "val64 (f64_mul (f64_lit 99999 10000) (f64_of_f32 D)) \<le> 999993 / 100000 * val32 D"
proof -
  define d where "d = val32 D"
  have D: "fin32 D" "1 / 2 ^ 60 \<le> d" "d \<le> 2 ^ 60" using assms by (simp_all add: sane_scale_def d_def)
  note tiny = tiny_bounds tiny_scaled [OF D(2)]
  define l where "l = val64 (f64_lit 99999 10000)"
  define e where "e = val64 (f64_of_f32 D)"
  have lit: "fin64 (f64_lit 99999 10000)" "near 53 t64 l (99999 / 10000)"
    using f64_lit_near [of 10000 99999, folded t64_def l_def] by simp_all
  have "\<bar>val32 D\<bar> < 2 ^ 1023" using fin32_bound [OF D(1)] by simp
  note D64 = f64_of_f32_near [OF D(1) this, folded t64_def e_def d_def]
  have l: "\<bar>l - 99999 / 10000\<bar> \<le> 99999 / 10000 / 2 ^ 53 + t64" using lit(2) by (simp add: near_def)
  have e: "\<bar>e - d\<bar> \<le> d / 2 ^ 53 + t64" using D64 tiny by (simp add: near_def)
  have l': "99998 / 10000 \<le> l" "l \<le> 999991 / 100000" using l tiny(4) unfolding pows by linarith+
  have e': "99999 / 100000 * d \<le> e" "e \<le> 10000001 / 10000000 * d" using e tiny(6,7) unfolding pows by linarith+
  have le: "99991 / 10000 * d \<le> l * e" "0 \<le> l * e" "l * e \<le> 999992 / 100000 * d"
  proof -
    have "0 \<le> 99999 / 100000 * d" using tiny(7) by simp
    with e'(1) have e0: "0 \<le> e" by linarith
    have "l * e \<le> 999991 / 100000 * (10000001 / 10000000 * d)" using l' e' e0 by (intro mult_mono) simp_all
    then show "l * e \<le> 999992 / 100000 * d" using tiny(7) by linarith
    have "99998 / 10000 * (99999 / 100000 * d) \<le> l * e" using l' e' tiny(7) by (intro mult_mono) simp_all
    then show "99991 / 10000 * d \<le> l * e" using tiny(7) by linarith
    then show "0 \<le> l * e" using tiny(7) by linarith
  qed
  have "l * e \<le> 16 * 2 ^ 60" using le(3) D(3) unfolding pows by linarith
  then have "\<bar>l * e\<bar> < 2 ^ 1023" using le(2) by (intro le_less_trans [of "\<bar>l * e\<bar>" "16 * 2 ^ 60"]) simp_all
  note H = f64_mul_near [OF lit(1) conjunct1 [OF D64], folded l_def e_def t64_def, OF this]
  show "fin64 (f64_mul (f64_lit 99999 10000) (f64_of_f32 D))" using H by simp
  define h where "h = val64 (f64_mul (f64_lit 99999 10000) (f64_of_f32 D))"
  have h: "\<bar>h - l * e\<bar> \<le> l * e / 2 ^ 53 + t64" using H le(2) by (simp add: near_def h_def)
  have "9999 / 1000 * d \<le> h" "h \<le> 999993 / 100000 * d"
    using h le tiny(6,7) unfolding pows by linarith+
  then show "9999 / 1000 * val32 D \<le> val64 (f64_mul (f64_lit 99999 10000) (f64_of_f32 D))"
    "val64 (f64_mul (f64_lit 99999 10000) (f64_of_f32 D)) \<le> 999993 / 100000 * val32 D"
    by (simp_all add: h_def d_def)
qed

lemma clamp_bounds:
  assumes D: "sane_scale D" and a: "dec32 amps \<noteq> FNaN"
  shows "fin32 (clamp_amps D amps)
    \<and> - (10000001 / 1000000 * val32 D) \<le> val32 (clamp_amps D amps)
    \<and> val32 (clamp_amps D amps) \<le> 999994 / 100000 * val32 D"
proof -
  define d where "d = val32 D"
  define H where "H = f64_mul (f64_lit 99999 10000) (f64_of_f32 D)"
  define L where "L = f32_mul (f32_of_int (- 10)) D"
  have fD: "fin32 D" and d: "1 / 2 ^ 60 \<le> d" "d \<le> 2 ^ 60" using D by (simp_all add: sane_scale_def d_def)
  note tiny = tiny_bounds tiny_scaled [OF d(1)]
  note h = high_bounds [OF D, folded H_def d_def]
  have "\<bar>- 10 * d\<bar> \<le> 10 * 2 ^ 60" using d(2) tiny(7) by simp
  then have "\<bar>- 10 * d\<bar> < 2 ^ 127" by (rule le_less_trans) simp
  then have L: "fin32 L" "near 24 t32 (val32 L) (- 10 * d)"
    using f32_mul_near [OF conjunct1 [OF minus_ten] fD] minus_ten by (simp_all add: L_def d_def t32_def)
  have l: "\<bar>val32 L - - 10 * d\<bar> \<le> 10 * d / 2 ^ 24 + t32"
    using L(2) tiny(7) by (simp add: near_def)
  have l': "- (10000001 / 1000000 * d) \<le> val32 L" "val32 L \<le> 0"
    using l tiny(5,7) unfolding pows by linarith+
  consider (high) "f64_less H (f64_of_f32 amps)" "clamp_amps D amps = f32_of_f64 H"
    | (low) "clamp_amps D amps = L"
    | (ok) "\<not> f64_less H (f64_of_f32 amps)" "\<not> f32_less amps L" "clamp_amps D amps = amps"
  proof -
    have "clamp_amps D amps = (if f64_less H (f64_of_f32 amps) then f32_of_f64 H
        else if f32_less amps L then L else amps)"
      by (simp add: clamp_amps_def H_def L_def Let_def)
    then show thesis using that by metis
  qed
  then show ?thesis
  proof cases
    case high
    have "\<bar>val64 H\<bar> \<le> 16 * 2 ^ 60" using h(2,3) d(2) tiny(7) unfolding pows by linarith
    then have "\<bar>val64 H\<bar> < 2 ^ 127" by (rule le_less_trans) simp
    note A = f32_of_f64_near [OF h(1) this, folded t32_def]
    have "\<bar>val32 (f32_of_f64 H) - val64 H\<bar> \<le> \<bar>val64 H\<bar> / 2 ^ 24 + t32" using A by (simp add: near_def)
    then have "- (10000001 / 1000000 * d) \<le> val32 (f32_of_f64 H)" "val32 (f32_of_f64 H) \<le> 999994 / 100000 * d"
      using h(2,3) tiny(5,7) unfolding pows by linarith+
    with A high show ?thesis by (simp add: d_def)
  next
    case low
    with L l' tiny(7) show ?thesis by (simp add: d_def)
  next
    case ok
    have fin: "fin32 amps"
    proof (cases "dec32 amps")
      case (FInf s)
      obtain t k f where L': "dec32 L = FFin t k f" using L(1) unfolding fin32_def by (metis fv_finiteE)
      obtain t' k' f' where H': "dec64 H = FFin t' k' f'" using h(1) unfolding fin64_def by (metis fv_finiteE)
      have "dec64 (f64_of_f32 amps) = FInf s"
        by (simp add: f64_of_f32_def FInf, cases s) (simp_all add: enc64_def dec64_def encode_def decode_def dbl_def Let_def)
      with ok L' H' FInf show ?thesis by (cases s) (simp_all add: f32_less_def f64_less_def)
    qed (use a in \<open>simp_all add: fin32_def\<close>)
    have "\<bar>val32 amps\<bar> < 2 ^ 1023" using fin32_bound [OF fin] by simp
    note A = f64_of_f32_near [OF fin this, folded t64_def]
    have "val64 (f64_of_f32 amps) \<le> val64 H" using ok(1) f64_less_val [OF h(1) conjunct1 [OF A]] by simp
    moreover have "\<bar>val64 (f64_of_f32 amps) - val32 amps\<bar> \<le> \<bar>val32 amps\<bar> / 2 ^ 53 + t64" using A by (simp add: near_def)
    ultimately have "val32 amps \<le> 999994 / 100000 * d"
      using h(3) tiny(6,7) unfolding pows by linarith
    moreover have "val32 L \<le> val32 amps" using ok(2) f32_less_val [OF fin L(1)] by simp
    ultimately show ?thesis using ok fin l' by (simp add: d_def)
  qed
qed

text \<open>A current well within the range is not clamped.\<close>

lemma clamp_inside:
  assumes D: "sane_scale D" and a: "fin32 amps" "\<bar>val32 amps\<bar> \<le> 999 / 100 * val32 D"
  shows "clamp_amps D amps = amps"
proof -
  define d where "d = val32 D"
  define x where "x = val32 amps"
  define H where "H = f64_mul (f64_lit 99999 10000) (f64_of_f32 D)"
  define L where "L = f32_mul (f32_of_int (- 10)) D"
  have fD: "fin32 D" and d: "1 / 2 ^ 60 \<le> d" "d \<le> 2 ^ 60" using D by (simp_all add: sane_scale_def d_def)
  note tiny = tiny_bounds tiny_scaled [OF d(1)]
  note h = high_bounds [OF D, folded H_def d_def]
  have x: "\<bar>x\<bar> \<le> 999 / 100 * d" using a(2) by (simp add: x_def d_def)
  have "\<bar>- 10 * d\<bar> \<le> 10 * 2 ^ 60" using d(2) tiny(7) by simp
  then have "\<bar>- 10 * d\<bar> < 2 ^ 127" by (rule le_less_trans) simp
  then have L: "fin32 L" "near 24 t32 (val32 L) (- 10 * d)"
    using f32_mul_near [OF conjunct1 [OF minus_ten] fD] minus_ten by (simp_all add: L_def d_def t32_def)
  have "\<bar>val32 L - - 10 * d\<bar> \<le> 10 * d / 2 ^ 24 + t32" using L(2) tiny(7) by (simp add: near_def)
  then have low: "val32 L \<le> x" using x tiny(5,7) unfolding pows by linarith
  have "\<bar>val32 amps\<bar> < 2 ^ 1023" using fin32_bound [OF a(1)] by simp
  note A = f64_of_f32_near [OF a(1) this, folded t64_def x_def]
  have "\<bar>val64 (f64_of_f32 amps) - x\<bar> \<le> \<bar>x\<bar> / 2 ^ 53 + t64" using A by (simp add: near_def)
  then have "val64 (f64_of_f32 amps) \<le> val64 H" using h(2) x tiny(6,7) unfolding pows by linarith
  then have "\<not> f64_less H (f64_of_f32 amps)" using f64_less_val [OF h(1) conjunct1 [OF A]] by simp
  moreover have "\<not> f32_less amps L" using low f32_less_val [OF a(1) L(1)] by (simp add: x_def)
  ultimately show ?thesis by (simp add: clamp_amps_def Let_def H_def [symmetric] L_def [symmetric])
qed

text \<open>From clamped amps to DAC bits, for a conversion factor of \<open>N\<close> bits per 10 V.\<close>

lemma bits_bounds:
  assumes D: "sane_scale D" and A: "fin32 A" "- (10000001 / 1000000 * val32 D) \<le> val32 A"
      "val32 A \<le> 999994 / 100000 * val32 D"
    and C: "fin32 conv" "0 < val32 conv" "val32 conv \<le> N / 10 * (10000001 / 10000000)"
    and N: "N = real_of_int n" "1000 \<le> n" "n \<le> 2 ^ 19"
  shows "\<exists>v. s32_of_f32 (f32_div (f32_mul A conv) D) = Ret v \<and> - n \<le> sint v \<and> sint v < n"
proof -
  define d where "d = val32 D"
  define c where "c = val32 conv"
  define p where "p = val32 (f32_mul A conv)"
  have fD: "fin32 D" and d: "1 / 2 ^ 60 \<le> d" "d \<le> 2 ^ 60" using D by (simp_all add: sane_scale_def d_def)
  note tiny = tiny_bounds tiny_scaled [OF d(1)]
  have d0: "0 < d" using d(1) by (rule less_le_trans [rotated]) simp
  have N': "1000 \<le> N" "N \<le> 524288" using N by simp_all
  have c: "0 < c" "c \<le> N / 10 * (10000001 / 10000000)" "c \<le> 60000"
    using C N' by (simp_all add: c_def)
  have nd: "c * d \<le> N / 10 * (10000001 / 10000000) * d" "0 < N * d" "0 < c * d"
    using c d0 N' by (simp_all add: mult_right_mono)
  have "val32 A * c \<le> 999994 / 100000 * d * c" "- (10000001 / 1000000 * d) * c \<le> val32 A * c"
    using A(2,3) c(1) by (simp_all only: d_def mult_right_mono less_imp_le)
  then have ac: "val32 A * c \<le> 999994 / 100000 * (c * d)" "- (10000001 / 1000000 * (c * d)) \<le> val32 A * c"
    by (simp_all add: mult.commute mult.left_commute)
  have nd': "c * d \<le> 10000001 / 100000000 * (N * d)" using nd(1) by simp
  have hi: "val32 A * c \<le> 999995 / 1000000 * (N * d)"
    and lo: "- (10000003 / 10000000 * (N * d)) \<le> val32 A * c"
    using ac nd' nd(2,3) by linarith+
  have "N * d \<le> 524288 * 2 ^ 60" using N' d d0 by (intro mult_mono) simp_all
  then have "\<bar>val32 A * c\<bar> \<le> 2 * (524288 * 2 ^ 60)" using hi lo nd(2) by linarith
  then have "\<bar>val32 A * c\<bar> < 2 ^ 127" by (rule le_less_trans) simp
  note P = f32_mul_near [OF A(1) C(1), folded c_def t32_def p_def, OF this]
  have p: "\<bar>p - val32 A * c\<bar> \<le> \<bar>val32 A * c\<bar> / 2 ^ 24 + t32" using P by (simp add: near_def)
  have "p \<le> 999996 / 1000000 * (N * d) + d / 2 ^ 80" "- (10000004 / 10000000 * (N * d) + d / 2 ^ 80) \<le> p"
    using p hi lo nd(2) tiny(5) unfolding pows by linarith+
  then have "p \<le> (999996 / 1000000 * N + 1 / 2 ^ 80) * d" "- (10000004 / 10000000 * N + 1 / 2 ^ 80) * d \<le> p"
    by (simp_all add: algebra_simps)
  then have pd: "p / d \<le> 999996 / 1000000 * N + 1 / 2 ^ 80" "- (10000004 / 10000000 * N + 1 / 2 ^ 80) \<le> p / d"
    using d0 by (simp_all only: pos_divide_le_eq pos_le_divide_eq)
  define q where "q = val32 (f32_div (f32_mul A conv) D)"
  have "\<bar>p / d\<bar> \<le> 2 ^ 60" using pd N' unfolding pows by linarith
  then have "\<bar>p / d\<bar> < 2 ^ 127" by (rule le_less_trans) simp
  note Q = f32_div_near [OF conjunct1 [OF P] fD, folded p_def d_def t32_def q_def, OF less_imp_neq [OF d0, symmetric] this]
  define r where "r = p / d"
  have r: "r \<le> 999996 / 1000000 * N + 1 / 2 ^ 80" "- (10000004 / 10000000 * N + 1 / 2 ^ 80) \<le> r"
    using pd by (simp_all only: r_def)
  have qr: "\<bar>q - r\<bar> \<le> \<bar>r\<bar> / 2 ^ 24 + t32" using Q by (simp add: near_def r_def)
  have "\<bar>r\<bar> \<le> 10000004 / 10000000 * N + 1 / 2 ^ 80" using r N'(1) by linarith
  then have "\<bar>r\<bar> / 2 ^ 24 \<le> N * (7 / 100000000)" using N'(1) unfolding pows by linarith
  then have e: "\<bar>q - r\<bar> \<le> N * (7 / 100000000) + 1 / 2 ^ 80" using qr tiny(3) unfolding pows by linarith
  have "q \<le> r + (N * (7 / 100000000) + 1 / 2 ^ 80)" "r - (N * (7 / 100000000) + 1 / 2 ^ 80) \<le> q"
    using e by linarith+
  then have "- (N + 1) < q" "q < N" using r N' unfolding pows by linarith+
  then show ?thesis
    using s32_of_f32_range [OF conjunct1 [OF Q], folded q_def, of N n] N N' by simp
qed

text \<open>The two values the conversion factor takes (\<open>mshsSelect\<close>): 20 bits, or 18, for 20 V.\<close>

lemma conv_values:
  "f32_of_f64 CONVVOLTSTO20BITS = 0x474CCCCD" "f32_of_f64 CONVVOLTSTO18BITS = 0x464CCCCD"
  by (simp_all add: CONVVOLTSTO20BITS_def CONVVOLTSTO18BITS_def float_eval)

lemma conv_bounds:
  "fin32 0x474CCCCD" "0 < val32 0x474CCCCD" "val32 0x474CCCCD \<le> 524288 / 10 * (10000001 / 10000000)"
  "fin32 0x464CCCCD" "0 < val32 0x464CCCCD" "val32 0x464CCCCD \<le> 131072 / 10 * (10000001 / 10000000)"
  by (simp_all add: fin32_def val32_def dec32_def decode_def single_def emin_def Let_def power_int_minus)

lemma setpt_bits:
  assumes D: "sane_scale D" and amps: "dec32 amps \<noteq> FNaN"
    and conv: "conv = f32_of_f64 CONVVOLTSTO20BITS \<and> n = 2 ^ 19 \<or> conv = f32_of_f64 CONVVOLTSTO18BITS \<and> n = 2 ^ 17"
  shows "\<exists>v. s32_of_f32 (f32_div (f32_mul (clamp_amps D amps) conv) D) = Ret v \<and> - n \<le> sint v \<and> sint v < n"
proof -
  have A: "fin32 (clamp_amps D amps)" "- (10000001 / 1000000 * val32 D) \<le> val32 (clamp_amps D amps)"
      "val32 (clamp_amps D amps) \<le> 999994 / 100000 * val32 D"
    using clamp_bounds [OF D amps] by simp_all
  show ?thesis
    using conv bits_bounds [OF D A conv_bounds(1-3), of "2 ^ 19"] bits_bounds [OF D A conv_bounds(4-6), of "2 ^ 17"]
    by (auto simp: conv_values)
qed

section \<open>A ramp of no length\<close>

lemma zero_float:
  "dec32 (enc32 (FFin t 0 (- 149))) = FFin t 0 (- 149)" "dec64 (enc64 (FFin t 0 (- 1074))) = FFin t 0 (- 1074)"
  by (cases t; simp add: enc32_def dec32_def enc64_def dec64_def encode_def decode_def single_def dbl_def
      emin_def Let_def)+

lemma ramp_samples_zero:
  assumes "fin32 rate" "val32 rate \<noteq> 0"
  shows "ramp_samples 0 rate = Ret 0"
proof -
  obtain t k f where r: "dec32 rate = FFin t k f" "k \<noteq> 0"
    using assms unfolding fin32_def val32_def by (cases "dec32 rate") auto
  have z: "dec32 (f32_of_int 0) = FFin False 0 (- 149)"
    using zero_float(1) [of False] by (simp add: f32_of_int_def fv_of_int_def fround_def single_consts)
  have "dec32 (f32_div (f32_of_int 0) rate) = FFin t 0 (- 149)"
    using zero_float(1) [of t] r by (simp add: f32_div_def z fround_def single_consts)
  then have "dec64 (f64_of_f32 (f32_div (f32_of_int 0) rate)) = FFin t 0 (- 1074)"
    using zero_float(2) [of t] by (simp add: f64_of_f32_def fround_def dbl_consts)
  moreover obtain m e where "dec64 SAMPLERATE = FFin False m e"
    by (simp add: SAMPLERATE_def float_eval)
  ultimately have "dec64 (f64_mul (f64_of_f32 (f32_div (f32_of_int 0) rate)) SAMPLERATE) = FFin t 0 (- 1074)"
    using zero_float(2) [of t] by (simp add: f64_mul_def fround_def dbl_consts)
  then show ?thesis
    by (simp add: ramp_samples_def u32_of_f64_def u32_of_fv_def)
qed

lemma smooth_zero:
  assumes sf: "sf_at chan s = Ret sf" and "rate = ramp_rate sf (CONVVOLTSTODACBITS s)" "fin32 rate" "val32 rate \<noteq> 0"
    and cur: "reg_answer b (bus s) (chan_reg b chan DAC_CURRSETPT_REG) = new_setpt"
  shows "Calc_WriteSmooth b chan new_setpt s = Undef Div_By_Zero"
proof -
  have "sf_at chan (s\<lparr>bus := x\<rparr>) = Ret sf" for x using sf by (simp add: sf_at_def split: if_splits)
  with assms ramp_samples_zero [OF assms(3,4)] show ?thesis
    by (simp add: Calc_WriteSmooth_def Xil_In32_def abs_diff_def Let_def)
qed

section \<open>Properties\<close>

text \<open>
  C27. No setpoint leaves the range of the DAC: in jump mode, with a usable scale factor and
  either resolution, \<open>Set_dac\<close> writes for every float but a NaN, infinities included, one value
  of the setpoint register, and it lies within \<open>n\<close> counts, that is \<open>\<plusminus>2\<^sup>19\<close> or \<open>\<plusminus>2\<^sup>17\<close>.
\<close>

theorem Set_dac_in_range:
  assumes sf: "sf_at chan s = Ret sf" "sane_scale (dac_dccts sf)" and amps: "dec32 amps \<noteq> FNaN"
    and conv: "CONVVOLTSTODACBITS s = f32_of_f64 CONVVOLTSTO20BITS \<and> n = 2 ^ 19
      \<or> CONVVOLTSTODACBITS s = f32_of_f64 CONVVOLTSTO18BITS \<and> n = 2 ^ 17"
    and mode: "reg_answer b (bus s) (chan_reg b chan DAC_OPMODE_REG) = JUMP"
  shows "\<exists>v. Set_dac b chan amps s = Ret (s\<lparr>bus := bus s @ [Rd (chan_reg b chan DAC_OPMODE_REG),
      Wr (chan_reg b chan DAC_SETPT_REG) v]\<rparr>) \<and> - n \<le> sint v \<and> sint v < n"
proof -
  let ?A = "clamp_amps (dac_dccts sf) amps"
  obtain v where v: "s32_of_f32 (f32_div (f32_mul ?A (CONVVOLTSTODACBITS s)) (dac_dccts sf)) = Ret v"
      "- n \<le> sint v" "sint v < n"
    using setpt_bits [OF sf(2) amps conv] by blast
  have "sf_at chan (s\<lparr>bus := x\<rparr>) = Ret sf" for x using sf(1) by (simp add: sf_at_def split: if_splits)
  with v mode show ?thesis
    by (intro exI [of _ v]) (simp add: Set_dac_def Xil_In32_def dac_bits_def chan_out_def Xil_Out32_def)
qed

text \<open>An infinite setpoint on a board in jump mode, 10 A per volt.\<close>

definition jump_psc :: psc where
  "jump_psc = some_psc\<lparr>bus := [Wr (chan_reg sim_board 2 DAC_OPMODE_REG) JUMP]\<rparr>"

lemma jump_psc_facts:
  "sf_at 2 jump_psc = Ret some_sf" "sane_scale (dac_dccts some_sf)" "dec32 0x7F800000 \<noteq> FNaN"
  "CONVVOLTSTODACBITS jump_psc = f32_of_f64 CONVVOLTSTO20BITS"
  "reg_answer sim_board (bus jump_psc) (chan_reg sim_board 2 DAC_OPMODE_REG) = JUMP"
proof -
  show "sf_at 2 jump_psc = Ret some_sf" by (simp add: jump_psc_def sf_at_def some_psc_def numeral_eq_Suc)
  show "sane_scale (dac_dccts some_sf)"
    by (simp add: sane_scale_def some_sf_def fin32_def val32_def dec32_def decode_def single_def emin_def Let_def power_int_minus)
  show "dec32 0x7F800000 \<noteq> FNaN" by (simp add: dec32_def decode_def single_def Let_def)
  show "CONVVOLTSTODACBITS jump_psc = f32_of_f64 CONVVOLTSTO20BITS"
    by (simp add: jump_psc_def some_psc_def conv_values)
  show "reg_answer sim_board (bus jump_psc) (chan_reg sim_board 2 DAC_OPMODE_REG) = JUMP"
    by (simp add: jump_psc_def sim_board_def last_write_def)
qed

theorem Set_dac_in_range_witness:
  "\<exists>v. Set_dac sim_board 2 0x7F800000 jump_psc = Ret (jump_psc\<lparr>bus := bus jump_psc @
      [Rd (chan_reg sim_board 2 DAC_OPMODE_REG), Wr (chan_reg sim_board 2 DAC_SETPT_REG) v]\<rparr>)
    \<and> - (2 ^ 19) \<le> sint v \<and> sint v < 2 ^ 19"
  by (rule Set_dac_in_range [OF jump_psc_facts(1-3) _ jump_psc_facts(5)]) (use jump_psc_facts(4) in simp)

text \<open>
  C37. \<open>Calc_WriteSmooth\<close> divides by zero when there is nowhere to go: with any ramp rate that is
  a nonzero number, a setpoint equal to the present one makes a ramp of zero samples, by which
  \<open>CORDIC_INIT_PHASE\<close> is divided.
\<close>

theorem smooth_to_same_setpoint:
  assumes sf: "sf_at chan s = Ret sf" and "rate = ramp_rate sf (CONVVOLTSTODACBITS s)" "fin32 rate" "val32 rate \<noteq> 0"
    and cur: "reg_answer b (bus s) (chan_reg b chan DAC_CURRSETPT_REG) = new_setpt"
  shows "Calc_WriteSmooth b chan new_setpt s = Undef Div_By_Zero"
  by (rule smooth_zero [OF assms])

lemma some_rate:
  "ramp_rate some_sf (CONVVOLTSTODACBITS some_psc) = 0x45A3D70B \<and> fin32 0x45A3D70B \<and> val32 0x45A3D70B \<noteq> 0"
proof -
  have "f32_div 0x3F800000 0x41200000 = 0x3DCCCCCD" "f32_mul 0x3DCCCCCD 0x474CCCCD = 0x45A3D70B"
    by (simp_all add: float_eval)
  then show ?thesis
    by (simp add: ramp_rate_def some_sf_def some_psc_def fin32_def val32_def dec32_def decode_def single_def
      emin_def Let_def power_int_minus)
qed

theorem smooth_to_same_setpoint_witness:
  "Calc_WriteSmooth sim_board 2 0 some_psc = Undef Div_By_Zero"
  by (rule smooth_to_same_setpoint [OF some_psc_sf refl])
    (use some_rate in \<open>simp_all add: sim_board_def last_write_def some_psc_bus\<close>)

text \<open>
  So a change of mode with the output already at zero is not made: from smooth or ramp mode
  to jump mode, or back, \<open>Set_dacOpmode\<close> runs into the same division before it writes the mode.
\<close>

theorem opmode_change_at_zero:
  assumes sf: "sf_at chan s = Ret sf" and rate: "rate = ramp_rate sf (CONVVOLTSTODACBITS s)" "fin32 rate" "val32 rate \<noteq> 0"
    and "handled_change (reg_answer b (bus s) (chan_reg b chan DAC_OPMODE_REG)) new"
    and cur: "reg_answer b (bus s @ [Rd (chan_reg b chan DAC_OPMODE_REG)]) (chan_reg b chan DAC_CURRSETPT_REG) = 0"
  shows "Set_dacOpmode b chan new s = Undef Div_By_Zero"
proof -
  let ?s = "s\<lparr>bus := bus s @ [Rd (chan_reg b chan DAC_OPMODE_REG)]\<rparr>"
  have sf': "sf_at chan ?s = Ret sf" using sf by (simp add: sf_at_def split: if_splits)
  have "rate = ramp_rate sf (CONVVOLTSTODACBITS ?s)" using rate(1) by simp
  note smooth = smooth_zero [OF sf' this rate(2,3), of b 0]
  with cur assms(5) show ?thesis
    by (auto simp: Set_dacOpmode_def Xil_In32_def handled_change_def)
qed

theorem opmode_change_at_zero_witness:
  "Set_dacOpmode sim_board 2 JUMP some_psc = Undef Div_By_Zero"
  by (rule opmode_change_at_zero [OF some_psc_sf refl])
    (use some_rate in \<open>simp_all add: sim_board_def last_write_def some_psc_bus handled_change_def\<close>)

text \<open>
  Negative gains cannot be set: the product is converted to an unsigned integer, which is
  undefined for every finite gain of -1 or less, although the gain registers are stored as
  signed numbers (\<open>QspiData\<close>).
\<close>

theorem negative_gain_undefined:
  assumes f: "fin32 f" "val32 f \<le> - 1"
  shows "set_gain b chan r f s = Undef Float_To_Int"
proof -
  have "\<bar>val32 f\<bar> < 2 ^ 1023" using fin32_bound [OF f(1)] by simp
  note F = f64_of_f32_near [OF f(1) this, folded t64_def]
  define y where "y = val64 (f64_of_f32 f)"
  have y: "\<bar>y - val32 f\<bar> \<le> \<bar>val32 f\<bar> / 2 ^ 53 + t64" using F by (simp add: near_def y_def)
  have y1: "y \<le> - (1 / 2)"
    using y f(2) tiny_bounds(4) unfolding pows by linarith
  have "\<bar>y\<bar> \<le> 2 * \<bar>val32 f\<bar> + 1"
    using y tiny_bounds(4) unfolding pows by linarith
  also have "\<dots> < 2 * 2 ^ 128 + 1" using fin32_bound [OF f(1)] by simp
  finally have y2: "\<bar>y\<bar> < 2 ^ 130" by simp
  note yb = y1 y2
  have g: "fin64 GAIN20BITFRACT" "val64 GAIN20BITFRACT = 1048575"
    by (simp_all add: fin64_def val64_def GAIN20BITFRACT_def float_eval power_int_minus)
  have "\<bar>y * 1048575\<bar> < 2 ^ 1023" using yb(2) by (simp add: abs_mult)
  then have M: "fin64 (f64_mul (f64_of_f32 f) GAIN20BITFRACT)"
      "near 53 t64 (val64 (f64_mul (f64_of_f32 f) GAIN20BITFRACT)) (y * 1048575)"
    using f64_mul_near [OF conjunct1 [OF F] g(1)] g(2) by (simp_all add: y_def t64_def)
  define z where "z = val64 (f64_mul (f64_of_f32 f) GAIN20BITFRACT)"
  have "\<bar>z - y * 1048575\<bar> \<le> \<bar>y * 1048575\<bar> / 2 ^ 53 + t64" using M(2) by (simp add: near_def z_def)
  then have "z \<le> - 1" using yb(1) tiny_bounds(4) unfolding pows by linarith
  moreover obtain i where "fv_trunc (dec64 (f64_mul (f64_of_f32 f) GAIN20BITFRACT)) = Some i"
    "z \<le> 0 \<Longrightarrow> i = - \<lfloor>- z\<rfloor>"
    using fv_trunc_real M(1) unfolding fin64_def z_def val64_def by metis
  ultimately have "fv_trunc (dec64 (f64_mul (f64_of_f32 f) GAIN20BITFRACT)) = Some i" "i < 0" by linarith+
  then show ?thesis by (simp add: set_gain_def u32_of_f64_def u32_of_fv_def)
qed

theorem negative_gain_undefined_witness:
  "set_gain sim_board 1 DAC_SETPT_GAIN_REG 0xBF800000 some_psc = Undef Float_To_Int"
  by (rule negative_gain_undefined)
    (simp_all add: fin32_def val32_def dec32_def decode_def single_def emin_def Let_def power_int_minus)

end
