(* ===== verification/App_Main.thy ===== *)
theory App_Main
  imports Control Listener
begin

text \<open>
  main.c: the callbacks that connect the server to the settings (\<open>client_event\<close>, \<open>client_msg\<close>),
  and what is written to the hardware at start-up (\<open>main\<close>, \<open>InitSettingsfromQspi\<close>). The
  properties span the components: what a client can reach, what a byte stream does to the
  board, and what a power cycle keeps.
\<close>

section \<open>The callbacks\<close>

text \<open>
  \<open>git_hash\<close> is the global variable of main.c. The greeting is the struct of the two words, in
  the byte order of the memory.
\<close>

definition client_event ::
    "'w net \<Rightarrow> u32 \<Rightarrow> psc_event \<Rightarrow> nat \<Rightarrow> ('w, 'a) server \<Rightarrow> ('w, 'a) server run" where
  "client_event n git_hash evt i srv =
     (if evt \<noteq> PSC_CONN then Ret srv
      else case psc_send_one n i 0x100 (mem_words [htonl git_hash, 0]) (skey srv, world srv) of
        (key, w) \<Rightarrow> Ret (srv\<lparr>skey := key, world := w\<rparr>))"

text \<open>
  \<open>junk\<close>: what the uninitialised locals of \<open>chan_settings\<close> hold when it is called, the header
  of the settings record and the page buffer.
\<close>

definition client_msg ::
    "board \<Rightarrow> (psc \<Rightarrow> u32 \<times> u8 list) \<Rightarrow> u16 \<Rightarrow> u32 \<Rightarrow> u8 list \<Rightarrow> psc \<Rightarrow> psc run" where
  "client_msg b junk msgid msglen msg s =
     (let s = Xil_Out32 (glob_reg b IOC_ACCESS_REG) 1 s;
          s = Xil_Out32 (glob_reg b IOC_ACCESS_REG) 0 s
      in if msgid = 0 then glob_settings b msg s
         else if msgid = 1 \<or> msgid = 2 \<or> msgid = 3 \<or> msgid = 4
         then (case junk s of (header0, stack) \<Rightarrow> chan_settings b header0 stack (ucast msgid) msg s)
         else if msgid = 101 then write_ramptable b 1 msg msglen s
         else Ret s)"

text \<open>The configuration \<open>realmain\<close> starts the server with.\<close>

definition realmain_conf ::
    "'w net \<Rightarrow> board \<Rightarrow> (psc \<Rightarrow> u32 \<times> u8 list) \<Rightarrow> u32 \<Rightarrow> ('w, psc) psc_config" where
  "realmain_conf n b junk git_hash =
     \<lparr>port = 3000, conn = client_event n git_hash,
      recv = (\<lambda>i msgid msglen msg srv.
        run_bind (client_msg b junk msgid msglen msg (app srv)) (\<lambda>s. Ret (srv\<lparr>app := s\<rparr>)))\<rparr>"

section \<open>Start-up\<close>

text \<open>One channel of \<open>InitSettingsfromQspi\<close>; the page buffer is the same for all of them.\<close>

definition init_chan :: "board \<Rightarrow> u32 \<Rightarrow> u8 list \<times> psc \<Rightarrow> (u8 list \<times> psc) run" where
  "init_chan b chan bs =
     (case bs of (readbuf, s) \<Rightarrow>
        let (readbuf, s) = QspiFlashRead b (chan * FLASH_SECTOR_SIZE) FLASH_PAGE_SIZE readbuf s
        in run_bind (QspiDisperseData b chan readbuf s) (\<lambda>s. Ret (readbuf, s)))"

definition InitSettingsfromQspi :: "board \<Rightarrow> u8 list \<Rightarrow> psc \<Rightarrow> psc run" where
  "InitSettingsfromQspi b stack s =
     (let s = Xil_Out32 (glob_reg b EVR_INJ_EVENTNUM_REG) 10 s;
          s = Xil_Out32 (glob_reg b EVR_PM_EVENTNUM_REG) 10 s
      in run_bind (run_fold (init_chan b) [1, 2, 3, 4] (stack, s)) (\<lambda>(_, s). Ret s))"

text \<open>
  \<open>print_firmware_version\<close> and the register writes of \<open>main\<close>, between which the clock chip and
  the flash driver are set up.
\<close>

definition print_firmware_version :: "board \<Rightarrow> psc \<Rightarrow> psc" where
  "print_firmware_version b s =
     fold (\<lambda>r s. snd (Xil_In32 b (glob_reg b r) s))
       [ID, VERSION, PRJ_ID, PRJ_VERSION, PRJ_SHASUM, PRJ_TIMESTAMP] s"

definition main_writes :: "board \<Rightarrow> psc \<Rightarrow> psc" where
  "main_writes b s =
     (let s = print_firmware_version b s;
          s = Xil_Out32 (glob_reg b EVR_RESET_REG) 0 s
      in fold (\<lambda>i s. Xil_Out32 (chan_reg b i FAULT_MASK_REG) 0x1FEF s) [1, 2, 3, 4] s)"

section \<open>What a message can reach\<close>

lemma confined_ramp_point [confined]: "confined (chan_block b chan) chan s (ramp_point b chan msg res i s)"
  unfolding ramp_point_def by (intro confined) simp_all

lemma confined_write_ramptable: "confined (chan_block b chan) chan s (write_ramptable b chan msg msglen s)"
  unfolding write_ramptable_def Let_def [of "unat msglen div 4"]
proof (rule confined_bind_vals(4), cases "50000 < unat msglen div 4")
  case False
  have "confined (chan_block b chan) chan t
     (let (res, t) = Xil_In32 b (glob_reg b RESOLUTION_REG) t
      in run_bind (sf_at chan t) (\<lambda>_. run_fold (ramp_point b chan msg res) [0..<unat msglen div 4] t))" for t
    by (rule confined_read) (intro confined_bind_vals confined_fold confined)
  with False show "confined (chan_block b chan) chan s
    (if 50000 < unat msglen div 4 then Ret s
     else run_bind (chan_out b chan DAC_RAMPLEN_REG (word_of_nat (unat msglen div 4)) s)
       (\<lambda>s. let (res, s) = Xil_In32 b (glob_reg b RESOLUTION_REG) s
         in run_bind (sf_at chan s) (\<lambda>_. run_fold (ramp_point b chan msg res) [0..<unat msglen div 4] s)))"
    by (auto intro!: confined)
qed simp

text \<open>The channel a message is for; the others are 0, which is no channel.\<close>

definition msg_chan :: "u16 \<Rightarrow> u32" where
  "msg_chan mid = (if mid = 101 then 1 else if mid \<le> 4 then ucast mid else 0)"

definition reach :: "board \<Rightarrow> u16 \<Rightarrow> u32 set" where
  "reach b mid = glob_area b \<union> (if msg_chan mid = 0 then {} else chan_block b (msg_chan mid))"

lemma glob_reg_block: "r < CHBASEADDR \<Longrightarrow> glob_reg b r \<in> glob_area b"
  using chan_reg_in_block [of r b 0] by (simp add: glob_area_def glob_reg_def chan_reg_def)

lemma confined_mono: "confined A chan s r \<Longrightarrow> A \<subseteq> B \<Longrightarrow> confined B chan s r"
  using touches_mono unfolding confined_def by blast

lemma confined_after: "touches A chan s t \<Longrightarrow> confined A chan t r \<Longrightarrow> confined A chan s r"
  using touches_trans unfolding confined_def by blast

lemma client_msg_confined: "confined (reach b mid) (msg_chan mid) s (client_msg b junk mid msglen msg s)"
proof -
  define t where "t = Xil_Out32 (glob_reg b IOC_ACCESS_REG) 0 (Xil_Out32 (glob_reg b IOC_ACCESS_REG) 1 s)"
  have io: "glob_reg b IOC_ACCESS_REG \<in> reach b mid"
    using glob_reg_block [of IOC_ACCESS_REG b] by (simp add: reach_def)
  have t: "touches (reach b mid) (msg_chan mid) s t"
    unfolding t_def by (rule touches_trans) (rule touches_Xil_Out32, rule io)+
  have glob: "confined (reach b mid) (msg_chan mid) t (glob_settings b msg t)"
    by (auto simp: glob_settings_def confined_def reach_def intro: touches_mono [OF touches_glob_set])
  have chan: "confined (reach b mid) (msg_chan mid) t (chan_settings b h st (msg_chan mid) msg t)"
    if "msg_chan mid \<noteq> 0" for h st
    by (rule confined_mono [OF confined_chan_settings]) (use that in \<open>simp add: reach_def\<close>)
  have ramp: "confined (reach b mid) (msg_chan mid) t (write_ramptable b (msg_chan mid) msg msglen t)"
    if "msg_chan mid \<noteq> 0"
    by (rule confined_mono [OF confined_write_ramptable]) (use that in \<open>simp add: reach_def\<close>)
  have "confined (reach b mid) (msg_chan mid) t
    (if mid = 0 then glob_settings b msg t
     else if mid = 1 \<or> mid = 2 \<or> mid = 3 \<or> mid = 4
     then (case junk t of (h, st) \<Rightarrow> chan_settings b h st (ucast mid) msg t)
     else if mid = 101 then write_ramptable b 1 msg msglen t else Ret t)"
  proof -
    have "mid = 1 \<or> mid = 2 \<or> mid = 3 \<or> mid = 4 \<Longrightarrow> msg_chan mid = ucast mid \<and> msg_chan mid \<noteq> 0"
      by (auto simp: msg_chan_def)
    moreover have "mid = 101 \<Longrightarrow> msg_chan mid = 1" by (simp add: msg_chan_def)
    ultimately show ?thesis using glob chan ramp by (auto split: prod.split)
  qed
  from confined_after [OF t this] show ?thesis unfolding client_msg_def Let_def t_def .
qed

lemma reach_disjoint:
  assumes "c \<noteq> msg_chan mid" "1 \<le> c" "c \<le> 4" shows "chan_block b c \<inter> reach b mid = {}"
proof -
  have "c < 8" using assms(3) by unat_arith
  moreover have "msg_chan mid < 8"
  proof -
    have "(ucast mid :: u32) \<le> 4" if "mid \<le> 4"
      using that by (simp add: word_le_nat_alt unsigned_ucast_eq take_bit_nat_eq_self)
    then show ?thesis by (auto simp: msg_chan_def) unat_arith
  qed
  ultimately show ?thesis
    using chan_block_disjoint [of c "msg_chan mid" b] assms(1) glob_area_disjoint [OF assms(2,3), of b]
    by (auto simp: reach_def)
qed

section \<open>Messages and the receive buffer\<close>

lemma ld32_store: "4 * i + 4 \<le> length body \<Longrightarrow> ld32 (store body buf) i = ld32 body i"
  by (simp add: ld32_def store_def)

lemma run_fold_cong: "(\<And>x. x \<in> set xs \<Longrightarrow> f x = g x) \<Longrightarrow> run_fold f xs = run_fold g xs"
proof (induction xs)
  case (Cons x xs)
  then have "f x = g x" "run_fold f xs = run_fold g xs" by simp_all
  then show ?case by (intro ext) simp
qed (simp add: fun_eq_iff)

lemma write_ramptable_store:
  assumes "length body < 2 ^ 32"
  shows "write_ramptable b chan (store body buf) (word_of_nat (length body)) =
    write_ramptable b chan body (word_of_nat (length body))"
proof -
  define n where "n = length body div 4"
  have n: "unat (word_of_nat (length body) :: u32) div 4 = n"
    using assms by (simp add: n_def unat_of_nat take_bit_nat_eq_self)
  have ld: "ld32 (store body buf) i = ld32 body i" if "i < n" for i
    using that by (intro ld32_store) (simp add: n_def)
  have p: "ramp_point b chan (store body buf) res i = ramp_point b chan body res i" if "i < n" for res i
    using ld [OF that] by (simp add: ramp_point_def fun_eq_iff)
  have r: "run_fold (ramp_point b chan (store body buf) res) [0..<n] = run_fold (ramp_point b chan body res) [0..<n]" for res
    by (rule run_fold_cong) (simp add: p)
  have "read_points (store body buf) [0..<min 20 n] = read_points body [0..<min 20 n]"
    unfolding read_points_def by (subst run_fold_cong [of _ _ "\<lambda>i _. run_bind (ld32 body i) (\<lambda>_. Ret ())"]) (simp_all add: ld)
  with r show ?thesis by (simp add: write_ramptable_def n fun_eq_iff)
qed

text \<open>A message is complete when it has the id and the value a settings handler reads.\<close>

definition complete :: "u16 \<times> u8 list \<Rightarrow> bool" where
  "complete m \<longleftrightarrow> 4 < fst m \<or> 8 \<le> length (snd m)"

lemma client_msg_store:
  assumes "complete (mid, body)" "length body < 2 ^ 32"
  shows "client_msg b junk mid (word_of_nat (length body)) (store body buf) s =
    client_msg b junk mid (word_of_nat (length body)) body s"
proof -
  have ld: "ld32 (store body buf) 0 = ld32 body 0" "ld32 (store body buf) 1 = ld32 body 1" if "mid \<le> 4"
    using that assms(1) by (auto simp: complete_def intro: ld32_store)
  have small: "mid = 0 \<or> mid = 1 \<or> mid = 2 \<or> mid = 3 \<or> mid = 4 \<Longrightarrow> mid \<le> 4" by auto
  show ?thesis
    using ld small write_ramptable_store [OF assms(2)]
    by (auto simp: client_msg_def glob_settings_def chan_settings_def Let_def)
qed

lemma dispatch_complete:
  assumes "\<forall>m \<in> set ms. complete m \<and> length (snd m) \<le> rxbuf_size"
  shows "dispatch (client_msg b junk) ms (buf, s) =
    run_bind (run_fold (\<lambda>(mid, body). client_msg b junk mid (word_of_nat (length body)) body) ms s)
      (\<lambda>s'. Ret (fold (\<lambda>m. store (snd m)) ms buf, s'))"
  using assms
proof (induction ms arbitrary: buf s)
  case (Cons m ms)
  obtain mid body where m: "m = (mid, body)" by (cases m)
  have "length body < 2 ^ 32" using Cons.prems m by (auto simp: rxbuf_size_def)
  then have "client_msg b junk mid (word_of_nat (length body)) (store body buf) s =
      client_msg b junk mid (word_of_nat (length body)) body s"
    using client_msg_store Cons.prems m by auto
  with Cons m show ?case
    by (cases "client_msg b junk mid (word_of_nat (length body)) body s") (simp_all add: dispatch_def)
qed (simp add: dispatch_def)

section \<open>What start-up reads from the flash\<close>

text \<open>The 44 words of a channel's page behind the command bytes, and the scale factors among them.\<close>

definition page_words :: "(nat \<Rightarrow> u8) \<Rightarrow> u32 \<Rightarrow> u32 list" where
  "page_words m chan = words_of 44 (map (\<lambda>i. m (unat chan * 65536 + i)) [0..<176])"

definition page_sf :: "u32 list \<Rightarrow> ScaleFactorType" where
  "page_sf ws = sf_of_qspi (qspi_of_words (0 # ws))"

lemma length_page_words [simp]: "length (page_words m chan) = 44"
  by (simp add: page_words_def)

lemma page_sf_words: "length ws = 44 \<Longrightarrow> sf_words (page_sf ws) = drop 37 ws"
  by (simp add: page_sf_def sf_of_qspi_words qspi_words_of_words)

text \<open>What loading a channel does on the bus.\<close>

definition boot_chan :: "board \<Rightarrow> (nat \<Rightarrow> u8) \<Rightarrow> u32 \<Rightarrow> io list" where
  "boot_chan b m chan =
     Spi (flash_cmd FLASH_READ_CMD (chan * FLASH_SECTOR_SIZE)) 256
     # map (chan_wr b chan) (zip qspi_regs (take 37 (page_words m chan)))"

lemma load_any:
  assumes "flash_ok b mem" "chan < 256" "length buf = 256"
  shows "load_settings b chan buf s =
    sf_update chan (\<lambda>_. page_sf (page_words (mem (bus s)) chan)) (s\<lparr>bus := bus s @ boot_chan b (mem (bus s)) chan\<rparr>)"
proof -
  let ?ws = "page_words (mem (bus s)) chan"
  have "map (\<lambda>i. mem (bus s) (unat chan * 65536 + i)) [0..<176] = mem_words ?ws"
    by (simp add: page_words_def mem_words_words_of)
  also have "?ws = take 37 ?ws @ sf_words (page_sf ?ws)"
    by (simp add: page_sf_words)
  finally show ?thesis
    using load_page [OF assms, of "take 37 ?ws" s "page_sf ?ws"] by (simp add: boot_chan_def)
qed

lemma init_chan_load:
  assumes "flash_ok b mem" "chan < 256" "length buf = 256"
  shows "\<exists>buf'. length buf' = 256 \<and> init_chan b chan (buf, s) = run_bind (load_settings b chan buf s) (\<lambda>s. Ret (buf', s))"
proof -
  obtain buf' t where r: "QspiFlashRead b (chan * FLASH_SECTOR_SIZE) FLASH_PAGE_SIZE buf s = (buf', t)"
    by (cases "QspiFlashRead b (chan * FLASH_SECTOR_SIZE) FLASH_PAGE_SIZE buf s")
  have "length buf' = 256"
    using flash_read [OF assms(1,3), of "chan * FLASH_SECTOR_SIZE" s] sector_24bit [OF assms(2)] r by auto
  with r show ?thesis by (intro exI [of _ buf']) (simp add: init_chan_def load_settings_def)
qed

lemma flash_mem_boot:
  assumes ok: "flash_ok b mem" and chan: "chan < 256"
  shows "mem (h @ boot_chan b m chan) = mem h"
proof -
  have "mem (h @ [Spi (flash_cmd FLASH_READ_CMD (chan * FLASH_SECTOR_SIZE)) 256]) = mem h"
    using ok sector_24bit [OF chan] by (simp add: flash_ok_def)
  moreover have "mem ((h @ [Spi c n]) @ map (chan_wr b chan) rvs) = mem (h @ [Spi c n])" for c n rvs
    using flash_mem_Wr [OF ok, of "h @ [Spi c n]" "\<lambda>rv. chan_reg b chan (fst rv)" snd rvs]
    unfolding chan_wr_def [abs_def] .
  ultimately show ?thesis by (simp add: boot_chan_def)
qed

lemma init_chan_step:
  assumes ok: "flash_ok b mem" and "chan < 256" "length buf = 256" and sf: "unat (chan - 1) < length (scalefactors s)"
  shows "\<exists>buf' s'. length buf' = 256 \<and> init_chan b chan (buf, s) = Ret (buf', s')
    \<and> bus s' = bus s @ boot_chan b (mem (bus s)) chan \<and> mem (bus s') = mem (bus s)
    \<and> scalefactors s' = (scalefactors s)[unat (chan - 1) := page_sf (page_words (mem (bus s)) chan)]"
  using init_chan_load [OF assms(1-3), of s] load_any [OF assms(1-3), of s] sf
    flash_mem_boot [OF ok assms(2)]
  by (auto simp: sf_update_def)

lemma four_updates: "length fs = 4 \<Longrightarrow> fs[0 := a, Suc 0 := b, 2 := c, 3 := d] = [a, b, c, d]"
  by (auto simp: numeral_eq_Suc length_Suc_conv)

lemma InitSettings_all:
  assumes ok: "flash_ok b mem" and len: "length stack = 256" "length (scalefactors s) = 4"
  shows "\<exists>s'. InitSettingsfromQspi b stack s = Ret s'
    \<and> scalefactors s' = map (\<lambda>c. page_sf (page_words (mem (bus s)) c)) [1, 2, 3, 4]
    \<and> bus s' = bus s @ [Wr (glob_reg b EVR_INJ_EVENTNUM_REG) 10, Wr (glob_reg b EVR_PM_EVENTNUM_REG) 10]
        @ concat (map (boot_chan b (mem (bus s))) [1, 2, 3, 4])"
proof -
  let ?m = "mem (bus s)"
  define s0 where "s0 = Xil_Out32 (glob_reg b EVR_PM_EVENTNUM_REG) 10 (Xil_Out32 (glob_reg b EVR_INJ_EVENTNUM_REG) 10 s)"
  have "mem (bus s @ [Wr a v]) = mem (bus s)" "mem ((bus s @ [Wr a v]) @ [Wr a' v']) = mem (bus s @ [Wr a v])" for a v a' v'
    using ok unfolding flash_ok_def by blast+
  then have s0: "mem (bus s0) = ?m" "length (scalefactors s0) = 4" by (simp_all add: s0_def len)
  have c: "(1 :: u32) < 256" "(2 :: u32) < 256" "(3 :: u32) < 256" "(4 :: u32) < 256" by simp_all
  obtain b1 s1 where 1: "length b1 = 256" "init_chan b 1 (stack, s0) = Ret (b1, s1)"
      "bus s1 = bus s0 @ boot_chan b ?m 1" "mem (bus s1) = ?m"
      "scalefactors s1 = (scalefactors s0)[0 := page_sf (page_words ?m 1)]"
    using init_chan_step [OF ok c(1) len(1), of s0] s0 by auto
  obtain b2 s2 where 2: "length b2 = 256" "init_chan b 2 (b1, s1) = Ret (b2, s2)"
      "bus s2 = bus s1 @ boot_chan b ?m 2" "mem (bus s2) = ?m"
      "scalefactors s2 = (scalefactors s1)[Suc 0 := page_sf (page_words ?m 2)]"
    using init_chan_step [OF ok c(2) 1(1), of s1] s0 1(4,5) by auto
  obtain b3 s3 where 3: "length b3 = 256" "init_chan b 3 (b2, s2) = Ret (b3, s3)"
      "bus s3 = bus s2 @ boot_chan b ?m 3" "mem (bus s3) = ?m"
      "scalefactors s3 = (scalefactors s2)[2 := page_sf (page_words ?m 3)]"
    using init_chan_step [OF ok c(3) 2(1), of s2] s0 1(5) 2(4,5) by auto
  obtain b4 s4 where 4: "init_chan b 4 (b3, s3) = Ret (b4, s4)" "bus s4 = bus s3 @ boot_chan b ?m 4"
      "scalefactors s4 = (scalefactors s3)[3 := page_sf (page_words ?m 4)]"
    using init_chan_step [OF ok c(4) 3(1), of s3] s0 1(5) 2(5) 3(4,5) by auto
  have "InitSettingsfromQspi b stack s = Ret s4"
    using 1(2) 2(2) 3(2) 4(1) by (simp add: InitSettingsfromQspi_def flip: s0_def)
  moreover have "scalefactors s4 = map (\<lambda>c. page_sf (page_words ?m c)) [1, 2, 3, 4]"
    using four_updates [OF s0(2)] by (simp add: 4(3) 3(5) 2(5) 1(5))
  ultimately show ?thesis
    using 1(3) 2(3) 3(3) 4(2) by (intro exI [of _ s4]) (simp add: s0_def)
qed

section \<open>Properties\<close>

text \<open>
  C8. A client's message reaches its own channel only: whatever its id, length and contents, it
  writes no register of another channel and leaves the other channels' scale factors alone.
  Messages that are not for a channel reach none.
\<close>

theorem client_msg_isolated:
  assumes "client_msg b junk mid msglen msg s = Ret s'" "c \<noteq> msg_chan mid" "1 \<le> c" "c \<le> 4"
  shows "\<exists>evs. bus s' = bus s @ evs \<and> {a. \<exists>v. Wr a v \<in> set evs} \<inter> chan_block b c = {}
    \<and> scalefactors s' ! unat (c - 1) = scalefactors s ! unat (c - 1)"
proof -
  have t: "touches (reach b mid) (msg_chan mid) s s'"
    using client_msg_confined assms(1) unfolding confined_def by blast
  have "c - 1 \<noteq> msg_chan mid - 1" using assms(2) by simp
  then have "unat (c - 1) \<noteq> unat (msg_chan mid - 1)" by (metis word_unat_eq_iff)
  with t reach_disjoint [OF assms(2-4), of b] show ?thesis unfolding touches_def by blast
qed

theorem client_msg_isolated_witness:
  "case client_msg sim_board (\<lambda>_. (0, [])) 3 8 (be32 FAULT_MASK_MSG @ be32 5) some_psc of
     Ret s' \<Rightarrow> \<exists>evs. bus s' = bus some_psc @ evs \<and> {a. \<exists>v. Wr a v \<in> set evs} \<inter> chan_block sim_board 2 = {}
       \<and> scalefactors s' ! unat ((2 :: u32) - 1) = scalefactors some_psc ! unat ((2 :: u32) - 1)
   | _ \<Rightarrow> False"
proof -
  obtain s' where r: "client_msg sim_board (\<lambda>_. (0, [])) 3 8 (be32 FAULT_MASK_MSG @ be32 5) some_psc = Ret s'"
    by (simp add: client_msg_def Let_def chan_settings_def ld32_def be32.length_enc htonl_of_le32 be32.dec_enc chan_set_def
        chan_set_dac_adc_def chan_set_limits_def chan_set_misc_def chan_out_def)
  from client_msg_isolated [OF r, of 2] show ?thesis unfolding r by (simp add: msg_chan_def)
qed

text \<open>
  C1. From the byte stream to the board: on a connection that delivers the messages \<open>ms\<close> and is
  then closed, the client's task applies them to the board one after the other, each exactly as
  if it had been given alone, and returns. This is so when each settings message carries its id
  and its value.
\<close>

theorem session_drives_board:
  assumes "recv_ok (net_recv n sk) pending up" "peer_closes (net_recv n sk) pending"
    and "i < length (clients (skey srv))" "up (world srv)" "pending (world srv) = concat (map frame ms)"
    and "\<forall>m \<in> set ms. complete m \<and> length (snd m) \<le> rxbuf_size"
  shows "\<exists>w' buf'. handle_loop (Suc (length ms)) n (realmain_conf n b junk git_hash) i sk srv =
      Some (run_bind
        (run_fold (\<lambda>(mid, body). client_msg b junk mid (word_of_nat (length body)) body) ms (app srv))
        (\<lambda>s'. Ret (with_buf i buf' w' s' srv)))"
proof -
  have cb: "app_callback (recv (realmain_conf n b junk git_hash)) (client_msg b junk)"
    by (simp add: app_callback_def realmain_conf_def)
  have len: "\<forall>m \<in> set ms. length (snd m) \<le> rxbuf_size" using assms(6) by blast
  show ?thesis
    using handle_loop_dispatch [OF assms(1,2) cb assms(3-5) len] dispatch_complete [OF assms(6)]
    by (auto simp: run_bind_assoc)
qed

text \<open>A connection that sets the fault mask of channel 3, then turns the front panel's LEDs on.\<close>

definition two_settings :: "(u16 \<times> u8 list) list" where
  "two_settings = [(3, be32 FAULT_MASK_MSG @ be32 5), (0, be32 FP_LED_MSG @ be32 7)]"

theorem session_drives_board_witness:
  "\<exists>w' buf'. handle_loop (Suc (length two_settings)) script_net
      (realmain_conf script_net sim_board (\<lambda>_. (0, [])) 0) 1 6
      \<lparr>skey = two_clients, world = concat (map frame two_settings), app = some_psc\<rparr> =
    Some (run_bind
      (run_fold (\<lambda>(mid, body). client_msg sim_board (\<lambda>_. (0, [])) mid (word_of_nat (length body)) body)
        two_settings some_psc)
      (\<lambda>s'. Ret (with_buf 1 buf' w' s' \<lparr>skey = two_clients, world = concat (map frame two_settings), app = some_psc\<rparr>)))"
  using session_drives_board [OF script_net_ok, where i = 1 and ms = two_settings and sk = 6 and b = sim_board
      and srv = "\<lparr>skey = two_clients, world = concat (map frame two_settings), app = some_psc\<rparr>"
      and junk = "\<lambda>_. (0, [])" and git_hash = 0]
  by (simp add: two_settings_def two_clients_def complete_def be32.length_enc rxbuf_size_def)

text \<open>
  A settings message that is too short is applied all the same, with the value the previous
  message left in the receive buffer: one of four bytes acts as one of eight.
\<close>

theorem short_message_stale:
  assumes "mid \<le> 4"
  shows "client_msg b junk mid 4 (store (be32 addr) (be32 addr' @ be32 v @ rest)) s =
    client_msg b junk mid 8 (be32 addr @ be32 v) s"
proof -
  have "store (be32 addr) (be32 addr' @ be32 v @ rest) = (be32 addr @ be32 v) @ rest"
    by (simp add: store_def be32.length_enc)
  moreover have "ld32 ((be32 addr @ be32 v) @ rest) 0 = ld32 (be32 addr @ be32 v) 0"
      "ld32 ((be32 addr @ be32 v) @ rest) 1 = ld32 (be32 addr @ be32 v) 1"
    by (simp_all add: ld32_def be32.length_enc)
  moreover have "mid \<noteq> 101" using assms by auto
  ultimately show ?thesis by (simp add: client_msg_def glob_settings_def chan_settings_def Let_def)
qed

theorem short_message_stale_witness:
  "client_msg sim_board (\<lambda>_. (0, [])) 3 4 (store (be32 DIGOUT_ON1_MSG) (be32 FAULT_MASK_MSG @ be32 5 @ [0])) some_psc =
   client_msg sim_board (\<lambda>_. (0, [])) 3 8 (be32 DIGOUT_ON1_MSG @ be32 5) some_psc"
  by (rule short_message_stale) simp

text \<open>
  Start-up restores the settings: whatever the pages in the flash hold, it reads each once,
  writes its 37 values to the 37 setting registers of its channel in order, and takes over its
  scale factors; it always returns.
\<close>

theorem InitSettings_restores:
  assumes "flash_ok b mem" "length stack = 256" "length (scalefactors s) = 4"
  shows "\<exists>s'. InitSettingsfromQspi b stack s = Ret s'
    \<and> scalefactors s' = map (\<lambda>c. page_sf (page_words (mem (bus s)) c)) [1, 2, 3, 4]
    \<and> bus s' = bus s @ [Wr (glob_reg b EVR_INJ_EVENTNUM_REG) 10, Wr (glob_reg b EVR_PM_EVENTNUM_REG) 10]
        @ concat (map (boot_chan b (mem (bus s))) [1, 2, 3, 4])"
  by (rule InitSettings_all [OF assms])

theorem InitSettings_restores_witness:
  "\<exists>s'. InitSettingsfromQspi sim_board (replicate 256 0) some_psc = Ret s'
    \<and> scalefactors s' = map (\<lambda>c. page_sf (page_words (chip_mem (bus some_psc)) c)) [1, 2, 3, 4]
    \<and> bus s' = bus some_psc @ [Wr (glob_reg sim_board EVR_INJ_EVENTNUM_REG) 10, Wr (glob_reg sim_board EVR_PM_EVENTNUM_REG) 10]
        @ concat (map (boot_chan sim_board (chip_mem (bus some_psc))) [1, 2, 3, 4])"
  by (rule InitSettings_restores [OF sim_board_flash]) (simp_all add: some_psc_def)

text \<open>
  C2. A power cycle keeps the settings of a channel: after \<open>save_settings\<close>, start-up on the same
  flash gives the channel its scale factors back and writes to its registers, as the last
  writes to them, the values they had when they were saved.
\<close>

theorem power_cycle:
  assumes ok: "flash_ok b mem" and c: "1 \<le> c" "c \<le> 4" and f: "sf_at c s = Ret f" and len: "length buf = 256"
    and save: "QspiFlashEraseSect b c s = Ret s1" "save_settings b header0 c buf s = Ret (buf2, s2)"
    and cold: "mem (bus t) = mem (bus s2)" "length (scalefactors t) = 4" "length stack = 256"
  shows "\<exists>t' pre post. InitSettingsfromQspi b stack t = Ret t' \<and> sf_at c t' = Ret f
    \<and> bus t' = bus t @ pre @ map (chan_wr b c) (zip qspi_regs (fst (read_regs b c qspi_regs s1))) @ post
    \<and> {a. \<exists>v. Wr a v \<in> set post} \<inter> chan_block b c = {}"
proof -
  let ?m = "mem (bus t)" and ?vs = "fst (read_regs b c qspi_regs s1)"
  have c256: "c < 256" using c(2) by unat_arith
  have vs: "length ?vs = 37" by (simp add: length_read_regs length_qspi_regs)
  have "map (\<lambda>i. ?m (unat c * 65536 + i)) [0..<176] = mem_words (?vs @ sf_words f)"
    using save_settings_Ret [OF ok c256 len f, of header0] save cold(1) by auto
  then have ws: "page_words ?m c = ?vs @ sf_words f"
    using vs by (simp add: page_words_def words_of_mem_words sf_words_def)
  then have "sf_words (page_sf (page_words ?m c)) = sf_words f"
    using vs by (subst page_sf_words) (simp_all add: sf_words_def)
  then have sf: "page_sf (page_words ?m c) = f" by (simp add: sf_words_inj)
  have bc: "boot_chan b ?m c = Spi (flash_cmd FLASH_READ_CMD (c * FLASH_SECTOR_SIZE)) 256
      # map (chan_wr b c) (zip qspi_regs ?vs)"
    using vs by (simp add: boot_chan_def ws)
  have four: "c = 1 \<or> c = 2 \<or> c = 3 \<or> c = 4"
    using c by unat_arith
  have sub: "{a. \<exists>v. Wr a v \<in> set (boot_chan b ?m d)} \<subseteq> chan_block b d" for d
    by (auto simp: boot_chan_def chan_wr_def dest!: set_zip_leftD intro!: chan_reg_in_block qspi_regs_in_block)
  have out: "{a. \<exists>v. Wr a v \<in> set (boot_chan b ?m d)} \<inter> chan_block b c = {}" if "c < d" "d < 8" for d
    using sub [of d] chan_block_disjoint [OF less_trans [OF that] that(2) less_imp_neq [OF that(1)], of b] by blast
  obtain t' where t': "InitSettingsfromQspi b stack t = Ret t'"
      "scalefactors t' = map (\<lambda>c. page_sf (page_words ?m c)) [1, 2, 3, 4]"
      "bus t' = bus t @ [Wr (glob_reg b EVR_INJ_EVENTNUM_REG) 10, Wr (glob_reg b EVR_PM_EVENTNUM_REG) 10]
        @ concat (map (boot_chan b ?m) [1, 2, 3, 4])"
    using InitSettings_all [OF ok cold(3,2)] by blast
  have sf': "sf_at c t' = Ret f"
    using four by (auto simp: sf_at_def t'(2) simp flip: sf)
  define rest where "rest = filter (\<lambda>d. c < d) [1, 2, 3, 4 :: u32]"
  have "\<exists>pre. bus t' = bus t @ pre @ map (chan_wr b c) (zip qspi_regs ?vs) @ concat (map (boot_chan b ?m) rest)"
    using t'(3) bc four by (auto simp: rest_def)
  moreover have "{a. \<exists>v. Wr a v \<in> set (concat (map (boot_chan b ?m) rest))} \<inter> chan_block b c = {}"
  proof -
    have "\<forall>d \<in> set rest. c < d \<and> d < 8" by (simp add: rest_def)
    with out have "(\<Union>d \<in> set rest. {a. \<exists>v. Wr a v \<in> set (boot_chan b ?m d)}) \<inter> chan_block b c = {}"
      by blast
    moreover have "{a. \<exists>v. Wr a v \<in> set (concat (map (boot_chan b ?m) rest))} =
        (\<Union>d \<in> set rest. {a. \<exists>v. Wr a v \<in> set (boot_chan b ?m d)})" by auto
    ultimately show ?thesis by (simp only:)
  qed
  ultimately show ?thesis using t'(1) sf' by blast
qed

text \<open>Channel 2, saved, then a start with nothing left in memory.\<close>

theorem power_cycle_witness:
  "\<exists>s1 buf2 s2 t' pre post. QspiFlashEraseSect sim_board 2 some_psc = Ret s1
    \<and> save_settings sim_board 7 2 (replicate 256 0) some_psc = Ret (buf2, s2)
    \<and> InitSettingsfromQspi sim_board (replicate 256 9) (s2\<lparr>scalefactors := replicate 4 (page_sf [])\<rparr>) = Ret t'
    \<and> sf_at 2 t' = Ret some_sf
    \<and> bus t' = bus s2 @ pre @ map (chan_wr sim_board 2) (zip qspi_regs (fst (read_regs sim_board 2 qspi_regs s1))) @ post
    \<and> {a. \<exists>v. Wr a v \<in> set post} \<inter> chan_block sim_board 2 = {}"
proof -
  obtain s1 buf2 s2 where save: "QspiFlashEraseSect sim_board 2 some_psc = Ret s1"
    "save_settings sim_board 7 2 (replicate 256 0) some_psc = Ret (buf2, s2)"
    using save_settings_Ret [OF sim_board_flash _ _ some_psc_sf, of "replicate 256 0" 7] by auto
  from power_cycle [OF sim_board_flash _ _ some_psc_sf _ save, of "s2\<lparr>scalefactors := replicate 4 (page_sf [])\<rparr>" "replicate 256 9"]
  obtain t' pre post where
    "InitSettingsfromQspi sim_board (replicate 256 9) (s2\<lparr>scalefactors := replicate 4 (page_sf [])\<rparr>) = Ret t'"
    "sf_at 2 t' = Ret some_sf"
    "bus t' = bus s2 @ pre @ map (chan_wr sim_board 2) (zip qspi_regs (fst (read_regs sim_board 2 qspi_regs s1))) @ post"
    "{a. \<exists>v. Wr a v \<in> set post} \<inter> chan_block sim_board 2 = {}"
    by auto
  with save show ?thesis by blast
qed

section \<open>A board that has never been set up\<close>

text \<open>An erased page is all ones, and the scale factors read from it are not numbers.\<close>

lemma page_words_blank:
  assumes "\<forall>i < 176. m (unat chan * 65536 + i) = 0xFF"
  shows "page_words m chan = replicate 44 0xFFFFFFFF"
proof (rule nth_equalityI)
  fix i assume i: "i < length (page_words m chan)"
  let ?bs = "map (\<lambda>i. m (unat chan * 65536 + i)) [0..<176]"
  have "?bs = replicate 176 0xFF"
    using assms by (intro nth_equalityI) simp_all
  then have "take 4 (drop (4 * i) ?bs) = replicate 4 0xFF" using i by simp
  moreover have "replicate 4 0xFF = [0xFF, 0xFF, 0xFF, 0xFF :: u8]" by (simp add: numeral_eq_Suc)
  moreover have "of_le32 [0xFF, 0xFF, 0xFF, 0xFF] = 0xFFFFFFFF" by (simp add: of_le32_def of_bytes4_def)
  ultimately show "page_words m chan ! i = replicate 44 0xFFFFFFFF ! i"
    using i by (simp add: page_words_def words_of_def)
qed simp

lemma page_sf_blank: "dac_dccts (page_sf (replicate 44 0xFFFFFFFF)) = 0xFFFFFFFF"
  by (simp add: page_sf_def sf_of_qspi_def qspi_of_words_def numeral_eq_Suc)

lemma dec32_ones: "dec32 0xFFFFFFFF = FNaN"
  by (simp add: dec32_def decode_def single_def Let_def)

lemma dac_bits_nan:
  assumes "sf_at chan s = Ret f" "dac_dccts f = 0xFFFFFFFF"
  shows "dac_bits chan x s = Undef Float_To_Int"
proof -
  have "dec32 (enc32 FNaN) = FNaN"
    by (simp add: enc32_def encode_def dec32_def decode_def single_def Let_def)
  moreover have "fv_div single v FNaN = FNaN" for v by (cases v) simp_all
  ultimately show ?thesis
    using assms by (simp add: dac_bits_def f32_div_def dec32_ones s32_of_f32_def s32_of_fv_def)
qed

text \<open>
  C39. On a board whose flash has never been written, the scale factors restored at start-up are
  not numbers, and every setpoint message then is a conversion of such a value to an integer,
  which is undefined.
\<close>

theorem blank_flash_setpoint_undefined:
  assumes "flash_ok b mem" "length stack = 256" "length (scalefactors s) = 4"
    and c: "1 \<le> c" "c \<le> 4" and blank: "\<forall>i < 176. mem (bus s) (unat c * 65536 + i) = 0xFF"
  shows "\<exists>s'. InitSettingsfromQspi b stack s = Ret s'
    \<and> chan_settings b header0 junk c (be32 DAC_SETPT_MSG @ be32 x) s' = Undef Float_To_Int"
proof -
  obtain s' where s': "InitSettingsfromQspi b stack s = Ret s'"
      "scalefactors s' = map (\<lambda>c. page_sf (page_words (mem (bus s)) c)) [1, 2, 3, 4]"
    using InitSettings_all [OF assms(1-3)] by blast
  have "c = 1 \<or> c = 2 \<or> c = 3 \<or> c = 4" using c by unat_arith
  then have "sf_at c s' = Ret (page_sf (page_words (mem (bus s)) c))"
    by (auto simp: sf_at_def s'(2))
  from dac_bits_nan [OF this] have "dac_bits c x s' = Undef Float_To_Int"
    by (simp add: page_words_blank [OF blank] page_sf_blank)
  then have "chan_settings b header0 junk c (be32 DAC_SETPT_MSG @ be32 x) s' = Undef Float_To_Int"
    by (simp add: chan_settings_def ld32_def be32.length_enc htonl_of_le32 be32.dec_enc chan_set_def chan_set_dac_adc_def)
  with s'(1) show ?thesis by blast
qed

theorem blank_flash_setpoint_undefined_witness:
  "\<exists>s'. InitSettingsfromQspi sim_board (replicate 256 0) some_psc = Ret s'
    \<and> chan_settings sim_board 0 [] 2 (be32 DAC_SETPT_MSG @ be32 0x3F800000) s' = Undef Float_To_Int"
  by (rule blank_flash_setpoint_undefined [OF sim_board_flash]) (simp_all add: some_psc_def chip_mem_def)

end
