(* ===== verification/Snapshots.thy ===== *)
theory Snapshots
  imports Sadata Listener
begin

text \<open>
  snapshots.c: the waveforms. The gateware writes samples of 40 words to a circular buffer in
  memory and latches the address of the current sample when a trigger happens; the task polls
  the latched addresses ten times a second, waits for the samples after the trigger, converts
  the samples of the trigger's channel around it to amperes and volts and sends them.

  The contents of the memory are a parameter, \<open>ddr\<close>: the word at an address, as a function of the
  operations on the bus so far. While one waveform is copied it is one function of the address:
  each word is read once.
\<close>

section \<open>Messages and state of snapshot.h\<close>

abbreviation (input) MSGWFMSTATS :: u16 where "MSGWFMSTATS \<equiv> 50"
abbreviation (input) MSGWFMSTATSLEN :: nat where "MSGWFMSTATSLEN \<equiv> 500"
abbreviation (input) MSGUSRCH1 :: u32 where "MSGUSRCH1 \<equiv> 60"
abbreviation (input) MSGFLTCH1 :: u32 where "MSGFLTCH1 \<equiv> 70"
abbreviation (input) MSGERRCH1 :: u32 where "MSGERRCH1 \<equiv> 80"
abbreviation (input) MSGINJCH1 :: u32 where "MSGINJCH1 \<equiv> 90"
abbreviation (input) MSGEVRCH1 :: u32 where "MSGEVRCH1 \<equiv> 100"
abbreviation (input) MSGWFMLEN :: nat where "MSGWFMLEN \<equiv> 4000000"

record SnapTrigData =
  lataddr :: u32
  active :: u32
  ts_s :: u32
  ts_ns :: u32

record TriggerInfo =
  addr :: u32
  addr_last :: u32
  pretrigpts :: u32
  posttrigpts :: u32
  active :: u32
  postdlycnt :: u32
  sendbuf :: u32
  msgID :: u32
  channum :: u32

record TriggerTypes =
  usr :: "TriggerInfo list"
  flt :: "TriggerInfo list"
  err :: "TriggerInfo list"
  inj :: "TriggerInfo list"
  evr :: "TriggerInfo list"

section \<open>Converting samples\<close>

abbreviation (input) BUFSTART :: u32 where "BUFSTART \<equiv> 0x10000000"
abbreviation (input) BUFLEN :: u32 where "BUFLEN \<equiv> 0x01E84800"
abbreviation (input) BUFSTEPBYTES :: u32 where "BUFSTEPBYTES \<equiv> 0xA0"
abbreviation (input) WORDSPERSAMPLE :: u32 where "WORDSPERSAMPLE \<equiv> 40"

text \<open>
  The arithmetic of the assignments in \<open>CopyDataChan\<close>: \<open>CONVDACBITSTOVOLTS\<close> is a float, so the
  product is one of floats; \<open>CONV16BITSTOVOLTS\<close> is a double, so the product is one of doubles,
  rounded when it is stored.
\<close>

definition dac_amps :: "f32 \<Rightarrow> f32 \<Rightarrow> u32 \<Rightarrow> f32" where
  "dac_amps dacv k w = f32_mul (f32_mul (f32_of_int (sint w)) dacv) k"

definition adc_scale :: "f32 \<Rightarrow> f64 \<Rightarrow> f32" where
  "adc_scale k x = f32_of_f64 (f64_mul (f64_mul x CONV16BITSTOVOLTS) (f64_of_f32 k))"

definition adc_val :: "f32 \<Rightarrow> u32 \<Rightarrow> f32" where
  "adc_val k w = adc_scale k (f64_of_f32 (f32_of_int (sint w)))"

text \<open>Where the words of a channel start in a sample.\<close>

definition chan_offset :: "u32 \<Rightarrow> nat" where
  "chan_offset chan = (if chan = 1 then 2 else if chan = 2 then 10 else if chan = 3 then 18 else 26)"

text \<open>
  The ten floats of one sample \<open>w\<close>. Channel 1 differs from the others in its last two: with the
  digital regulator on they are the regulator in bits and the error as the float it already is;
  otherwise the error is converted without the cast to a signed number.
\<close>

definition sample_floats :: "u32 \<Rightarrow> u32 \<Rightarrow> ScaleFactorType \<Rightarrow> f32 \<Rightarrow> (nat \<Rightarrow> u32) \<Rightarrow> f32 list" where
  "sample_floats chan digpid sf dacv w =
     (let i = chan_offset chan in
      [f32_of_int (uint (w 0)), f32_of_int (uint (w 1)),
       dac_amps dacv (dac_dccts sf) (w i), dac_amps dacv (dac_dccts sf) (w (i + 1)),
       adc_val (dac_dccts sf) (w (i + 2)), adc_val (vout sf) (w (i + 3)),
       adc_val (ignd sf) (w (i + 4)), adc_val (spare sf) (w (i + 5))] @
      (if chan = 1 \<and> digpid = 1 then [f32_of_int (sint (w (i + 6))), w (i + 7)]
       else if chan = 1 then [adc_val (regulator sf) (w (i + 6)),
         adc_scale (error sf) (f64_of_int (uint (w (i + 7))))]
       else [adc_val (regulator sf) (w (i + 6)), adc_val (error sf) (w (i + 7))]))"

text \<open>
  One turn of the loop: \<open>out\<close> are the floats written so far from the start of the message
  buffer, which has room for \<open>MSGWFMLEN / 4\<close>.
\<close>

definition copy_sample ::
    "(u32 \<Rightarrow> u32) \<Rightarrow> psc \<Rightarrow> u32 \<Rightarrow> u32 \<Rightarrow> u32 \<Rightarrow> nat \<Rightarrow> f32 list \<Rightarrow> f32 list run" where
  "copy_sample ddr s chan digpid buf_data k out =
     run_bind (sf_at chan s) (\<lambda>sf.
       if length out + 10 \<le> MSGWFMLEN div 4
       then Ret (out @ sample_floats chan digpid sf (CONVDACBITSTOVOLTS s)
              (\<lambda>j. ddr (buf_data + word_of_nat (4 * (40 * k + j)))))
       else Undef Out_Of_Bounds)"

text \<open>
  The loop runs for \<open>i = 0, 40, ...\<close> below \<open>numwords\<close>; a count so large that \<open>i\<close> would wrap
  overruns the buffer first. A channel that is none of the four copies nothing.
\<close>

definition CopyDataChan ::
    "board \<Rightarrow> (u32 \<Rightarrow> u32) \<Rightarrow> u32 \<Rightarrow> u32 \<Rightarrow> u32 \<Rightarrow> f32 list \<times> psc \<Rightarrow> (f32 list \<times> psc) run" where
  "CopyDataChan b ddr buf_data numwords chan st =
     (case st of (out, s) \<Rightarrow>
        let (digpid, s) = Xil_In32 b (chan_reg b chan DPID_ENB_REG) s in
        if chan = 1 \<or> chan = 2 \<or> chan = 3 \<or> chan = 4
        then run_bind (run_fold (copy_sample ddr s chan digpid buf_data) [0..<(unat numwords + 39) div 40] out)
               (\<lambda>out. Ret (out, s))
        else Ret (out, s))"

text \<open>The window of a trigger, in up to three pieces where it wraps around the end of the buffer.\<close>

definition ReadDMABuf :: "board \<Rightarrow> (u32 \<Rightarrow> u32) \<Rightarrow> TriggerInfo \<Rightarrow> psc \<Rightarrow> (f32 list \<times> psc) run" where
  "ReadDMABuf b ddr trig s =
     (let startaddr = addr trig - pretrigpts trig * BUFSTEPBYTES;
          stopaddr = addr trig + posttrigpts trig * BUFSTEPBYTES;
          BUFSTEPWORDS = BUFSTEPBYTES div 4
      in if startaddr < 0x10000000
      then
        let presecnumwords = drop_bit 2 (addr trig - BUFSTART);
            prefirstnumwords = pretrigpts trig * WORDSPERSAMPLE - presecnumwords;
            startaddr = BUFSTART + BUFLEN - prefirstnumwords * 4
        in run_bind (CopyDataChan b ddr startaddr prefirstnumwords (channum trig) ([], s)) (\<lambda>st.
           run_bind (CopyDataChan b ddr BUFSTART presecnumwords (channum trig) st)
             (CopyDataChan b ddr (addr trig) (posttrigpts trig * BUFSTEPWORDS) (channum trig)))
      else if BUFSTART + BUFLEN < stopaddr
      then
        let postfirstnumwords = drop_bit 2 (BUFSTART + BUFLEN - addr trig);
            postsecnumwords = posttrigpts trig * WORDSPERSAMPLE - postfirstnumwords
        in run_bind (CopyDataChan b ddr startaddr (pretrigpts trig * BUFSTEPWORDS) (channum trig) ([], s)) (\<lambda>st.
           run_bind (CopyDataChan b ddr (addr trig) postfirstnumwords (channum trig) st)
             (CopyDataChan b ddr BUFSTART postsecnumwords (channum trig)))
      else
        CopyDataChan b ddr startaddr ((pretrigpts trig + posttrigpts trig) * BUFSTEPWORDS) (channum trig) ([], s))"

section \<open>The window is a window of the ring\<close>

text \<open>The buffer is a ring of 200000 slots of a sample; the words of slot \<open>q\<close>.\<close>

definition slot_words :: "(u32 \<Rightarrow> u32) \<Rightarrow> nat \<Rightarrow> nat \<Rightarrow> u32" where
  "slot_words ddr q j = ddr (BUFSTART + word_of_nat (160 * q + 4 * j))"

lemma length_sample_floats [simp]: "length (sample_floats chan digpid sf dacv w) = 10"
  by (simp add: sample_floats_def Let_def)

lemma unat_small: "n < 2 ^ 32 \<Longrightarrow> unat (word_of_nat n :: u32) = n"
  by (simp add: unat_of_nat take_bit_nat_eq_self)

text \<open>Only the first 34 words of a slot are used.\<close>

lemma sample_floats_cong:
  assumes "\<And>j. j < 40 \<Longrightarrow> w j = w' j"
  shows "sample_floats chan digpid sf dacv w = sample_floats chan digpid sf dacv w'"
  using assms by (simp add: sample_floats_def chan_offset_def Let_def)

lemma copy_run:
  assumes "sf_at chan s = Ret sf" "buf_data = BUFSTART + word_of_nat (160 * q)"
  shows "length out + 10 * m \<le> MSGWFMLEN div 4 \<Longrightarrow>
    run_fold (copy_sample ddr s chan digpid buf_data) [0..<m] out =
      Ret (out @ concat (map (\<lambda>k. sample_floats chan digpid sf (CONVDACBITSTOVOLTS s) (slot_words ddr (q + k))) [0..<m]))"
proof (induction m)
  case (Suc m)
  have len: "length (concat (map (\<lambda>k. sample_floats chan digpid sf (CONVDACBITSTOVOLTS s) (slot_words ddr (q + k))) [0..<m])) = 10 * m"
    by (induction m) simp_all
  have "buf_data + word_of_nat (4 * (40 * m + j)) = BUFSTART + word_of_nat (160 * (q + m) + 4 * j)" for j
    by (simp add: assms(2) algebra_simps)
  then have "(\<lambda>j. ddr (buf_data + word_of_nat (4 * (40 * m + j)))) = slot_words ddr (q + m)"
    unfolding slot_words_def by (simp only:)
  with Suc len show ?case
    by (simp add: run_fold_append copy_sample_def assms(1))
qed simp

text \<open>\<open>m\<close> slots from slot \<open>q\<close> on, of one of the four channels.\<close>

lemma CopyDataChan_slots:
  assumes "sf_at chan s = Ret sf" "chan = 1 \<or> chan = 2 \<or> chan = 3 \<or> chan = 4"
    and "buf_data = BUFSTART + word_of_nat (160 * q)" "numwords = word_of_nat (40 * m)" "m \<le> 100000"
    and "length out + 10 * m \<le> MSGWFMLEN div 4"
    and d: "reg_answer b (bus s) (chan_reg b chan DPID_ENB_REG) = digpid"
  shows "CopyDataChan b ddr buf_data numwords chan (out, s) =
    Ret (out @ concat (map (\<lambda>k. sample_floats chan digpid sf (CONVDACBITSTOVOLTS s) (slot_words ddr (q + k))) [0..<m]),
         s\<lparr>bus := bus s @ [Rd (chan_reg b chan DPID_ENB_REG)]\<rparr>)"
proof -
  let ?s = "s\<lparr>bus := bus s @ [Rd (chan_reg b chan DPID_ENB_REG)]\<rparr>"
  have "unat numwords = 40 * m" using assms(5) unfolding assms(4) by (intro unat_small) simp
  then have "(unat numwords + 39) div 40 = m" by simp
  moreover have "sf_at chan ?s = Ret sf" using assms(1) by (simp add: sf_at_def split: if_splits)
  note copy_run [OF this assms(3,6), of ddr digpid]
  ultimately show ?thesis using assms(2) d by (auto simp: CopyDataChan_def Xil_In32_def)
qed

text \<open>
  The addresses of the window: the trigger's sample is in slot \<open>p\<close>, \<open>pre\<close> samples before it and
  \<open>post\<close> from it on are wanted. The gateware's ring has one slot more than the code's, so \<open>p\<close> can
  be 200000.
\<close>

lemma window_start:
  assumes "addr trig = BUFSTART + word_of_nat (160 * p)" "pretrigpts trig = word_of_nat pre" "p \<le> 200000" "pre \<le> 100000"
  shows "addr trig - pretrigpts trig * BUFSTEPBYTES < BUFSTART \<longleftrightarrow> p < pre"
    and "pre \<le> p \<Longrightarrow> addr trig - pretrigpts trig * BUFSTEPBYTES = BUFSTART + word_of_nat (160 * (p - pre))"
proof -
  have "addr trig = word_of_nat (268435456 + 160 * p)" "pretrigpts trig * BUFSTEPBYTES = word_of_nat (160 * pre)"
    by (simp_all add: assms(1,2))
  moreover have le: "160 * pre \<le> 268435456 + 160 * p" using assms(4) by simp
  ultimately have start: "addr trig - pretrigpts trig * BUFSTEPBYTES = word_of_nat (268435456 + 160 * p - 160 * pre)"
    by (simp only: of_nat_diff)
  have "unat (addr trig - pretrigpts trig * BUFSTEPBYTES) = 268435456 + 160 * p - 160 * pre"
    unfolding start using assms(3) by (intro unat_small) simp
  then show "addr trig - pretrigpts trig * BUFSTEPBYTES < BUFSTART \<longleftrightarrow> p < pre"
    using le by (simp add: word_less_nat_alt) arith
  show "addr trig - pretrigpts trig * BUFSTEPBYTES = BUFSTART + word_of_nat (160 * (p - pre))" if "pre \<le> p"
  proof -
    have "268435456 + 160 * p - 160 * pre = 268435456 + 160 * (p - pre)" using that by simp
    then show ?thesis unfolding start by (simp only: of_nat_add of_nat_numeral)
  qed
qed

lemma window_stop:
  assumes "addr trig = BUFSTART + word_of_nat (160 * p)" "posttrigpts trig = word_of_nat post" "p \<le> 200000" "post \<le> 100000"
  shows "BUFSTART + BUFLEN < addr trig + posttrigpts trig * BUFSTEPBYTES \<longleftrightarrow> 200000 < p + post"
proof -
  have stop: "addr trig + posttrigpts trig * BUFSTEPBYTES = word_of_nat (268435456 + 160 * p + 160 * post)"
    by (simp add: assms(1,2))
  have "unat (addr trig + posttrigpts trig * BUFSTEPBYTES) = 268435456 + 160 * p + 160 * post"
    unfolding stop using assms(3,4) by (intro unat_small) simp
  then show ?thesis by (simp add: word_less_nat_alt) arith
qed

lemma quarter: "n < 2 ^ 30 \<Longrightarrow> drop_bit 2 (word_of_nat (4 * n) :: u32) = word_of_nat n"
proof -
  assume n: "n < 2 ^ 30"
  then have "unat (word_of_nat (4 * n) :: u32) = 4 * n" by (intro unat_small) simp
  moreover have "unat (drop_bit 2 w) = unat w div 4" for w :: u32 by (simp add: drop_bit_eq_div unat_div)
  ultimately have "unat (drop_bit 2 (word_of_nat (4 * n) :: u32)) = n" by (simp only:)
  moreover have "unat (word_of_nat n :: u32) = n" using n by (intro unat_small) simp
  ultimately show ?thesis by (simp only: word_unat_eq_iff)
qed

lemma pre_words: "drop_bit 2 ((BUFSTART + word_of_nat (160 * p)) - BUFSTART) = (word_of_nat (40 * p) :: u32)"
  if "p \<le> 200000"
  using quarter [of "40 * p"] that by simp

lemma post_words: "drop_bit 2 (BUFSTART + BUFLEN - (BUFSTART + word_of_nat (160 * p))) = (word_of_nat (40 * (200000 - p)) :: u32)"
  if "p \<le> 200000"
proof -
  have "(BUFLEN :: u32) - word_of_nat (160 * p) = word_of_nat (32000000 - 160 * p)"
    using that by (simp add: of_nat_diff)
  also have "32000000 - 160 * p = 4 * (40 * (200000 - p))" using that by simp
  finally show ?thesis using quarter [of "40 * (200000 - p)"] that by simp
qed

definition window :: "nat \<Rightarrow> nat \<Rightarrow> nat \<Rightarrow> nat list" where
  "window p pre n = map (\<lambda>i. (p + 200000 - pre + i) mod 200000) [0..<n]"

lemma segment: "(\<And>i. i < m \<Longrightarrow> h i = q + i) \<Longrightarrow> map h [0..<m] = [q..<q + m]"
  by (rule nth_equalityI) simp_all

lemma upt_join: "i \<le> j \<Longrightarrow> j \<le> k \<Longrightarrow> [i..<j] @ [j..<k] = [i..<k]"
  using upt_add_eq_append [of i j "k - j"] by simp

lemma map_upt_split: "map h [0..<m + n] = map h [0..<m] @ map (\<lambda>i. h (m + i)) [0..<n]"
  by (rule nth_equalityI) (auto simp: nth_append)

lemma window_pre_wrap:
  assumes "p < pre" "pre + post \<le> 100000"
  shows "window p pre (pre + post) = [200000 - (pre - p)..<200000] @ [0..<p] @ [p..<p + post]"
proof -
  have "map (\<lambda>i. (p + 200000 - pre + i) mod 200000) [0..<pre - p] = [200000 - (pre - p)..<200000 - (pre - p) + (pre - p)]"
    using assms by (intro segment) auto
  moreover have "map (\<lambda>i. (p + 200000 - pre + (pre - p + i)) mod 200000) [0..<p + post] = [0..<0 + (p + post)]"
    using assms by (intro segment) auto
  moreover have "pre + post = (pre - p) + (p + post)" "[0..<p + post] = [0..<p] @ [p..<p + post]"
    using assms by (simp_all add: upt_join)
  ultimately show ?thesis
    using assms(1,2) map_upt_split [of "\<lambda>i. (p + 200000 - pre + i) mod 200000" "pre - p" "p + post"]
    by (simp add: window_def)
qed

lemma window_no_wrap:
  assumes "pre \<le> p" "p + post \<le> 200000"
  shows "window p pre (pre + post) = [p - pre..<p + post]"
proof -
  have "window p pre (pre + post) = [p - pre..<p - pre + (pre + post)]"
    unfolding window_def using assms by (intro segment) (simp add: mod_if)
  then show ?thesis using assms by simp
qed

lemma window_post_wrap:
  assumes "pre \<le> p" "p \<le> 200000" "200000 < p + post" "post \<le> 100000"
  shows "window p pre (pre + post) = [p - pre..<p] @ [p..<200000] @ [0..<p + post - 200000]"
proof -
  have "map (\<lambda>i. (p + 200000 - pre + i) mod 200000) [0..<pre + (200000 - p)] = [p - pre..<p - pre + (pre + (200000 - p))]"
    using assms by (intro segment) (simp add: mod_if)
  moreover have "map (\<lambda>i. (p + 200000 - pre + (pre + (200000 - p) + i)) mod 200000) [0..<p + post - 200000]
      = [0..<0 + (p + post - 200000)]"
    using assms by (intro segment) (simp add: mod_if)
  moreover have "pre + post = (pre + (200000 - p)) + (p + post - 200000)"
    "[p - pre..<p - pre + (pre + (200000 - p))] = [p - pre..<p] @ [p..<200000]"
    using assms upt_join [of "p - pre" p 200000] by simp_all
  ultimately show ?thesis
    using map_upt_split [of "\<lambda>i. (p + 200000 - pre + i) mod 200000" "pre + (200000 - p)" "p + post - 200000"]
    by (simp add: window_def)
qed

text \<open>A segment of the ring as floats, and what a copy from slot \<open>q\<close> on yields.\<close>

definition ring_floats :: "u32 \<Rightarrow> u32 \<Rightarrow> psc \<Rightarrow> ScaleFactorType \<Rightarrow> (u32 \<Rightarrow> u32) \<Rightarrow> nat list \<Rightarrow> f32 list" where
  "ring_floats chan digpid s sf ddr qs =
     concat (map (\<lambda>q. sample_floats chan digpid sf (CONVDACBITSTOVOLTS s) (slot_words ddr q)) qs)"

lemma ring_floats_simps [simp]:
  "ring_floats chan d s sf ddr [] = []"
  "ring_floats chan d s sf ddr (qs @ rs) = ring_floats chan d s sf ddr qs @ ring_floats chan d s sf ddr rs"
  "length (ring_floats chan d s sf ddr qs) = 10 * length qs"
  "ring_floats chan d (s\<lparr>bus := h\<rparr>) sf ddr qs = ring_floats chan d s sf ddr qs"
proof -
  show "length (ring_floats chan d s sf ddr qs) = 10 * length qs"
    by (induction qs) (simp_all add: ring_floats_def)
qed (simp_all add: ring_floats_def)

definition dpid_reads :: "board \<Rightarrow> u32 \<Rightarrow> nat \<Rightarrow> psc \<Rightarrow> psc" where
  "dpid_reads b chan k s = s\<lparr>bus := bus s @ replicate k (Rd (chan_reg b chan DPID_ENB_REG))\<rparr>"

lemma dpid_reads_sel [simp]:
  "ring_floats chan d (dpid_reads b c k s) sf ddr qs = ring_floats chan d s sf ddr qs"
  "sf_at chan (dpid_reads b c k s) = sf_at chan s"
  "dpid_reads b c 0 s = s"
  by (simp_all add: dpid_reads_def sf_at_def)

text \<open>
  A channel that can be copied; \<open>d k\<close> is what the \<open>k\<close>-th read of the digital regulator's register
  gives, once for each piece of the window.
\<close>

definition copyable :: "board \<Rightarrow> u32 \<Rightarrow> (nat \<Rightarrow> u32) \<Rightarrow> ScaleFactorType \<Rightarrow> psc \<Rightarrow> bool" where
  "copyable b chan d sf s \<longleftrightarrow> sf_at chan s = Ret sf \<and> (chan = 1 \<or> chan = 2 \<or> chan = 3 \<or> chan = 4)
     \<and> (\<forall>k < 3. reg_answer b (bus (dpid_reads b chan k s)) (chan_reg b chan DPID_ENB_REG) = d k)"

lemma copy_slots:
  assumes "copyable b chan d sf s" "k < 3" "q \<le> r" "r - q \<le> 100000"
    and "buf_data = BUFSTART + word_of_nat (160 * q)" "numwords = word_of_nat (40 * (r - q))"
    and "length out + 10 * (r - q) \<le> MSGWFMLEN div 4"
  shows "CopyDataChan b ddr buf_data numwords chan (out, dpid_reads b chan k s) =
    Ret (out @ ring_floats chan (d k) s sf ddr [q..<r], dpid_reads b chan (Suc k) s)"
proof -
  have "sf_at chan (dpid_reads b chan k s) = Ret sf" "chan = 1 \<or> chan = 2 \<or> chan = 3 \<or> chan = 4"
    "reg_answer b (bus (dpid_reads b chan k s)) (chan_reg b chan DPID_ENB_REG) = d k"
    using assms(1,2) by (simp_all add: copyable_def)
  from CopyDataChan_slots [OF this(1,2) assms(5,6,4,7) this(3), of ddr]
  have "CopyDataChan b ddr buf_data numwords chan (out, dpid_reads b chan k s) =
    Ret (out @ ring_floats chan (d k) s sf ddr (map (\<lambda>k. q + k) [0..<r - q]), dpid_reads b chan (Suc k) s)"
    by (simp add: ring_floats_def dpid_reads_def replicate_append_same o_def)
  moreover have "map (\<lambda>k. q + k) [0..<r - q] = [q..<r]" using assms(3) segment [of "r - q" "\<lambda>k. q + k" q] by simp
  ultimately show ?thesis by simp
qed

text \<open>The three cases of \<open>ReadDMABuf\<close>, each with the segments it copies.\<close>

lemma ReadDMABuf_pre_wrap:
  assumes a: "addr trig = BUFSTART + word_of_nat (160 * p)" "pretrigpts trig = word_of_nat pre" "posttrigpts trig = word_of_nat post"
    and p: "p < pre" "pre + post \<le> 100000" and c: "copyable b (channum trig) d sf s"
  shows "ReadDMABuf b ddr trig s = Ret (ring_floats (channum trig) (d 0) s sf ddr [200000 - (pre - p)..<200000]
    @ ring_floats (channum trig) (d (Suc 0)) s sf ddr [0..<p] @ ring_floats (channum trig) (d (Suc (Suc 0))) s sf ddr [p..<p + post],
    dpid_reads b (channum trig) 3 s)"
proof -
  have pp: "p \<le> 200000" "pre \<le> 100000" using p by simp_all
  have n1: "pretrigpts trig * WORDSPERSAMPLE - word_of_nat (40 * p) = word_of_nat (40 * (200000 - (200000 - (pre - p))))"
    using p by (simp add: a(2) of_nat_diff right_diff_distrib)
  have s1: "BUFSTART + BUFLEN - word_of_nat (40 * (200000 - (200000 - (pre - p)))) * 4
      = BUFSTART + word_of_nat (160 * (200000 - (pre - p)))"
    using p by (simp add: of_nat_diff)
  have n3: "posttrigpts trig * (BUFSTEPBYTES div 4) = word_of_nat (40 * (p + post - p))" by (simp add: a(3))
  have words: "drop_bit 2 (addr trig - BUFSTART) = word_of_nat (40 * p)"
    unfolding a(1) using pre_words [OF pp(1)] by simp
  have b0: "BUFSTART = (BUFSTART + word_of_nat (160 * 0) :: u32)" by simp
  let ?c = "channum trig"
  let ?f = "\<lambda>k. ring_floats ?c (d k) s sf ddr"
  let ?N = "word_of_nat (40 * (200000 - (200000 - (pre - p)))) :: u32"
  have c1: "CopyDataChan b ddr (BUFSTART + BUFLEN - ?N * 4) ?N ?c ([], dpid_reads b ?c 0 s) =
      Ret ([] @ ?f 0 [200000 - (pre - p)..<200000], dpid_reads b ?c (Suc 0) s)"
    by (rule copy_slots [OF c _ _ _ s1 refl]) (use p in simp_all)
  have c2: "CopyDataChan b ddr BUFSTART (word_of_nat (40 * p)) ?c ([] @ ?f 0 [200000 - (pre - p)..<200000], dpid_reads b ?c (Suc 0) s) =
      Ret (([] @ ?f 0 [200000 - (pre - p)..<200000]) @ ?f (Suc 0) [0..<p], dpid_reads b ?c (Suc (Suc 0)) s)"
    by (rule copy_slots [OF c _ _ _ b0]) (use p in simp_all)
  have c3: "CopyDataChan b ddr (addr trig) (posttrigpts trig * (BUFSTEPBYTES div 4)) ?c
      (([] @ ?f 0 [200000 - (pre - p)..<200000]) @ ?f (Suc 0) [0..<p], dpid_reads b ?c (Suc (Suc 0)) s) =
      Ret ((([] @ ?f 0 [200000 - (pre - p)..<200000]) @ ?f (Suc 0) [0..<p]) @ ?f (Suc (Suc 0)) [p..<p + post], dpid_reads b ?c (Suc (Suc (Suc 0))) s)"
    by (rule copy_slots [OF c _ _ _ a(1) n3]) (use p in simp_all)
  have start: "addr trig - pretrigpts trig * BUFSTEPBYTES < BUFSTART"
    using window_start(1) [OF a(1,2) pp] p(1) by simp
  have three: "(3 :: nat) = Suc (Suc (Suc 0))" by simp
  show ?thesis
    unfolding ReadDMABuf_def Let_def words n1 if_P [OF start] three
    by (simp only: c1 [unfolded dpid_reads_sel(3)] c2 c3 run_bind_simps) (simp only: append_assoc append_Nil)
qed

lemma ReadDMABuf_post_wrap:
  assumes a: "addr trig = BUFSTART + word_of_nat (160 * p)" "pretrigpts trig = word_of_nat pre" "posttrigpts trig = word_of_nat post"
    and p: "pre \<le> p" "p \<le> 200000" "200000 < p + post" "pre + post \<le> 100000" and c: "copyable b (channum trig) d sf s"
  shows "ReadDMABuf b ddr trig s = Ret (ring_floats (channum trig) (d 0) s sf ddr [p - pre..<p]
    @ ring_floats (channum trig) (d (Suc 0)) s sf ddr [p..<200000] @ ring_floats (channum trig) (d (Suc (Suc 0))) s sf ddr [0..<p + post - 200000],
    dpid_reads b (channum trig) 3 s)"
proof -
  have pp: "pre \<le> 100000" "post \<le> 100000" using p by simp_all
  have n1: "pretrigpts trig * (BUFSTEPBYTES div 4) = word_of_nat (40 * (p - (p - pre)))" using p(1) by (simp add: a(2))
  have words: "drop_bit 2 (BUFSTART + BUFLEN - addr trig) = word_of_nat (40 * (200000 - p))"
    unfolding a(1) by (rule post_words [OF p(2)])
  have n3: "posttrigpts trig * WORDSPERSAMPLE - word_of_nat (40 * (200000 - p)) = word_of_nat (40 * (p + post - 200000 - 0))"
    using p by (simp add: a(3) of_nat_diff right_diff_distrib)
  have b0: "BUFSTART = (BUFSTART + word_of_nat (160 * 0) :: u32)" by simp
  let ?c = "channum trig"
  let ?f = "\<lambda>k. ring_floats ?c (d k) s sf ddr"
  let ?s0 = "addr trig - pretrigpts trig * BUFSTEPBYTES"
  have c1: "CopyDataChan b ddr ?s0 (pretrigpts trig * (BUFSTEPBYTES div 4)) ?c ([], dpid_reads b ?c 0 s) =
      Ret ([] @ ?f 0 [p - pre..<p], dpid_reads b ?c (Suc 0) s)"
    by (rule copy_slots [OF c _ _ _ window_start(2) [OF a(1,2) p(2) pp(1) p(1)] n1]) (use p in simp_all)
  have c2: "CopyDataChan b ddr (addr trig) (word_of_nat (40 * (200000 - p))) ?c ([] @ ?f 0 [p - pre..<p], dpid_reads b ?c (Suc 0) s) =
      Ret (([] @ ?f 0 [p - pre..<p]) @ ?f (Suc 0) [p..<200000], dpid_reads b ?c (Suc (Suc 0)) s)"
    by (rule copy_slots [OF c _ _ _ a(1)]) (use p in simp_all)
  have c3: "CopyDataChan b ddr BUFSTART (posttrigpts trig * WORDSPERSAMPLE - word_of_nat (40 * (200000 - p))) ?c
      (([] @ ?f 0 [p - pre..<p]) @ ?f (Suc 0) [p..<200000], dpid_reads b ?c (Suc (Suc 0)) s) =
      Ret ((([] @ ?f 0 [p - pre..<p]) @ ?f (Suc 0) [p..<200000]) @ ?f (Suc (Suc 0)) [0..<p + post - 200000], dpid_reads b ?c (Suc (Suc (Suc 0))) s)"
    by (rule copy_slots [OF c _ _ _ b0 n3]) (use p in simp_all)
  have start: "\<not> ?s0 < BUFSTART" using window_start(1) [OF a(1,2) p(2) pp(1)] p(1) by simp
  have stop: "BUFSTART + BUFLEN < addr trig + posttrigpts trig * BUFSTEPBYTES"
    using window_stop [OF a(1,3) p(2) pp(2)] p(3) by simp
  have three: "(3 :: nat) = Suc (Suc (Suc 0))" by simp
  show ?thesis
    unfolding ReadDMABuf_def Let_def words if_not_P [OF start] if_P [OF stop] three
    by (simp only: c1 [unfolded dpid_reads_sel(3)] c2 c3 run_bind_simps) (simp only: append_assoc append_Nil)
qed

lemma ReadDMABuf_no_wrap:
  assumes a: "addr trig = BUFSTART + word_of_nat (160 * p)" "pretrigpts trig = word_of_nat pre" "posttrigpts trig = word_of_nat post"
    and p: "pre \<le> p" "p + post \<le> 200000" "pre + post \<le> 100000" and c: "copyable b (channum trig) d sf s"
  shows "ReadDMABuf b ddr trig s = Ret (ring_floats (channum trig) (d 0) s sf ddr [p - pre..<p + post],
    dpid_reads b (channum trig) 1 s)"
proof -
  have pp: "p \<le> 200000" "pre \<le> 100000" "post \<le> 100000" using p by simp_all
  have n: "(pretrigpts trig + posttrigpts trig) * (BUFSTEPBYTES div 4) = word_of_nat (40 * (p + post - (p - pre)))"
    using p(1) by (simp add: a(2,3))
  let ?s0 = "addr trig - pretrigpts trig * BUFSTEPBYTES"
  have c1: "CopyDataChan b ddr ?s0 ((pretrigpts trig + posttrigpts trig) * (BUFSTEPBYTES div 4)) (channum trig)
      ([], dpid_reads b (channum trig) 0 s) =
      Ret ([] @ ring_floats (channum trig) (d 0) s sf ddr [p - pre..<p + post], dpid_reads b (channum trig) (Suc 0) s)"
    by (rule copy_slots [OF c _ _ _ window_start(2) [OF a(1,2) pp(1,2) p(1)] n]) (use p in simp_all)
  have start: "\<not> ?s0 < BUFSTART" using window_start(1) [OF a(1,2) pp(1,2)] p(1) by simp
  have stop: "\<not> BUFSTART + BUFLEN < addr trig + posttrigpts trig * BUFSTEPBYTES"
    using window_stop [OF a(1,3) pp(1,3)] p(2) by simp
  show ?thesis
    unfolding ReadDMABuf_def Let_def if_not_P [OF start] if_not_P [OF stop] One_nat_def
    by (simp only: c1 [unfolded dpid_reads_sel(3)] append_Nil)
qed

text \<open>All of them copy the window, in order, in one piece or in three.\<close>

definition pieces :: "nat \<Rightarrow> nat \<Rightarrow> nat \<Rightarrow> nat" where
  "pieces p pre post = (if p < pre \<or> 200000 < p + post then 3 else 1)"

lemma ReadDMABuf_window:
  assumes a: "addr trig = BUFSTART + word_of_nat (160 * p)" "pretrigpts trig = word_of_nat pre" "posttrigpts trig = word_of_nat post"
    and p: "p \<le> 200000" "pre + post \<le> 100000" and c: "copyable b (channum trig) (\<lambda>_. d) sf s"
  shows "ReadDMABuf b ddr trig s = Ret (ring_floats (channum trig) d s sf ddr (window p pre (pre + post)),
    dpid_reads b (channum trig) (pieces p pre post) s)"
proof -
  consider "p < pre" | "pre \<le> p" "200000 < p + post" | "pre \<le> p" "p + post \<le> 200000" by linarith
  then show ?thesis
  proof cases
    case 1
    show ?thesis using ReadDMABuf_pre_wrap [OF a 1 p(2) c] window_pre_wrap [OF 1 p(2)] 1 by (simp add: pieces_def)
  next
    case 2
    have "post \<le> 100000" using p(2) by simp
    then show ?thesis
      using ReadDMABuf_post_wrap [OF a 2(1) p(1) 2(2) p(2) c] window_post_wrap [OF 2(1) p(1) 2(2)] 2 by (simp add: pieces_def)
  next
    case 3
    show ?thesis using ReadDMABuf_no_wrap [OF a 3 p(2) c] window_no_wrap [OF 3] 3 by (simp add: pieces_def)
  qed
qed

text \<open>Whatever the regulator's register gives, the copy returns and has the length of the window.\<close>

lemma ReadDMABuf_Ret:
  assumes a: "addr trig = BUFSTART + word_of_nat (160 * p)" "pretrigpts trig = word_of_nat pre" "posttrigpts trig = word_of_nat post"
    and p: "p \<le> 200000" "pre + post \<le> 100000"
    and "sf_at (channum trig) s = Ret sf" "channum trig = 1 \<or> channum trig = 2 \<or> channum trig = 3 \<or> channum trig = 4"
  shows "\<exists>out k. ReadDMABuf b ddr trig s = Ret (out, dpid_reads b (channum trig) k s) \<and> length out = 10 * (pre + post)"
proof -
  define d where "d k = reg_answer b (bus (dpid_reads b (channum trig) k s)) (chan_reg b (channum trig) DPID_ENB_REG)" for k
  have c: "copyable b (channum trig) d sf s" using assms(6,7) by (simp add: copyable_def d_def)
  consider "p < pre" | "pre \<le> p" "200000 < p + post" | "pre \<le> p" "p + post \<le> 200000" by linarith
  then show ?thesis
  proof cases
    case 1
    have "10 * (pre - p) + 10 * p = 10 * pre" using 1 by simp
    then show ?thesis using ReadDMABuf_pre_wrap [OF a 1 p(2) c] 1 p by fastforce
  next
    case 2
    show ?thesis using ReadDMABuf_post_wrap [OF a 2(1) p(1) 2(2) p(2) c] 2 p by fastforce
  next
    case 3
    show ?thesis using ReadDMABuf_no_wrap [OF a 3 p(2) c] 3 by fastforce
  qed
qed

section \<open>Triggers\<close>

text \<open>The state machine of one trigger: detect a new address, wait, mark the buffer to be sent.\<close>

definition ProcessTrigger :: "TriggerInfo \<Rightarrow> TriggerInfo" where
  "ProcessTrigger trig =
     (let trig = (if addr trig \<noteq> addr_last trig \<and> active trig = 0
                  then trig\<lparr>active := 1, addr_last := addr trig, postdlycnt := 0\<rparr> else trig)
      in if active trig = 1
         then if postdlycnt trig < posttrigpts trig div 1000
              then trig\<lparr>postdlycnt := postdlycnt trig + 1\<rparr>
              else trig\<lparr>sendbuf := 1\<rparr>
         else trig)"

text \<open>The address is only read while the trigger is not active.\<close>

definition poll_trigger :: "board \<Rightarrow> u32 \<Rightarrow> TriggerInfo \<Rightarrow> psc \<Rightarrow> TriggerInfo \<times> psc" where
  "poll_trigger b r trig s =
     (let (trig, s) = (if active trig = 0
            then (case Xil_In32 b (glob_reg b r) s of (a, s) \<Rightarrow> (trig\<lparr>addr := a\<rparr>, s))
            else (trig, s))
      in (ProcessTrigger trig, s))"

fun poll_all :: "board \<Rightarrow> u32 list \<Rightarrow> TriggerInfo list \<Rightarrow> psc \<Rightarrow> TriggerInfo list \<times> psc" where
  "poll_all b (r # rs) (t # ts) s =
     (let (t, s) = poll_trigger b r t s; (ts, s) = poll_all b rs ts s in (t # ts, s))"
| "poll_all b _ _ s = ([], s)"

definition CheckforTriggers :: "board \<Rightarrow> TriggerTypes \<Rightarrow> psc \<Rightarrow> TriggerTypes \<times> psc" where
  "CheckforTriggers b trig s =
     (let (u, s) = poll_all b [USR1TRIG_BUFPTR, USR2TRIG_BUFPTR, USR3TRIG_BUFPTR, USR4TRIG_BUFPTR] (usr trig) s;
          (f, s) = poll_all b [FLT1TRIG_BUFPTR, FLT2TRIG_BUFPTR, FLT3TRIG_BUFPTR, FLT4TRIG_BUFPTR] (flt trig) s;
          (e, s) = poll_all b [ERR1TRIG_BUFPTR, ERR2TRIG_BUFPTR, ERR3TRIG_BUFPTR, ERR4TRIG_BUFPTR] (err trig) s;
          (j, s) = poll_all b [INJ1TRIG_BUFPTR, INJ2TRIG_BUFPTR, INJ3TRIG_BUFPTR, INJ4TRIG_BUFPTR] (inj trig) s;
          (v, s) = poll_all b [EVRTRIG_BUFPTR, EVRTRIG_BUFPTR, EVRTRIG_BUFPTR, EVRTRIG_BUFPTR] (evr trig) s
      in (\<lparr>usr = u, flt = f, err = e, inj = j, evr = v\<rparr>, s))"

definition init_trigger :: "u32 \<Rightarrow> u32 \<Rightarrow> u32 \<Rightarrow> u32 \<Rightarrow> TriggerInfo" where
  "init_trigger pre post msg i =
     \<lparr>addr = 0, addr_last = 0, pretrigpts = pre, posttrigpts = post, active = 0, postdlycnt = 0,
      sendbuf = 0, msgID = msg + i, channum = i + 1\<rparr>"

definition InitTriggerInfo :: TriggerTypes where
  "InitTriggerInfo =
     \<lparr>usr = map (init_trigger 50000 50000 MSGUSRCH1) [0, 1, 2, 3],
      flt = map (init_trigger 50000 50000 MSGFLTCH1) [0, 1, 2, 3],
      err = map (init_trigger 50000 50000 MSGERRCH1) [0, 1, 2, 3],
      inj = map (init_trigger 0 8000 MSGINJCH1) [0, 1, 2, 3],
      evr = map (init_trigger 50000 50000 MSGEVRCH1) [0, 1, 2, 3]\<rparr>"

section \<open>Sending\<close>

text \<open>The floats are written over the front of the trigger's buffer, then all of it is converted and sent.\<close>

type_synonym 'w chan_net = "psc_key option \<times> 'w"

definition SendWfmData ::
    "'w net \<Rightarrow> board \<Rightarrow> (io list \<Rightarrow> u32 \<Rightarrow> u32) \<Rightarrow> u8 list \<Rightarrow> TriggerInfo \<Rightarrow> psc \<Rightarrow> 'w chan_net
     \<Rightarrow> (u8 list \<times> TriggerInfo \<times> psc \<times> 'w chan_net) run" where
  "SendWfmData n b ddr msg trig s net =
     (let trig = trig\<lparr>sendbuf := 0, active := 0\<rparr>
      in run_bind (ReadDMABuf b (ddr (bus s)) trig s) (\<lambda>(out, s).
         run_bind (hton_conv (store (mem_words out) msg) MSGWFMLEN) (\<lambda>msg.
           Ret (msg, trig, s, psc_send n (ucast (msgID trig)) (take MSGWFMLEN msg) net))))"

text \<open>The static buffers of \<open>snapshot_push\<close>.\<close>

record wfm_bufs =
  msgUsr_buf :: "u8 list list"
  msgFlt_buf :: "u8 list list"
  msgErr_buf :: "u8 list list"
  msgInj_buf :: "u8 list list"
  msgEvr_buf :: "u8 list list"
  msgWfmStats_buf :: "u8 list"

definition send_ready ::
    "'w net \<Rightarrow> board \<Rightarrow> (io list \<Rightarrow> u32 \<Rightarrow> u32) \<Rightarrow> nat \<Rightarrow>
     u8 list list \<times> TriggerInfo list \<times> psc \<times> 'w chan_net \<Rightarrow>
     (u8 list list \<times> TriggerInfo list \<times> psc \<times> 'w chan_net) run" where
  "send_ready n b ddr i st =
     (case st of (bufs, ts, s, net) \<Rightarrow>
        if sendbuf (ts ! i) = 1
        then run_bind (SendWfmData n b ddr (bufs ! i) (ts ! i) s net) (\<lambda>(msg, t, s, net).
               Ret (bufs[i := msg], ts[i := t], s, net))
        else Ret (bufs, ts, s, net))"

type_synonym 'w snapshot = "wfm_bufs \<times> TriggerTypes \<times> psc \<times> 'w chan_net"

definition send_chan ::
    "'w net \<Rightarrow> board \<Rightarrow> (io list \<Rightarrow> u32 \<Rightarrow> u32) \<Rightarrow> nat \<Rightarrow> 'w snapshot \<Rightarrow> 'w snapshot run" where
  "send_chan n b ddr i st =
     (case st of (wb, trig, s, net) \<Rightarrow>
        run_bind (send_ready n b ddr i (msgUsr_buf wb, usr trig, s, net)) (\<lambda>(u, ut, s, net).
        run_bind (send_ready n b ddr i (msgFlt_buf wb, flt trig, s, net)) (\<lambda>(f, ft, s, net).
        run_bind (send_ready n b ddr i (msgErr_buf wb, err trig, s, net)) (\<lambda>(e, et, s, net).
        run_bind (send_ready n b ddr i (msgInj_buf wb, inj trig, s, net)) (\<lambda>(j, jt, s, net).
        run_bind (send_ready n b ddr i (msgEvr_buf wb, evr trig, s, net)) (\<lambda>(v, vt, s, net).
          Ret (\<lparr>msgUsr_buf = u, msgFlt_buf = f, msgErr_buf = e, msgInj_buf = j, msgEvr_buf = v,
                 msgWfmStats_buf = msgWfmStats_buf wb\<rparr>,
               \<lparr>usr = ut, flt = ft, err = et, inj = jt, evr = vt\<rparr>, s, net)))))))"

text \<open>
  One entry of the statistics: three registers are read, in this order. Of the event triggers
  the code reports the state of the fourth for all.
\<close>

definition read_snap :: "board \<Rightarrow> u32 \<Rightarrow> u32 \<Rightarrow> u32 \<Rightarrow> u32 \<Rightarrow> psc \<Rightarrow> SnapTrigData \<times> psc" where
  "read_snap b ptr sreg nsreg act s =
     (let (l, s) = Xil_In32 b (glob_reg b ptr) s;
          (t, s) = Xil_In32 b (glob_reg b sreg) s;
          (u, s) = Xil_In32 b (glob_reg b nsreg) s
      in (\<lparr>lataddr = l, active = act, ts_s = t, ts_ns = u\<rparr>, s))"

definition stats_row :: "board \<Rightarrow> TriggerTypes \<Rightarrow> nat \<Rightarrow> psc \<Rightarrow> SnapTrigData list \<times> psc" where
  "stats_row b trig i s =
     (let d = word_of_nat i * 0x10;
          (u, s) = read_snap b (USR1TRIG_BUFPTR + d) (USR1TRIG_TS_S + d) (USR1TRIG_TS_NS + d) (active (usr trig ! i)) s;
          (f, s) = read_snap b (FLT1TRIG_BUFPTR + d) (FLT1TRIG_TS_S + d) (FLT1TRIG_TS_NS + d) (active (flt trig ! i)) s;
          (e, s) = read_snap b (ERR1TRIG_BUFPTR + d) (ERR1TRIG_TS_S + d) (ERR1TRIG_TS_NS + d) (active (err trig ! i)) s;
          (j, s) = read_snap b (INJ1TRIG_BUFPTR + d) (INJ1TRIG_TS_S + d) (INJ1TRIG_TS_NS + d) (active (inj trig ! i)) s;
          (v, s) = read_snap b EVRTRIG_BUFPTR EVRTRIG_TS_S EVRTRIG_TS_NS (active (evr trig ! 3)) s
      in ([u, f, e, j, v], s))"

definition snap_words :: "SnapTrigData \<Rightarrow> u32 list" where
  "snap_words d = [lataddr d, SnapTrigData.active d, ts_s d, ts_ns d]"

text \<open>The rows of the loop, transposed into the order of \<open>SnapStatsMsg\<close>.\<close>

definition stats_words :: "board \<Rightarrow> TriggerTypes \<Rightarrow> psc \<Rightarrow> u32 list \<times> psc" where
  "stats_words b trig s =
     (let (cur, s) = Xil_In32 b (glob_reg b SNAPSHOT_ADDRPTR) s;
          (tot, s) = Xil_In32 b (glob_reg b SNAPSHOT_TOTALTRIGS) s;
          (r0, s) = stats_row b trig 0 s;
          (r1, s) = stats_row b trig 1 s;
          (r2, s) = stats_row b trig 2 s;
          (r3, s) = stats_row b trig 3 s
      in ([cur, tot] @ concat (map (\<lambda>k. concat (map (\<lambda>r. snap_words (r ! k)) [r0, r1, r2, r3])) [0..<5]), s))"

definition SendSnapShotStats ::
    "'w net \<Rightarrow> board \<Rightarrow> u8 list \<Rightarrow> TriggerTypes \<Rightarrow> psc \<Rightarrow> 'w chan_net \<Rightarrow> (u8 list \<times> psc \<times> 'w chan_net) run" where
  "SendSnapShotStats n b msg trig s net =
     (let (ws, s) = stats_words b trig s
      in run_bind (hton_conv (store (mem_words ws) msg) (4 * length ws)) (\<lambda>msg.
           Ret (msg, s, psc_send n MSGWFMSTATS (take MSGWFMSTATSLEN msg) net)))"

text \<open>One turn of the task's loop, after the delay of 100 ms.\<close>

definition snapshot_turn ::
    "'w net \<Rightarrow> board \<Rightarrow> (io list \<Rightarrow> u32 \<Rightarrow> u32) \<Rightarrow> 'w snapshot \<Rightarrow> 'w snapshot run" where
  "snapshot_turn n b ddr st =
     (case st of (wb, trig, s, net) \<Rightarrow>
        let (trig, s) = CheckforTriggers b trig s
        in run_bind (run_fold (send_chan n b ddr) [0, 1, 2, 3] (wb, trig, s, net)) (\<lambda>(wb, trig, s, net).
           run_bind (SendSnapShotStats n b (msgWfmStats_buf wb) trig s net) (\<lambda>(msg, s, net).
             Ret (wb\<lparr>msgWfmStats_buf := msg\<rparr>, trig, s, net))))"

section \<open>The message of a waveform\<close>

lemma take_words_of: "k \<le> n \<Longrightarrow> take k (words_of n bs) = words_of k bs"
  by (simp add: words_of_def take_map)

lemma words_of_append: "words_of (length ws) (mem_words ws @ rest) = ws"
proof -
  have "words_of (length ws) (mem_words ws @ rest) = words_of (length ws) (mem_words ws)"
    by (auto simp: words_of_def)
  then show ?thesis by (simp add: words_of_mem_words)
qed

text \<open>The copied floats come first in the message, in network order; its length is always the same.\<close>

lemma SendWfmData_message:
  assumes r: "ReadDMABuf b (ddr (bus s)) (trig\<lparr>sendbuf := 0, active := 0\<rparr>) s = Ret (out, s')"
    and len: "length msg = MSGWFMLEN" "length out \<le> 1000000"
  shows "\<exists>msg'. SendWfmData n b ddr msg trig s net =
      Ret (msg', trig\<lparr>sendbuf := 0, active := 0\<rparr>, s', psc_send n (ucast (msgID trig)) msg' net)
    \<and> length msg' = MSGWFMLEN \<and> take (4 * length out) msg' = concat (map be32 out)"
proof -
  let ?m = "store (mem_words out) msg"
  have l: "length ?m = MSGWFMLEN" using len by (simp add: length_store)
  have "hton_conv ?m (4 * 1000000) = Ret (concat (map be32 (words_of 1000000 ?m)) @ drop (4 * 1000000) ?m)"
    using l by (intro hton_conv_Ret) simp
  moreover have "4 * 1000000 = (MSGWFMLEN :: nat)" by simp
  ultimately have h: "hton_conv ?m MSGWFMLEN = Ret (concat (map be32 (words_of 1000000 ?m)))"
    using l by simp
  have c: "length (concat (map be32 (words_of 1000000 ?m))) = MSGWFMLEN"
    by (simp add: be32.length_concat_enc)
  have "words_of (length out) ?m = out" by (simp add: store_def words_of_append)
  then have "take (4 * length out) (concat (map be32 (words_of 1000000 ?m))) = concat (map be32 out)"
    using len(2) by (simp add: be32.take_concat_enc take_words_of)
  with r h c show ?thesis by (simp add: SendWfmData_def Let_def)
qed

section \<open>Properties\<close>

text \<open>
  C3. A waveform is the window of the ring around the trigger, wherever the window wraps: for a
  trigger in slot \<open>p\<close> the message starts with the samples of the \<open>pre\<close> slots before it and the
  \<open>post\<close> slots from it on, oldest first, ten converted values each of the trigger's channel, in
  network order. The copy returns, stays inside the message, and the trigger is idle again.
\<close>

theorem waveform_is_window:
  assumes "addr trig = BUFSTART + word_of_nat (160 * p)" "pretrigpts trig = word_of_nat pre" "posttrigpts trig = word_of_nat post"
    and "p \<le> 200000" "pre + post \<le> 100000" "copyable b (channum trig) (\<lambda>_. d) sf s" "length msg = MSGWFMLEN"
  shows "\<exists>msg' s'. SendWfmData n b ddr msg trig s net =
      Ret (msg', trig\<lparr>sendbuf := 0, active := 0\<rparr>, s', psc_send n (ucast (msgID trig)) msg' net)
    \<and> length msg' = MSGWFMLEN
    \<and> take (40 * (pre + post)) msg' =
        concat (map be32 (ring_floats (channum trig) d s sf (ddr (bus s)) (window p pre (pre + post))))"
proof -
  let ?t = "trig\<lparr>sendbuf := 0, active := 0\<rparr>"
  have "copyable b (channum ?t) (\<lambda>_. d) sf s" using assms(6) by simp
  with ReadDMABuf_window [of ?t p pre post b d sf s "ddr (bus s)"] assms(1-5)
  have r: "ReadDMABuf b (ddr (bus s)) ?t s =
      Ret (ring_floats (channum trig) d s sf (ddr (bus s)) (window p pre (pre + post)),
           dpid_reads b (channum trig) (pieces p pre post) s)"
    by simp
  have l: "length (window p pre (pre + post)) = pre + post" by (simp add: window_def)
  from SendWfmData_message [where ddr = ddr, OF r assms(7), of n net] l assms(5) show ?thesis
    by (auto simp: add_mult_distrib2)
qed

text \<open>Two samples before and one after a trigger in the first slot, of channel 2.\<close>

definition some_trig :: TriggerInfo where
  "some_trig = \<lparr>addr = BUFSTART + word_of_nat (160 * 0), addr_last = BUFSTART, pretrigpts = word_of_nat 2, posttrigpts = word_of_nat 1,
     active = 1, postdlycnt = 0, sendbuf = 1, msgID = 61, channum = 2\<rparr>"

definition quiet_board :: board where
  "quiet_board = \<lparr>axi_base = 0x43C00000, reg_answer = (\<lambda>_ _. 0), spi_answer = (\<lambda>_. [])\<rparr>"

definition unit_psc :: psc where
  "unit_psc = \<lparr>bus = [], scalefactors = replicate 4 \<lparr>ampspersec = 0x3F800000, dac_dccts = 0x3F800000, vout = 0x3F800000,
     ignd = 0x3F800000, spare = 0x3F800000, regulator = 0x3F800000, error = 0x3F800000\<rparr>,
     CONVVOLTSTODACBITS = 0x474CCCCD, CONVDACBITSTOVOLTS = 0x37A00000\<rparr>"

lemma unit_psc_copyable: "copyable quiet_board 2 (\<lambda>_. 0) (scalefactors unit_psc ! 1) unit_psc"
  by (simp add: copyable_def quiet_board_def unit_psc_def sf_at_def)

lemma some_window: "window 0 2 (2 + 1) = [199998, 199999, 0]"
  by (simp add: window_def upt_rec)

theorem waveform_is_window_witness:
  "\<exists>msg' s'. SendWfmData (log_net {6}) quiet_board (\<lambda>_ a. a) (replicate MSGWFMLEN 0) some_trig unit_psc (Some two_clients, \<lambda>_. []) =
      Ret (msg', some_trig\<lparr>sendbuf := 0, active := 0\<rparr>, s', psc_send (log_net {6}) 61 msg' (Some two_clients, \<lambda>_. []))
    \<and> length msg' = MSGWFMLEN
    \<and> take (40 * (2 + 1)) msg' =
        concat (map be32 (ring_floats 2 0 unit_psc (scalefactors unit_psc ! 1) (\<lambda>a. a) [199998, 199999, 0]))"
  using waveform_is_window [where trig = some_trig and p = 0 and pre = 2 and post = 1 and b = quiet_board and d = 0
      and sf = "scalefactors unit_psc ! 1" and s = unit_psc and msg = "replicate MSGWFMLEN 0" and n = "log_net {6}"
      and ddr = "\<lambda>_ a. a" and net = "(Some two_clients, \<lambda>_. [])"] unit_psc_copyable some_window
  by (simp add: some_trig_def)

text \<open>
  The gateware's address counter (adc2ddr.vhd): it starts over after the first slot that is not
  below the end of the buffer, so it writes slots 0 to 200000.
\<close>

definition next_slot :: "nat \<Rightarrow> nat" where
  "next_slot q = (if q < 200000 then q + 1 else 0)"

lemma next_slot_iter: "q \<le> 200000 \<Longrightarrow> (next_slot ^^ k) q = (q + k) mod 200001"
proof (induction k)
  case (Suc k)
  then show ?case by (auto simp: next_slot_def mod_Suc)
qed simp

text \<open>
  What the gateware keeps in the buffer. Samples are numbered from 0, which goes to slot 0; once sample
  \<open>T\<close> has been written, the last 200001 samples are there, \<open>S u\<close> the words of sample \<open>u\<close>.
\<close>

definition ring_holds :: "(nat \<Rightarrow> nat \<Rightarrow> u32) \<Rightarrow> (u32 \<Rightarrow> u32) \<Rightarrow> nat \<Rightarrow> bool" where
  "ring_holds S ddr T \<longleftrightarrow>
     (\<forall>u. u \<le> T \<longrightarrow> T < u + 200001 \<longrightarrow> (\<forall>j < 40. slot_words ddr ((next_slot ^^ u) 0) j = S u j))"

text \<open>
  The slots of a window that crosses the end, by the samples they hold: \<open>t\<close> is the sample at the
  trigger, and the run of \<open>n + 1\<close> samples has lost one.
\<close>

definition lost_sample :: "nat \<Rightarrow> nat \<Rightarrow> nat \<Rightarrow> nat" where
  "lost_sample t p pre = (if p < pre then t - p - 1 else t + (200000 - p))"

definition first_sample :: "nat \<Rightarrow> nat \<Rightarrow> nat \<Rightarrow> nat" where
  "first_sample t p pre = (if p < pre then t - pre - 1 else t - pre)"

lemma filter_upt_skip:
  assumes "a \<le> l" "l < e"
  shows "filter (\<lambda>u. u \<noteq> l) [a..<e] = [a..<l] @ [Suc l..<e]"
proof -
  have "[l..<e] = l # [Suc l..<e]" using assms(2) by (rule upt_conv_Cons)
  then have "[a..<e] = [a..<l] @ l # [Suc l..<e]" using upt_join [of a l e] assms by simp
  then show ?thesis by (simp add: filter_id_conv)
qed

lemma map_mod_upt:
  assumes "a mod 200001 = q" "q + m \<le> 200001"
  shows "map (\<lambda>u. u mod 200001) [a..<a + m] = [q..<q + m]"
proof (rule nth_equalityI)
  fix i assume "i < length (map (\<lambda>u. u mod 200001) [a..<a + m])"
  then have "(q + i) mod 200001 = q + i" using assms(2) by simp
  then have "(a + i) mod 200001 = q + i" using mod_add_left_eq [of a 200001 i] assms(1) by simp
  then show "map (\<lambda>u. u mod 200001) [a..<a + m] ! i = [q..<q + m] ! i"
    using \<open>i < length (map (\<lambda>u. u mod 200001) [a..<a + m])\<close> by simp
qed simp

lemma window_samples:
  assumes "p \<le> 200000" "pre + post \<le> 100000" "t mod 200001 = p" "pre < t" "p < pre \<or> 200000 < p + post"
  shows "window p pre (pre + post) = map (\<lambda>u. u mod 200001) (filter (\<lambda>u. u \<noteq> lost_sample t p pre)
      [first_sample t p pre..<first_sample t p pre + (pre + post + 1)])"
proof (cases "p < pre")
  case True
  obtain k where k: "t = 200001 * k + p" using assms(3) by (metis mult_div_mod_eq)
  with True assms(4) obtain j where "k = Suc j" by (cases k) auto
  then have t: "t = 200001 * j + 200001 + p" using k by simp
  let ?a = "t - pre - 1" and ?l = "t - p - 1"
  have e: "?a + (pre + post + 1) = t - p + (p + post)" "Suc ?l = t - p" "?l = ?a + (pre - p)" "?a \<le> ?l" "?l < t - p + (p + post)"
    using True assms(2) t by simp_all
  have "filter (\<lambda>u. u \<noteq> ?l) [?a..<?a + (pre + post + 1)] = [?a..<?a + (pre - p)] @ [t - p..<t - p + (p + post)]"
    using filter_upt_skip [OF e(4,5)] by (simp only: e(1,2) e(3) [symmetric])
  moreover have "?a = 200001 * j + (200000 - (pre - p))" using t True assms(2) by simp
  then have "?a mod 200001 = 200000 - (pre - p)" by simp
  note map_mod_upt [OF this, of "pre - p"]
  moreover have "(t - p) mod 200001 = 0" using t by simp
  note map_mod_upt [OF this, of "p + post"]
  moreover have "[0..<p + post] = [0..<p] @ [p..<p + post]" by (simp add: upt_join)
  ultimately show ?thesis
    using window_pre_wrap [OF True assms(2)] True assms(1,2) by (simp add: lost_sample_def first_sample_def)
next
  case False
  then have c: "pre \<le> p" "200000 < p + post" "post \<le> 100000" using assms(2,5) by auto
  obtain k where t: "t = 200001 * k + p" using assms(3) by (metis mult_div_mod_eq)
  let ?a = "t - pre" and ?l = "t + (200000 - p)"
  have e: "?a + (pre + post + 1) = Suc ?l + (p + post - 200000)" "?l = ?a + (pre + (200000 - p))" "?a \<le> ?l"
      "?l < Suc ?l + (p + post - 200000)"
    using c assms(1) t by simp_all
  have "filter (\<lambda>u. u \<noteq> ?l) [?a..<?a + (pre + post + 1)] =
      [?a..<?a + (pre + (200000 - p))] @ [Suc ?l..<Suc ?l + (p + post - 200000)]"
    using filter_upt_skip [OF e(3,4)] by (simp only: e(1) e(2) [symmetric])
  moreover have "?a = 200001 * k + (p - pre)" using t c by simp
  then have "?a mod 200001 = p - pre" using assms(1) by simp
  note map_mod_upt [OF this, of "pre + (200000 - p)"]
  moreover have "Suc ?l = 200001 * Suc k" using t assms(1) by simp
  then have "Suc ?l mod 200001 = 0" by simp
  note map_mod_upt [OF this, of "p + post - 200000"]
  moreover have "[p - pre..<200000] = [p - pre..<p] @ [p..<200000]" using assms(1) upt_join [of "p - pre" p 200000] by simp
  ultimately show ?thesis
    using window_post_wrap [OF c(1) assms(1) c(2,3)] False c assms(1) by (simp add: lost_sample_def first_sample_def)
qed

text \<open>
  C40. A waveform that crosses the end of the buffer has lost a sample. The gateware writes 200001 slots
  and the code reads 200000. Let \<open>t\<close> be the number of the sample at the trigger, in slot \<open>p\<close>, so that
  the samples asked for are \<open>t - pre\<close> to \<open>t + post - 1\<close>, and let these cross the end. If the
  buffer is read when they are all there and before any is overwritten, then what is sent is a
  run of consecutive samples but for one that is missing in the middle. That sample is one of those
  asked for. Its place is made up for with a sample more at the old end, if the end of the buffer
  lies before the trigger, and at the new end otherwise.
\<close>

theorem waveform_skips_slot:
  assumes "addr trig = BUFSTART + word_of_nat (160 * p)" "pretrigpts trig = word_of_nat pre" "posttrigpts trig = word_of_nat post"
    and "p \<le> 200000" "pre + post \<le> 100000" "copyable b (channum trig) (\<lambda>_. d) sf s"
    and "t mod 200001 = p" "pre < t" "p < pre \<or> 200000 < p + post"
    and "ring_holds S ddr T" "t + post \<le> T" "T + pre < t + 200000"
  shows "t - pre \<le> lost_sample t p pre \<and> lost_sample t p pre < t + post
    \<and> ReadDMABuf b ddr trig s =
      Ret (concat (map (\<lambda>u. sample_floats (channum trig) d sf (CONVDACBITSTOVOLTS s) (S u))
             (filter (\<lambda>u. u \<noteq> lost_sample t p pre) [first_sample t p pre..<first_sample t p pre + (pre + post + 1)])),
           dpid_reads b (channum trig) 3 s)"
proof -
  let ?us = "filter (\<lambda>u. u \<noteq> lost_sample t p pre) [first_sample t p pre..<first_sample t p pre + (pre + post + 1)]"
  have le: "first_sample t p pre + (pre + post + 1) \<le> T + 1" "T < first_sample t p pre + 200001"
    using assms(8,9,11,12) by (auto simp: first_sample_def)
  have "sample_floats c d sf v (slot_words ddr (u mod 200001)) = sample_floats c d sf v (S u)" if "u \<in> set ?us" for u c v
  proof (rule sample_floats_cong)
    have "first_sample t p pre \<le> u" "u < first_sample t p pre + (pre + post + 1)"
      using that by (simp_all only: set_filter mem_Collect_eq set_upt atLeastLessThan_iff)
    with le have "u \<le> T" "T < u + 200001" by linarith+
    then show "slot_words ddr (u mod 200001) j = S u j" if "j < 40" for j
      using assms(10) that by (simp add: ring_holds_def next_slot_iter)
  qed
  then have "ring_floats (channum trig) d s sf ddr (window p pre (pre + post)) =
      concat (map (\<lambda>u. sample_floats (channum trig) d sf (CONVDACBITSTOVOLTS s) (S u)) ?us)"
    unfolding ring_floats_def window_samples [OF assms(4,5,7,8,9)] map_map o_def by (metis (no_types, lifting) map_cong)
  moreover have "pieces p pre post = 3" using assms(9) by (simp add: pieces_def)
  moreover have "t - pre \<le> lost_sample t p pre \<and> lost_sample t p pre < t + post"
    using assms(4,8,9) by (auto simp: lost_sample_def)
  ultimately show ?thesis using ReadDMABuf_window [OF assms(1-6), of ddr] by simp
qed

text \<open>
  The trigger in the first slot, the buffer once around, with a buffer that has the number of its
  slot in every word: sample 200000 is the one that is lost.
\<close>

definition slot_numbers :: "u32 \<Rightarrow> u32" where
  "slot_numbers a = word_of_nat (unat (a - BUFSTART) div 160)"

lemma slot_numbers_words: "q \<le> 200000 \<Longrightarrow> j < 40 \<Longrightarrow> slot_words slot_numbers q j = word_of_nat q"
  unfolding slot_words_def slot_numbers_def add_diff_cancel_left' by (subst unat_small) auto

lemma slot_numbers_ring: "ring_holds (\<lambda>u _. word_of_nat (u mod 200001)) slot_numbers T"
proof -
  have "u mod 200001 \<le> 200000" for u :: nat using mod_less_divisor [of 200001 u] by linarith
  then show ?thesis by (simp add: ring_holds_def next_slot_iter slot_numbers_words)
qed

theorem waveform_skips_slot_witness:
  "lost_sample 200001 0 2 = 200000 \<and>
   ReadDMABuf quiet_board slot_numbers some_trig unit_psc =
     Ret (concat (map (\<lambda>u. sample_floats 2 0 (scalefactors unit_psc ! 1) (CONVDACBITSTOVOLTS unit_psc) (\<lambda>_. word_of_nat (u mod 200001)))
            [199998, 199999, 200001]),
          dpid_reads quiet_board 2 3 unit_psc)"
proof -
  have "lost_sample 200001 0 2 = 200000" "first_sample 200001 0 2 = 199998"
    by (simp_all add: lost_sample_def first_sample_def)
  moreover have "filter (\<lambda>u. u \<noteq> 200000) [199998..<199998 + (2 + 1 + 1)] = [199998, 199999, 200001 :: nat]"
    by (simp add: upt_rec)
  ultimately show ?thesis
    using waveform_skips_slot [where trig = some_trig and p = 0 and pre = 2 and post = 1 and b = quiet_board and d = 0
        and sf = "scalefactors unit_psc ! 1" and s = unit_psc and t = 200001 and T = 200002, OF _ _ _ _ _ _ _ _ _ slot_numbers_ring]
      unit_psc_copyable by (simp add: some_trig_def)
qed

text \<open>
  The error signal of channel 1 loses its sign: with the digital regulator off, the sample
  \<open>-1\<close> is sent as 1310720 volts, by channels 2 to 4 as -0.3 millivolts (at a scale factor of 1).
\<close>

theorem chan1_error_unsigned:
  "sample_floats 1 0 (scalefactors unit_psc ! 0) 0x37A00000 (\<lambda>_. 0xFFFFFFFF) ! 9 = 0x49A00000
    \<and> sample_floats 2 0 (scalefactors unit_psc ! 0) 0x37A00000 (\<lambda>_. 0xFFFFFFFF) ! 9 = 0xB9A00000"
proof -
  have "CONVVOLTSTO16BITS = 0x40A999999999999A"
    by (simp add: CONVVOLTSTO16BITS_def float_eval)
  moreover have "f64_lit 1 1 = 0x3FF0000000000000" by (simp add: float_eval)
  moreover have "f64_div 0x3FF0000000000000 0x40A999999999999A = 0x3F34000000000000" by (simp add: float_eval)
  ultimately have c: "CONV16BITSTOVOLTS = 0x3F34000000000000"
    by (simp only: CONV16BITSTOVOLTS_def)
  have one: "f64_of_f32 0x3F800000 = 0x3FF0000000000000" by (simp add: float_eval)
  have "f64_of_int 4294967295 = 0x41EFFFFFFFE00000" by (simp add: f64_of_int_def float_eval)
  moreover have "f64_mul 0x41EFFFFFFFE00000 0x3F34000000000000 = 0x4133FFFFFFEC0000"
    "f64_mul 0x4133FFFFFFEC0000 0x3FF0000000000000 = 0x4133FFFFFFEC0000" "f32_of_f64 0x4133FFFFFFEC0000 = 0x49A00000"
    by (simp_all add: float_eval)
  ultimately have u: "adc_scale 0x3F800000 (f64_of_int 4294967295) = 0x49A00000"
    by (simp add: adc_scale_def c one)
  have "f32_of_int (-1) = 0xBF800000" "f64_of_f32 0xBF800000 = 0xBFF0000000000000"
    "f64_mul 0xBFF0000000000000 0x3F34000000000000 = 0xBF34000000000000"
    "f64_mul 0xBF34000000000000 0x3FF0000000000000 = 0xBF34000000000000" "f32_of_f64 0xBF34000000000000 = 0xB9A00000"
    by (simp_all add: float_eval)
  then have "adc_scale 0x3F800000 (f64_of_f32 (f32_of_int (-1))) = 0xB9A00000"
    by (simp add: adc_scale_def c one)
  then show ?thesis
    using u by (simp add: sample_floats_def Let_def unit_psc_def adc_val_def)
qed

end
