(* ===== verification/Snapshot_Task.thy ===== *)
theory Snapshot_Task
  imports Snapshots
begin

text \<open>
  The task of snapshots.c in time: its turns, between which the other tasks of the system act on
  the bus, the scale factors and the client table. The five kinds of trigger are five providers
  of one interface, \<open>trigger_source\<close>.
\<close>

section \<open>One trigger\<close>

text \<open>What a turn does to a trigger whose pointer register gives \<open>v\<close>, and what sending does to it.\<close>

definition observe :: "u32 \<Rightarrow> TriggerInfo \<Rightarrow> TriggerInfo" where
  "observe v t = ProcessTrigger (if active t = 0 then t\<lparr>addr := v\<rparr> else t)"

definition after_send :: "TriggerInfo \<Rightarrow> TriggerInfo" where
  "after_send t = (if sendbuf t = 1 then t\<lparr>sendbuf := 0, active := 0\<rparr> else t)"

definition slot_ptr :: "u32 \<Rightarrow> bool" where
  "slot_ptr a \<longleftrightarrow> (\<exists>p \<le> 200000. a = BUFSTART + word_of_nat (160 * p))"

text \<open>Later on the bus; the number of scale factors stays.\<close>

definition later :: "psc \<Rightarrow> psc \<Rightarrow> bool" where
  "later s s' \<longleftrightarrow> (\<exists>es. bus s' = bus s @ es) \<and> length (scalefactors s') = length (scalefactors s)"

lemma later_refl [simp, intro]: "later s s"
  by (simp add: later_def)

lemma later_trans [trans]: "later s t \<Longrightarrow> later t u \<Longrightarrow> later s u"
  by (auto simp: later_def)

lemma later_Xil_In32 [simp]: "later s (snd (Xil_In32 b a s))"
  by (simp add: later_def)

text \<open>
  The pointer registers of the gateware (ps_io.vhd): 0 until the first trigger, then always the
  address of a slot.
\<close>

definition pointer_regs :: "u32 set" where
  "pointer_regs = {USR1TRIG_BUFPTR, USR2TRIG_BUFPTR, USR3TRIG_BUFPTR, USR4TRIG_BUFPTR,
     FLT1TRIG_BUFPTR, FLT2TRIG_BUFPTR, FLT3TRIG_BUFPTR, FLT4TRIG_BUFPTR,
     ERR1TRIG_BUFPTR, ERR2TRIG_BUFPTR, ERR3TRIG_BUFPTR, ERR4TRIG_BUFPTR,
     INJ1TRIG_BUFPTR, INJ2TRIG_BUFPTR, INJ3TRIG_BUFPTR, INJ4TRIG_BUFPTR, EVRTRIG_BUFPTR}"

definition pointer_board :: "board \<Rightarrow> bool" where
  "pointer_board b \<longleftrightarrow> (\<forall>r \<in> pointer_regs. \<forall>h es.
     slot_ptr (reg_answer b (h @ es) (glob_reg b r)) \<or>
     reg_answer b (h @ es) (glob_reg b r) = 0 \<and> reg_answer b h (glob_reg b r) = 0)"

text \<open>A value the trigger may have stored: 0, or what the register gave at some time up to now.\<close>

definition seen :: "board \<Rightarrow> u32 \<Rightarrow> psc \<Rightarrow> u32 \<Rightarrow> bool" where
  "seen b r s a \<longleftrightarrow> a = 0 \<or> (\<exists>h es. bus s = h @ es \<and> reg_answer b h (glob_reg b r) = a)"

lemma seen_later: "seen b r s a \<Longrightarrow> later s s' \<Longrightarrow> seen b r s' a"
  unfolding seen_def later_def by (metis append_assoc)

lemma new_pointer:
  assumes "pointer_board b" "r \<in> pointer_regs" "seen b r s a" "reg_answer b (bus s) (glob_reg b r) \<noteq> a"
  shows "slot_ptr (reg_answer b (bus s) (glob_reg b r))"
proof (rule ccontr)
  let ?v = "reg_answer b (bus s) (glob_reg b r)"
  assume "\<not> slot_ptr ?v"
  then have v: "?v = 0" "\<And>h es. bus s = h @ es \<Longrightarrow> reg_answer b h (glob_reg b r) = 0"
    using assms(1,2) by (metis append_Nil2 pointer_board_def)+
  with assms(3,4) show False by (auto simp: seen_def)
qed

text \<open>What holds of a trigger between turns, and what of it after it has been polled.\<close>

definition trig_ok :: "board \<Rightarrow> u32 \<Rightarrow> psc \<Rightarrow> TriggerInfo \<Rightarrow> bool" where
  "trig_ok b r s t \<longleftrightarrow> seen b r s (addr_last t) \<and> sendbuf t = 0 \<and>
     (active t = 0 \<or> active t = 1 \<and> slot_ptr (addr t) \<and> postdlycnt t \<le> posttrigpts t div 1000)"

definition trig_polled :: "board \<Rightarrow> u32 \<Rightarrow> psc \<Rightarrow> TriggerInfo \<Rightarrow> bool" where
  "trig_polled b r s t \<longleftrightarrow> seen b r s (addr_last t) \<and>
     (active t = 0 \<and> sendbuf t = 0 \<or> active t = 1 \<and> sendbuf t \<in> {0, 1} \<and> slot_ptr (addr t) \<and>
        postdlycnt t \<le> posttrigpts t div 1000)"

lemma trig_ok_later: "trig_ok b r s t \<Longrightarrow> later s s' \<Longrightarrow> trig_ok b r s' t"
  by (auto simp: trig_ok_def intro: seen_later)

lemma trig_polled_later: "trig_polled b r s t \<Longrightarrow> later s s' \<Longrightarrow> trig_polled b r s' t"
  by (auto simp: trig_polled_def intro: seen_later)

lemma trig_ok_after_send: "trig_polled b r s t \<Longrightarrow> trig_ok b r s (after_send t)"
  by (auto simp: trig_polled_def trig_ok_def after_send_def)

lemma poll_trigger_observe:
  "\<exists>s'. poll_trigger b r t s = (observe (reg_answer b (bus s) (glob_reg b r)) t, s') \<and> later s s' \<and>
     (active t = 0 \<longrightarrow> bus s' = bus s @ [Rd (glob_reg b r)])"
  by (simp add: poll_trigger_def observe_def Xil_In32_def later_def)

lemma one_le: "0 < (m :: u32) \<Longrightarrow> 1 \<le> m"
  using inc_le [of 0 m] by simp

lemma observe_polled:
  assumes "pointer_board b" "r \<in> pointer_regs" "trig_ok b r s t" "bus s' = bus s @ [Rd (glob_reg b r)] \<or> active t \<noteq> 0" "later s s'"
  shows "trig_polled b r s' (observe (reg_answer b (bus s) (glob_reg b r)) t)"
proof (cases "active t = 0")
  case True
  let ?v = "reg_answer b (bus s) (glob_reg b r)"
  have seen: "seen b r s' ?v" unfolding seen_def using assms(5) by (auto simp: later_def)
  have "slot_ptr ?v" if "?v \<noteq> addr_last t"
    using new_pointer [OF assms(1,2)] assms(3) that by (auto simp: trig_ok_def)
  moreover have "seen b r s' (addr_last t)" using assms(3,5) by (auto simp: trig_ok_def intro: seen_later)
  ultimately show ?thesis
    using True seen assms(3) by (auto simp: observe_def ProcessTrigger_def trig_polled_def trig_ok_def Let_def inc_le one_le)
next
  case False
  moreover have "seen b r s' (addr_last t)" using assms(3,5) by (auto simp: trig_ok_def intro: seen_later)
  ultimately show ?thesis
    using assms(3) by (auto simp: observe_def ProcessTrigger_def trig_polled_def trig_ok_def Let_def inc_le one_le)
qed


section \<open>The interface of a kind of trigger\<close>

text \<open>The four triggers of a kind keep their configuration.\<close>

definition conf :: "TriggerInfo \<Rightarrow> u32 \<times> u32 \<times> u32 \<times> u32" where
  "conf t = (pretrigpts t, posttrigpts t, msgID t, channum t)"

lemma conf_observe [simp]: "conf (observe v t) = conf t" "conf (after_send t) = conf t"
  by (simp_all add: conf_def observe_def after_send_def ProcessTrigger_def Let_def)

lemma poll_all_polled:
  assumes "pointer_board b" "set rs \<subseteq> pointer_regs" "list_all2 (\<lambda>r. trig_ok b r s) rs ts" "poll_all b rs ts s = (ts', s')"
  shows "later s s' \<and> list_all2 (\<lambda>r. trig_polled b r s') rs ts' \<and> map conf ts' = map conf ts
    \<and> list_all2 (\<lambda>t t'. \<exists>v. t' = observe v t) ts ts'"
  using assms
proof (induction b rs ts s arbitrary: ts' s' rule: poll_all.induct)
  case (1 b r rs t ts s)
  obtain s1 where s1: "poll_trigger b r t s = (observe (reg_answer b (bus s) (glob_reg b r)) t, s1)" "later s s1"
    "active t = 0 \<longrightarrow> bus s1 = bus s @ [Rd (glob_reg b r)]"
    using poll_trigger_observe by blast
  obtain us s2 where us: "poll_all b rs ts s1 = (us, s2)" by (cases "poll_all b rs ts s1")
  have "list_all2 (\<lambda>r. trig_ok b r s1) rs ts"
    using 1(4) trig_ok_later [OF _ s1(2)] by (auto elim!: list_all2_mono)
  with 1 s1 us have IH: "later s1 s2 \<and> list_all2 (\<lambda>r. trig_polled b r s2) rs us \<and> map conf us = map conf ts
    \<and> list_all2 (\<lambda>t t'. \<exists>v. t' = observe v t) ts us" by auto
  have "trig_polled b r s1 (observe (reg_answer b (bus s) (glob_reg b r)) t)"
    by (rule observe_polled [OF 1(2)]) (use 1 s1 in auto)
  then have "trig_polled b r s2 (observe (reg_answer b (bus s) (glob_reg b r)) t)"
    using IH trig_polled_later by blast
  then show ?case using 1(5) s1 us IH by (auto intro: later_trans)
qed auto

text \<open>
  A kind of trigger: where its triggers are kept and their pointer registers. A poll of all
  triggers polls the four of the kind at some moment; the sends of channel \<open>i\<close> finish its trigger
  \<open>i\<close> and leave the others.
\<close>

locale trigger_source =
  fixes n :: "'w net" and b :: board and ddr :: "io list \<Rightarrow> u32 \<Rightarrow> u32" and get :: "TriggerTypes \<Rightarrow> TriggerInfo list" and ptrs :: "u32 list"
  assumes ptrs: "length ptrs = 4" "set ptrs \<subseteq> pointer_regs"
    and polled: "\<exists>s1 s2. later s s1 \<and> poll_all b ptrs (get tr) s1 = (get (fst (CheckforTriggers b tr s)), s2)
          \<and> later s2 (snd (CheckforTriggers b tr s))"
    and sent: "send_chan n b ddr i (wb, tr, s, net) = Ret (wb', tr', s', net') \<Longrightarrow> i < length (get tr) \<Longrightarrow>
          get tr' = (get tr)[i := after_send (get tr ! i)]"
begin

lemma check:
  assumes "pointer_board b" "list_all2 (\<lambda>r. trig_ok b r s) ptrs (get tr)" "CheckforTriggers b tr s = (tr', s')"
  shows "list_all2 (\<lambda>r. trig_polled b r s') ptrs (get tr')" "map conf (get tr') = map conf (get tr)"
    "list_all2 (\<lambda>t t'. \<exists>v. t' = observe v t) (get tr) (get tr')"
proof -
  obtain s1 s2 where p: "later s s1" "poll_all b ptrs (get tr) s1 = (get tr', s2)" "later s2 s'"
    using polled [where tr = tr and s = s] assms(3) by auto
  have "list_all2 (\<lambda>r. trig_ok b r s1) ptrs (get tr)"
    using assms(2) trig_ok_later [OF _ p(1)] by (auto elim!: list_all2_mono)
  note q = poll_all_polled [OF assms(1) ptrs(2) this p(2)]
  then show "map conf (get tr') = map conf (get tr)" "list_all2 (\<lambda>t t'. \<exists>v. t' = observe v t) (get tr) (get tr')"
    by simp_all
  show "list_all2 (\<lambda>r. trig_polled b r s') ptrs (get tr')"
    using q trig_polled_later [OF _ p(3)] by (auto elim!: list_all2_mono)
qed

text \<open>After the sends of the four channels every trigger of the kind is finished.\<close>

lemma sends_fold:
  assumes "run_fold (send_chan n b ddr) is (wb, tr, s, net) = Ret (wb', tr', s', net')" "\<forall>i \<in> set is. i < length (get tr)"
  shows "get tr' = fold (\<lambda>i ts. ts[i := after_send (ts ! i)]) is (get tr)"
  using assms
proof (induction "is" arbitrary: wb tr s net)
  case (Cons i "is")
  then obtain wb1 tr1 s1 net1 where 1: "send_chan n b ddr i (wb, tr, s, net) = Ret (wb1, tr1, s1, net1)"
    "run_fold (send_chan n b ddr) is (wb1, tr1, s1, net1) = Ret (wb', tr', s', net')" by auto
  have "get tr1 = (get tr)[i := after_send (get tr ! i)]" using sent [OF 1(1)] Cons.prems(2) by simp
  then show ?case using Cons.IH [OF 1(2)] Cons.prems(2) by simp
qed simp

lemma sends:
  assumes "run_fold (send_chan n b ddr) [0, 1, 2, 3] (wb, tr, s, net) = Ret (wb', tr', s', net')" "length (get tr) = 4"
  shows "get tr' = map after_send (get tr)"
proof -
  obtain t0 t1 t2 t3 where "get tr = [t0, t1, t2, t3]"
    using assms(2) by (auto simp: eval_nat_numeral length_Suc_conv)
  then show ?thesis using sends_fold [OF assms(1)] by simp
qed

end

abbreviation (input) usr_ptrs :: "u32 list" where
  "usr_ptrs \<equiv> [USR1TRIG_BUFPTR, USR2TRIG_BUFPTR, USR3TRIG_BUFPTR, USR4TRIG_BUFPTR]"
abbreviation (input) flt_ptrs :: "u32 list" where
  "flt_ptrs \<equiv> [FLT1TRIG_BUFPTR, FLT2TRIG_BUFPTR, FLT3TRIG_BUFPTR, FLT4TRIG_BUFPTR]"
abbreviation (input) err_ptrs :: "u32 list" where
  "err_ptrs \<equiv> [ERR1TRIG_BUFPTR, ERR2TRIG_BUFPTR, ERR3TRIG_BUFPTR, ERR4TRIG_BUFPTR]"
abbreviation (input) inj_ptrs :: "u32 list" where
  "inj_ptrs \<equiv> [INJ1TRIG_BUFPTR, INJ2TRIG_BUFPTR, INJ3TRIG_BUFPTR, INJ4TRIG_BUFPTR]"
abbreviation (input) evr_ptrs :: "u32 list" where
  "evr_ptrs \<equiv> [EVRTRIG_BUFPTR, EVRTRIG_BUFPTR, EVRTRIG_BUFPTR, EVRTRIG_BUFPTR]"

lemma poll_trigger_later: "later s (snd (poll_trigger b r t s))"
  by (simp add: poll_trigger_def Let_def Xil_In32_def later_def)

lemma poll_all_later: "later s (snd (poll_all b rs ts s))"
proof (induction b rs ts s rule: poll_all.induct)
  case (1 b r rs t ts s)
  obtain t' s1 where t': "poll_trigger b r t s = (t', s1)" by (cases "poll_trigger b r t s")
  obtain ts' s2 where ts': "poll_all b rs ts s1 = (ts', s2)" by (cases "poll_all b rs ts s1")
  from poll_trigger_later [of s b r t] 1 t' ts' show ?case by (auto intro: later_trans)
qed auto

text \<open>The poll of all kinds is the poll of each, one after the other.\<close>

lemma CheckforTriggers_polls:
  "\<exists>s1 s2 s3 s4 s5. poll_all b usr_ptrs (usr tr) s = (usr (fst (CheckforTriggers b tr s)), s1)
    \<and> poll_all b flt_ptrs (flt tr) s1 = (flt (fst (CheckforTriggers b tr s)), s2)
    \<and> poll_all b err_ptrs (err tr) s2 = (err (fst (CheckforTriggers b tr s)), s3)
    \<and> poll_all b inj_ptrs (inj tr) s3 = (inj (fst (CheckforTriggers b tr s)), s4)
    \<and> poll_all b evr_ptrs (evr tr) s4 = (evr (fst (CheckforTriggers b tr s)), s5)
    \<and> s5 = snd (CheckforTriggers b tr s) \<and> later s s1 \<and> later s1 s2 \<and> later s2 s3 \<and> later s3 s4 \<and> later s4 s5"
proof -
  obtain u s1 where 1: "poll_all b usr_ptrs (usr tr) s = (u, s1)" by (cases "poll_all b usr_ptrs (usr tr) s")
  obtain f s2 where 2: "poll_all b flt_ptrs (flt tr) s1 = (f, s2)" by (cases "poll_all b flt_ptrs (flt tr) s1")
  obtain e s3 where 3: "poll_all b err_ptrs (err tr) s2 = (e, s3)" by (cases "poll_all b err_ptrs (err tr) s2")
  obtain j s4 where 4: "poll_all b inj_ptrs (inj tr) s3 = (j, s4)" by (cases "poll_all b inj_ptrs (inj tr) s3")
  obtain v s5 where 5: "poll_all b evr_ptrs (evr tr) s4 = (v, s5)" by (cases "poll_all b evr_ptrs (evr tr) s4")
  have "CheckforTriggers b tr s = (\<lparr>usr = u, flt = f, err = e, inj = j, evr = v\<rparr>, s5)"
    unfolding CheckforTriggers_def by (simp only: 1 2 3 4 5 Let_def prod.case)
  moreover have "later s s1" "later s1 s2" "later s2 s3" "later s3 s4" "later s4 s5"
    using poll_all_later [of s b usr_ptrs "usr tr"] poll_all_later [of s1 b flt_ptrs "flt tr"]
      poll_all_later [of s2 b err_ptrs "err tr"] poll_all_later [of s3 b inj_ptrs "inj tr"]
      poll_all_later [of s4 b evr_ptrs "evr tr"] by (simp_all only: 1 2 3 4 5 snd_conv)
  ultimately show ?thesis using 1 2 3 4 5 by (intro exI [of _ s1] exI [of _ s2] exI [of _ s3] exI [of _ s4] exI [of _ s5]) simp
qed

lemma CheckforTriggers_later: "later s (snd (CheckforTriggers b tr s))"
  using CheckforTriggers_polls [of b tr s] later_trans by blast

lemma send_ready_sent:
  assumes "send_ready n b ddr i (bufs, ts, s, net) = Ret (bufs', ts', s', net')"
  shows "ts' = ts[i := after_send (ts ! i)]"
  using assms by (cases "sendbuf (ts ! i) = 1")
    (auto simp: send_ready_def SendWfmData_def after_send_def Let_def)

lemma send_chan_sent:
  assumes "send_chan n b ddr i (wb, tr, s, net) = Ret (wb', tr', s', net')"
  shows "usr tr' = (usr tr)[i := after_send (usr tr ! i)]" "flt tr' = (flt tr)[i := after_send (flt tr ! i)]"
    "err tr' = (err tr)[i := after_send (err tr ! i)]" "inj tr' = (inj tr)[i := after_send (inj tr ! i)]"
    "evr tr' = (evr tr)[i := after_send (evr tr ! i)]"
  using assms by (auto simp: send_chan_def dest!: send_ready_sent)

interpretation usr: trigger_source n b ddr usr usr_ptrs for n b ddr
proof
  show "\<exists>s1 s2. later s s1 \<and> poll_all b usr_ptrs (usr tr) s1 = (usr (fst (CheckforTriggers b tr s)), s2)
      \<and> later s2 (snd (CheckforTriggers b tr s))" for tr s
    using CheckforTriggers_polls [of b tr s] by (blast intro: later_trans)
qed (simp_all add: pointer_regs_def send_chan_sent)

interpretation flt: trigger_source n b ddr flt flt_ptrs for n b ddr
proof
  show "\<exists>s1 s2. later s s1 \<and> poll_all b flt_ptrs (flt tr) s1 = (flt (fst (CheckforTriggers b tr s)), s2)
      \<and> later s2 (snd (CheckforTriggers b tr s))" for tr s
    using CheckforTriggers_polls [of b tr s] by (blast intro: later_trans)
qed (simp_all add: pointer_regs_def send_chan_sent)

interpretation err: trigger_source n b ddr err err_ptrs for n b ddr
proof
  show "\<exists>s1 s2. later s s1 \<and> poll_all b err_ptrs (err tr) s1 = (err (fst (CheckforTriggers b tr s)), s2)
      \<and> later s2 (snd (CheckforTriggers b tr s))" for tr s
    using CheckforTriggers_polls [of b tr s] by (blast intro: later_trans)
qed (simp_all add: pointer_regs_def send_chan_sent)

interpretation inj: trigger_source n b ddr inj inj_ptrs for n b ddr
proof
  show "\<exists>s1 s2. later s s1 \<and> poll_all b inj_ptrs (inj tr) s1 = (inj (fst (CheckforTriggers b tr s)), s2)
      \<and> later s2 (snd (CheckforTriggers b tr s))" for tr s
    using CheckforTriggers_polls [of b tr s] by (blast intro: later_trans)
qed (simp_all add: pointer_regs_def send_chan_sent)

interpretation evr: trigger_source n b ddr evr evr_ptrs for n b ddr
proof
  show "\<exists>s1 s2. later s s1 \<and> poll_all b evr_ptrs (evr tr) s1 = (evr (fst (CheckforTriggers b tr s)), s2)
      \<and> later s2 (snd (CheckforTriggers b tr s))" for tr s
    using CheckforTriggers_polls [of b tr s] by (blast intro: later_trans)
qed (simp_all add: pointer_regs_def send_chan_sent)

section \<open>A turn\<close>

text \<open>
  The messages of a turn, as broadcasts of a body of a given length each.
\<close>

fun broadcasts :: "'w net \<Rightarrow> (u16 \<times> nat) list \<Rightarrow> 'w chan_net \<Rightarrow> 'w chan_net \<Rightarrow> bool" where
  "broadcasts n [] net net' \<longleftrightarrow> net' = net"
| "broadcasts n ((mid, len) # ms) net net' \<longleftrightarrow>
     (\<exists>body. length body = len \<and> broadcasts n ms (psc_send n mid body net) net')"

lemma broadcasts_append:
  "broadcasts n ms net net1 \<Longrightarrow> broadcasts n ms' net1 net2 \<Longrightarrow> broadcasts n (ms @ ms') net net2"
  by (induction n ms net net1 rule: broadcasts.induct) auto

definition wfm_msg :: "TriggerInfo \<Rightarrow> u16 \<times> nat" where
  "wfm_msg t = (ucast (msgID t), MSGWFMLEN)"

definition ready :: "TriggerInfo list \<Rightarrow> TriggerInfo list" where
  "ready = filter (\<lambda>t. sendbuf t = 1)"

text \<open>The triggers in the order in which the turn looks at them, and those of them it sends.\<close>

definition chan_trigs :: "TriggerTypes \<Rightarrow> nat \<Rightarrow> TriggerInfo list" where
  "chan_trigs tr i = [usr tr ! i, flt tr ! i, err tr ! i, inj tr ! i, evr tr ! i]"

definition due :: "TriggerTypes \<Rightarrow> TriggerInfo list" where
  "due tr = ready (concat (map (chan_trigs tr) [0, 1, 2, 3]))"

definition wfms_ok :: "u8 list list \<Rightarrow> bool" where
  "wfms_ok ms \<longleftrightarrow> length ms = 4 \<and> (\<forall>m \<in> set ms. length m = MSGWFMLEN)"

definition bufs_ok :: "wfm_bufs \<Rightarrow> bool" where
  "bufs_ok wb \<longleftrightarrow> wfms_ok (msgUsr_buf wb) \<and> wfms_ok (msgFlt_buf wb) \<and> wfms_ok (msgErr_buf wb) \<and> wfms_ok (msgInj_buf wb)
     \<and> wfms_ok (msgEvr_buf wb) \<and> length (msgWfmStats_buf wb) = MSGWFMSTATSLEN"

text \<open>A configuration whose window fits the message, of one of the four channels.\<close>

definition conf_ok :: "TriggerInfo \<Rightarrow> bool" where
  "conf_ok t \<longleftrightarrow> unat (pretrigpts t) + unat (posttrigpts t) \<le> 100000 \<and> channum t \<in> {1, 2, 3, 4}"

lemma conf_ok_conf: "conf t = conf u \<Longrightarrow> conf_ok t = conf_ok u"
  by (simp add: conf_def conf_ok_def)

definition sendable :: "TriggerInfo \<Rightarrow> bool" where
  "sendable t \<longleftrightarrow> conf_ok t \<and> (sendbuf t = 1 \<longrightarrow> slot_ptr (addr t))"

lemma send_ready_Ret:
  assumes "wfms_ok bufs" "i < 4" "sendable (ts ! i)" "length (scalefactors s) = 4"
  shows "\<exists>bufs' s' net'. send_ready n b ddr i (bufs, ts, s, net) = Ret (bufs', ts[i := after_send (ts ! i)], s', net')
    \<and> wfms_ok bufs' \<and> later s s' \<and> broadcasts n (map wfm_msg (ready [ts ! i])) net net'"
proof (cases "sendbuf (ts ! i) = 1")
  case False
  then show ?thesis using assms(1) by (simp add: send_ready_def after_send_def ready_def)
next
  case True
  let ?t = "(ts ! i)\<lparr>sendbuf := 0, active := 0\<rparr>"
  obtain p where p: "p \<le> 200000" "addr ?t = BUFSTART + word_of_nat (160 * p)"
    using assms(3) True by (auto simp: sendable_def slot_ptr_def)
  have c: "unat (pretrigpts ?t) + unat (posttrigpts ?t) \<le> 100000" "channum ?t \<in> {1, 2, 3, 4}"
    using assms(3) by (simp_all add: sendable_def conf_ok_def)
  have "unat (channum ?t - 1) < 4" using c(2) by auto
  then have sf: "sf_at (channum ?t) s = Ret (scalefactors s ! unat (channum ?t - 1))"
    using assms(4) by (simp add: sf_at_def)
  obtain out k where r: "ReadDMABuf b (ddr (bus s)) ?t s = Ret (out, dpid_reads b (channum ?t) k s)"
    "length out = 10 * (unat (pretrigpts ?t) + unat (posttrigpts ?t))"
    using ReadDMABuf_Ret [OF p(2) _ _ p(1) c(1) sf, of b "ddr (bus s)"] c(2) by auto
  have m: "length (bufs ! i) = MSGWFMLEN" using assms(1,2) by (auto simp: wfms_ok_def)
  have "length out \<le> 1000000" using r(2) c(1) by simp
  from SendWfmData_message [where ddr = ddr, OF r(1) m this, of n net] obtain msg' where
    "SendWfmData n b ddr (bufs ! i) (ts ! i) s net =
      Ret (msg', ?t, dpid_reads b (channum ?t) k s, psc_send n (ucast (msgID (ts ! i))) msg' net)" "length msg' = MSGWFMLEN"
    by blast
  moreover have "later s (dpid_reads b (channum ?t) k s)" by (simp add: later_def dpid_reads_def)
  moreover have "wfms_ok (bufs[i := msg'])" if "length msg' = MSGWFMLEN" for msg'
    using assms(1) that by (auto simp: wfms_ok_def dest!: set_update_subset_insert [THEN subsetD])
  ultimately show ?thesis
    using True by (auto simp: send_ready_def after_send_def ready_def wfm_msg_def)
qed

lemma ready_simps [simp]: "ready [] = []" "ready (ts @ us) = ready ts @ ready us"
  by (simp_all add: ready_def)

lemma send_chan_Ret:
  assumes "bufs_ok wb" "i < 4" "\<forall>t \<in> set (chan_trigs tr i). sendable t" "length (scalefactors s) = 4"
  shows "\<exists>wb' tr' s' net'. send_chan n b ddr i (wb, tr, s, net) = Ret (wb', tr', s', net') \<and> bufs_ok wb' \<and> later s s'
    \<and> broadcasts n (map wfm_msg (ready (chan_trigs tr i))) net net'"
proof -
  note bufs = assms(1) [unfolded bufs_ok_def]
  have ok: "sendable (usr tr ! i)" "sendable (flt tr ! i)" "sendable (err tr ! i)" "sendable (inj tr ! i)" "sendable (evr tr ! i)"
    using assms(3) by (simp_all add: chan_trigs_def)
  have sf: "length (scalefactors s') = 4" if "later s s'" for s' using assms(4) that by (simp add: later_def)
  obtain u s1 net1 where 1: "send_ready n b ddr i (msgUsr_buf wb, usr tr, s, net) = Ret (u, (usr tr)[i := after_send (usr tr ! i)], s1, net1)"
    "wfms_ok u" "later s s1" "broadcasts n (map wfm_msg (ready [usr tr ! i])) net net1"
    using send_ready_Ret [OF _ assms(2) ok(1) assms(4)] bufs by blast
  obtain f s2 net2 where 2: "send_ready n b ddr i (msgFlt_buf wb, flt tr, s1, net1) = Ret (f, (flt tr)[i := after_send (flt tr ! i)], s2, net2)"
    "wfms_ok f" "later s1 s2" "broadcasts n (map wfm_msg (ready [flt tr ! i])) net1 net2"
    using send_ready_Ret [OF _ assms(2) ok(2) sf [OF 1(3)]] bufs by blast
  have l2: "later s s2" using 1(3) 2(3) by (rule later_trans)
  obtain e s3 net3 where 3: "send_ready n b ddr i (msgErr_buf wb, err tr, s2, net2) = Ret (e, (err tr)[i := after_send (err tr ! i)], s3, net3)"
    "wfms_ok e" "later s2 s3" "broadcasts n (map wfm_msg (ready [err tr ! i])) net2 net3"
    using send_ready_Ret [OF _ assms(2) ok(3) sf [OF l2]] bufs by blast
  have l3: "later s s3" using l2 3(3) by (rule later_trans)
  obtain j s4 net4 where 4: "send_ready n b ddr i (msgInj_buf wb, inj tr, s3, net3) = Ret (j, (inj tr)[i := after_send (inj tr ! i)], s4, net4)"
    "wfms_ok j" "later s3 s4" "broadcasts n (map wfm_msg (ready [inj tr ! i])) net3 net4"
    using send_ready_Ret [OF _ assms(2) ok(4) sf [OF l3]] bufs by blast
  have l4: "later s s4" using l3 4(3) by (rule later_trans)
  obtain v s5 net5 where 5: "send_ready n b ddr i (msgEvr_buf wb, evr tr, s4, net4) = Ret (v, (evr tr)[i := after_send (evr tr ! i)], s5, net5)"
    "wfms_ok v" "later s4 s5" "broadcasts n (map wfm_msg (ready [evr tr ! i])) net4 net5"
    using send_ready_Ret [OF _ assms(2) ok(5) sf [OF l4]] bufs by blast
  have "chan_trigs tr i = [usr tr ! i] @ [flt tr ! i] @ [err tr ! i] @ [inj tr ! i] @ [evr tr ! i]" by (simp add: chan_trigs_def)
  then have "broadcasts n (map wfm_msg (ready (chan_trigs tr i))) net net5"
    using 1(4) 2(4) 3(4) 4(4) 5(4) by (simp only: ready_simps map_append) (blast intro: broadcasts_append)
  moreover have "later s s5" using l4 5(3) by (rule later_trans)
  ultimately show ?thesis using bufs 1 2 3 4 5 by (auto simp: send_chan_def bufs_ok_def)
qed

lemma sends_Ret:
  assumes "bufs_ok wb" "distinct is" "set is \<subseteq> {..<4}" "\<forall>i \<in> set is. \<forall>t \<in> set (chan_trigs tr i). sendable t"
    "length (scalefactors s) = 4"
  shows "\<exists>wb' tr' s' net'. run_fold (send_chan n b ddr) is (wb, tr, s, net) = Ret (wb', tr', s', net') \<and> bufs_ok wb' \<and> later s s'
    \<and> broadcasts n (map wfm_msg (ready (concat (map (chan_trigs tr) is)))) net net'"
  using assms
proof (induction "is" arbitrary: wb tr s net)
  case (Cons i "is")
  have "\<exists>wb' tr' s' net'. send_chan n b ddr i (wb, tr, s, net) = Ret (wb', tr', s', net') \<and> bufs_ok wb' \<and> later s s'
    \<and> broadcasts n (map wfm_msg (ready (chan_trigs tr i))) net net'"
    by (rule send_chan_Ret) (use Cons.prems in auto)
  then obtain wb1 tr1 s1 net1 where 1: "send_chan n b ddr i (wb, tr, s, net) = Ret (wb1, tr1, s1, net1)" "bufs_ok wb1" "later s s1"
    "broadcasts n (map wfm_msg (ready (chan_trigs tr i))) net net1" by blast
  have same: "chan_trigs tr1 k = chan_trigs tr k" if "k \<in> set is" for k
  proof -
    have "i \<noteq> k" using that Cons.prems(2) by auto
    then show ?thesis using send_chan_sent [OF 1(1)] by (simp add: chan_trigs_def)
  qed
  then have cs: "concat (map (chan_trigs tr1) is) = concat (map (chan_trigs tr) is)" by (metis map_cong)
  have "\<exists>wb' tr' s' net'. run_fold (send_chan n b ddr) is (wb1, tr1, s1, net1) = Ret (wb', tr', s', net') \<and> bufs_ok wb' \<and> later s1 s'
    \<and> broadcasts n (map wfm_msg (ready (concat (map (chan_trigs tr1) is)))) net1 net'"
    by (rule Cons.IH [OF 1(2)]) (use Cons.prems 1(3) same in \<open>auto simp: later_def\<close>)
  then obtain wb2 tr2 s2 net2 where 2: "run_fold (send_chan n b ddr) is (wb1, tr1, s1, net1) = Ret (wb2, tr2, s2, net2)" "bufs_ok wb2"
    "later s1 s2" "broadcasts n (map wfm_msg (ready (concat (map (chan_trigs tr) is)))) net1 net2"
    unfolding cs by blast
  then show ?case using 1 broadcasts_append [OF 1(4) 2(4)] later_trans [OF 1(3) 2(3)] by simp
qed auto

lemma read_snap_bus [simp]:
  "bus (snd (read_snap b p r q a s)) = bus s @ [Rd (glob_reg b p), Rd (glob_reg b r), Rd (glob_reg b q)]"
  "scalefactors (snd (read_snap b p r q a s)) = scalefactors s"
  by (simp_all add: read_snap_def Let_def split_beta)

lemma stats_row_shape:
  "later s (snd (stats_row b tr i s))" "length (fst (stats_row b tr i s)) = 5"
  by (simp_all add: stats_row_def Let_def split_beta later_def)

lemma stats_words_later: "later s (snd (stats_words b tr s))"
proof -
  have "later s (snd (Xil_In32 b SNAPSHOT_TOTALTRIGS' (snd (Xil_In32 b SNAPSHOT_ADDRPTR' s))))" for SNAPSHOT_TOTALTRIGS' SNAPSHOT_ADDRPTR'
    by (simp add: later_def)
  then show ?thesis
    by (simp add: stats_words_def Let_def split_beta) (meson later_trans stats_row_shape(1))
qed

lemma stats_words_length: "length (fst (stats_words b tr s)) = 82"
  by (simp add: stats_words_def Let_def split_beta snap_words_def upt_rec)

lemma SendSnapShotStats_Ret:
  assumes "length msg = MSGWFMSTATSLEN"
  shows "\<exists>msg' s' net'. SendSnapShotStats n b msg tr s net = Ret (msg', s', net') \<and> length msg' = MSGWFMSTATSLEN \<and> later s s'
    \<and> broadcasts n [(MSGWFMSTATS, MSGWFMSTATSLEN)] net net'"
proof -
  obtain ws s' where ws: "stats_words b tr s = (ws, s')" by (cases "stats_words b tr s")
  then have l: "length ws = 82" "later s s'" using stats_words_later [where b = b and tr = tr and s = s] stats_words_length [where b = b and tr = tr and s = s] by simp_all
  let ?m = "store (mem_words ws) msg"
  let ?c = "concat (map be32 (words_of 82 ?m)) @ drop (4 * 82) ?m"
  have m: "length ?m = MSGWFMSTATSLEN" using assms l by (simp add: length_store)
  then have "hton_conv ?m (4 * 82) = Ret ?c" by (intro hton_conv_Ret) simp
  moreover have c: "length ?c = MSGWFMSTATSLEN" using m by (simp add: be32.length_concat_enc)
  ultimately have "SendSnapShotStats n b msg tr s net = Ret (?c, s', psc_send n MSGWFMSTATS ?c net)"
    using ws l by (simp add: SendSnapShotStats_def)
  moreover have "broadcasts n [(MSGWFMSTATS, MSGWFMSTATSLEN)] net (psc_send n MSGWFMSTATS ?c net)"
    unfolding broadcasts.simps using c by blast
  ultimately show ?thesis using c l(2) by blast
qed

section \<open>The task\<close>

text \<open>
  \<open>snapshot_push\<close>: \<open>k\<close> turns of the loop, with the waveforms each of them found to be sent. What
  the other tasks do before turn \<open>i\<close>, to the board, the scale factors and the clients, is \<open>env i\<close>;
  the triggers and the buffers belong to the task.
\<close>

type_synonym 'w others = "nat \<Rightarrow> psc \<times> 'w chan_net \<Rightarrow> psc \<times> 'w chan_net"

fun snapshot_loop ::
    "'w net \<Rightarrow> board \<Rightarrow> (io list \<Rightarrow> u32 \<Rightarrow> u32) \<Rightarrow> 'w others \<Rightarrow> nat \<Rightarrow> 'w snapshot
     \<Rightarrow> (TriggerInfo list list \<times> 'w snapshot) run" where
  "snapshot_loop n b ddr env 0 st = Ret ([], st)"
| "snapshot_loop n b ddr env (Suc k) st =
     run_bind (snapshot_loop n b ddr env k st) (\<lambda>(ds, wb, tr, s, net).
       let (s, net) = env k (s, net)
       in run_bind (snapshot_turn n b ddr (wb, tr, s, net)) (\<lambda>st.
            Ret (ds @ [due (fst (CheckforTriggers b tr s))], st)))"

definition static_bufs :: wfm_bufs where
  "static_bufs = (let w = replicate 4 (replicate MSGWFMLEN 0) in
     \<lparr>msgUsr_buf = w, msgFlt_buf = w, msgErr_buf = w, msgInj_buf = w, msgEvr_buf = w,
      msgWfmStats_buf = replicate MSGWFMSTATSLEN 0\<rparr>)"

definition snapshot_push ::
    "'w net \<Rightarrow> board \<Rightarrow> (io list \<Rightarrow> u32 \<Rightarrow> u32) \<Rightarrow> 'w others \<Rightarrow> nat \<Rightarrow> psc \<Rightarrow> 'w chan_net
     \<Rightarrow> (TriggerInfo list list \<times> 'w snapshot) run" where
  "snapshot_push n b ddr env k s net = snapshot_loop n b ddr env k (static_bufs, InitTriggerInfo, s, net)"

text \<open>The other tasks only add operations to the bus, and there are always four channels.\<close>

definition others_ok :: "'w others \<Rightarrow> bool" where
  "others_ok env \<longleftrightarrow> (\<forall>k s net. later s (fst (env k (s, net))))"

text \<open>What holds between the turns of the task.\<close>

definition kinds :: "((TriggerTypes \<Rightarrow> TriggerInfo list) \<times> u32 list) set" where
  "kinds = {(usr, usr_ptrs), (flt, flt_ptrs), (err, err_ptrs), (inj, inj_ptrs), (evr, evr_ptrs)}"

lemma kindsE:
  assumes "(get, ps) \<in> kinds"
  obtains "get = usr" "ps = usr_ptrs" | "get = flt" "ps = flt_ptrs" | "get = err" "ps = err_ptrs"
    | "get = inj" "ps = inj_ptrs" | "get = evr" "ps = evr_ptrs"
  using assms unfolding kinds_def insert_iff empty_iff prod.inject by iprover

lemma kinds_mem: "(usr, usr_ptrs) \<in> kinds" "(flt, flt_ptrs) \<in> kinds" "(err, err_ptrs) \<in> kinds" "(inj, inj_ptrs) \<in> kinds"
  "(evr, evr_ptrs) \<in> kinds"
  by (simp_all add: kinds_def)

lemma kinds_source: "(get, ps) \<in> kinds \<Longrightarrow> trigger_source n b ddr get ps"
  by (erule kindsE; simp only: usr.trigger_source_axioms flt.trigger_source_axioms err.trigger_source_axioms
    inj.trigger_source_axioms evr.trigger_source_axioms)

definition snap_ok :: "board \<Rightarrow> 'w snapshot \<Rightarrow> bool" where
  "snap_ok b st \<longleftrightarrow> (case st of (wb, tr, s, net) \<Rightarrow> bufs_ok wb \<and> length (scalefactors s) = 4
     \<and> (\<forall>(get, ps) \<in> kinds. list_all2 (\<lambda>r. trig_ok b r s) ps (get tr)
          \<and> map conf (get tr) = map conf (get InitTriggerInfo)))"

lemma kinds_length: "(get, ps) \<in> kinds \<Longrightarrow> length ps = 4 \<and> length (get InitTriggerInfo) = 4"
  by (erule kindsE) (simp_all add: InitTriggerInfo_def)

lemma conf_ok_Init: "(get, ps) \<in> kinds \<Longrightarrow> t \<in> set (get InitTriggerInfo) \<Longrightarrow> conf_ok t"
  by (erule kindsE) (auto simp: InitTriggerInfo_def init_trigger_def conf_ok_def)

lemma in_kind:
  assumes "i < 4" "t \<in> set (chan_trigs tr i)" "\<forall>(get, ps) \<in> kinds. length (get tr) = 4"
  obtains get ps where "(get, ps) \<in> kinds" "t = get tr ! i" "t \<in> set (get tr)"
proof -
  have "\<exists>(get, ps) \<in> kinds. t = get tr ! i"
    using assms(2) by (auto simp: kinds_def chan_trigs_def)
  then show ?thesis using assms(1,3) that by fastforce
qed

lemma sendable_polled:
  assumes "(get, ps) \<in> kinds" "list_all2 (\<lambda>r. trig_polled b r s) ps (get tr)" "map conf (get tr) = map conf (get InitTriggerInfo)"
    "t \<in> set (get tr)"
  shows "sendable t"
proof -
  have "conf t \<in> conf ` set (get InitTriggerInfo)" using assms(3,4) by (metis image_eqI set_map)
  then have "conf_ok t" using conf_ok_Init [OF assms(1)] conf_ok_conf by blast
  moreover obtain r where "trig_polled b r s t" using assms(2,4) by (metis in_set_conv_nth list_all2_conv_all_nth)
  ultimately show ?thesis by (auto simp: sendable_def trig_polled_def)
qed

text \<open>
  A turn: every kind is observed and sent, the invariant is kept, and the waveforms that are due
  are broadcast in order, then the statistics.
\<close>

definition turn_effect :: "TriggerTypes \<Rightarrow> TriggerTypes \<Rightarrow> TriggerTypes \<Rightarrow> bool" where
  "turn_effect tr tr1 tr' \<longleftrightarrow> (\<forall>(get, ps) \<in> kinds. list_all2 (\<lambda>t t1. \<exists>v. t1 = observe v t) (get tr) (get tr1)
     \<and> map conf (get tr1) = map conf (get InitTriggerInfo) \<and> get tr' = map after_send (get tr1))"

lemma snapshot_turn_step:
  assumes "pointer_board b" "snap_ok b (wb, tr, s, net)" "CheckforTriggers b tr s = (tr1, s1)"
  shows "\<exists>wb' tr' s' net'. snapshot_turn n b ddr (wb, tr, s, net) = Ret (wb', tr', s', net') \<and> snap_ok b (wb', tr', s', net')
    \<and> later s s' \<and> turn_effect tr tr1 tr'
    \<and> broadcasts n (map wfm_msg (due tr1) @ [(MSGWFMSTATS, MSGWFMSTATSLEN)]) net net'"
proof -
  have bufs: "bufs_ok wb" and sf: "length (scalefactors s) = 4" using assms(2) by (simp_all add: snap_ok_def)
  have check: "list_all2 (\<lambda>r. trig_polled b r s1) ps (get tr1) \<and> map conf (get tr1) = map conf (get InitTriggerInfo)
      \<and> list_all2 (\<lambda>t t'. \<exists>v. t' = observe v t) (get tr) (get tr1)" if k: "(get, ps) \<in> kinds" for get ps
  proof -
    have ok: "list_all2 (\<lambda>r. trig_ok b r s) ps (get tr)" "map conf (get tr) = map conf (get InitTriggerInfo)"
      using assms(2) k by (auto simp: snap_ok_def)
    show ?thesis
      using trigger_source.check [OF kinds_source [OF k] assms(1) ok(1) assms(3)] ok(2) by simp
  qed
  have len: "length (get tr1) = 4" if k: "(get, ps) \<in> kinds" for get ps
    using check [OF k] kinds_length [OF k] by (metis length_map)
  have "\<forall>i \<in> set [0, 1, 2, 3]. \<forall>t \<in> set (chan_trigs tr1 i). sendable t"
  proof (intro ballI)
    fix i t assume i: "i \<in> set [0, 1, 2, 3 :: nat]" and t: "t \<in> set (chan_trigs tr1 i)"
    have "i < 4" using i by auto
    moreover have "\<forall>(get, ps) \<in> kinds. length (get tr1) = 4" using len by auto
    ultimately obtain get ps where k: "(get, ps) \<in> kinds" and "t \<in> set (get tr1)" using t in_kind by metis
    with check [OF k] show "sendable t" using sendable_polled [OF k] by blast
  qed
  moreover have later1: "later s s1" using CheckforTriggers_later [of s b tr] assms(3) by simp
  ultimately have "\<exists>wb' tr' s' net'. run_fold (send_chan n b ddr) [0, 1, 2, 3] (wb, tr1, s1, net) = Ret (wb', tr', s', net')
      \<and> bufs_ok wb' \<and> later s1 s' \<and> broadcasts n (map wfm_msg (ready (concat (map (chan_trigs tr1) [0, 1, 2, 3])))) net net'"
    using sf by (intro sends_Ret [OF bufs]) (auto simp: later_def)
  then obtain wb2 tr2 s2 net2 where 2: "run_fold (send_chan n b ddr) [0, 1, 2, 3] (wb, tr1, s1, net) = Ret (wb2, tr2, s2, net2)"
    "bufs_ok wb2" "later s1 s2" "broadcasts n (map wfm_msg (due tr1)) net net2"
    unfolding due_def by blast
  have "length (msgWfmStats_buf wb2) = MSGWFMSTATSLEN" using 2(2) by (simp add: bufs_ok_def)
  then obtain msg s3 net3 where 3: "SendSnapShotStats n b (msgWfmStats_buf wb2) tr2 s2 net2 = Ret (msg, s3, net3)"
    "length msg = MSGWFMSTATSLEN" "later s2 s3" "broadcasts n [(MSGWFMSTATS, MSGWFMSTATSLEN)] net2 net3"
    using SendSnapShotStats_Ret by blast
  have after: "get tr2 = map after_send (get tr1)" if k: "(get, ps) \<in> kinds" for get ps
    using trigger_source.sends [OF kinds_source [OF k] 2(1)] len [OF k] by simp
  have s13: "later s1 s3" using 2(3) 3(3) by (rule later_trans)
  have "list_all2 (\<lambda>r. trig_ok b r s3) ps (get tr2) \<and> map conf (get tr2) = map conf (get InitTriggerInfo)"
    if k: "(get, ps) \<in> kinds" for get ps
  proof -
    have "list_all2 (\<lambda>r. trig_ok b r s3) ps (map after_send (get tr1))"
      unfolding list_all2_map2 using check [OF k]
      by (auto elim!: list_all2_mono intro: trig_ok_after_send trig_polled_later [OF _ s13])
    then show ?thesis using check [OF k] by (simp add: after [OF k] o_def)
  qed
  moreover have "bufs_ok (wb2\<lparr>msgWfmStats_buf := msg\<rparr>)" using 2(2) 3(2) by (simp add: bufs_ok_def)
  moreover have "later s s3" using later1 s13 by (rule later_trans)
  ultimately have "snap_ok b (wb2\<lparr>msgWfmStats_buf := msg\<rparr>, tr2, s3, net3)"
    using sf by (auto simp: snap_ok_def later_def)
  moreover have "turn_effect tr tr1 tr2" using check after by (auto simp: turn_effect_def)
  moreover have "snapshot_turn n b ddr (wb, tr, s, net) = Ret (wb2\<lparr>msgWfmStats_buf := msg\<rparr>, tr2, s3, net3)"
    using assms(3) 2(1) 3(1) unfolding snapshot_turn_def by (simp only: prod.case Let_def run_bind_simps)
  ultimately show ?thesis using broadcasts_append [OF 2(4) 3(4)] \<open>later s s3\<close> by blast
qed

text \<open>The invariant holds at the start, and the task goes on from turn to turn.\<close>

lemma snap_ok_start: "length (scalefactors s) = 4 \<Longrightarrow> snap_ok b (static_bufs, InitTriggerInfo, s, net)"
  unfolding snap_ok_def prod.case
proof (intro conjI ballI)
  show "bufs_ok static_bufs" by (simp add: static_bufs_def bufs_ok_def wfms_ok_def Let_def)
  show "case g of (get, ps) \<Rightarrow> list_all2 (\<lambda>r. trig_ok b r s) ps (get InitTriggerInfo)
      \<and> map conf (get InitTriggerInfo) = map conf (get InitTriggerInfo)" if "g \<in> kinds" for g
    using that by (cases g) (auto elim!: kindsE simp: InitTriggerInfo_def init_trigger_def trig_ok_def seen_def)
qed

lemma snap_ok_later:
  assumes "snap_ok b (wb, tr, s, net)" "later s s'"
  shows "snap_ok b (wb, tr, s', net')"
proof -
  have "list_all2 (\<lambda>r. trig_ok b r s') ps ts" if "list_all2 (\<lambda>r. trig_ok b r s) ps ts" for ps ts
    using that trig_ok_later [OF _ assms(2)] by (auto elim!: list_all2_mono)
  then show ?thesis using assms unfolding snap_ok_def by (auto simp: later_def)
qed

lemma snapshot_push_Suc:
  assumes "pointer_board b" "others_ok env"
    and "snapshot_push n b ddr env k s net = Ret (ds, wb, tr, s1, net1)" "snap_ok b (wb, tr, s1, net1)"
    and "env k (s1, net1) = (s2, net2)" "CheckforTriggers b tr s2 = (tr1, s3)"
  shows "\<exists>wb' tr' s' net'. snapshot_push n b ddr env (Suc k) s net = Ret (ds @ [due tr1], wb', tr', s', net')
    \<and> snap_ok b (wb', tr', s', net') \<and> turn_effect tr tr1 tr'"
proof -
  have "later s1 s2" using assms(2,5) by (metis fst_conv others_ok_def)
  with assms(4) have "snap_ok b (wb, tr, s2, net2)" by (rule snap_ok_later)
  from snapshot_turn_step [OF assms(1) this assms(6), of n ddr] obtain wb' tr' s' net' where
    "snapshot_turn n b ddr (wb, tr, s2, net2) = Ret (wb', tr', s', net')" "snap_ok b (wb', tr', s', net')" "turn_effect tr tr1 tr'"
    by blast
  moreover have "snapshot_push n b ddr env (Suc k) s net = run_bind (snapshot_turn n b ddr (wb, tr, s2, net2)) (\<lambda>st.
      Ret (ds @ [due tr1], st))"
    using assms(3) unfolding snapshot_push_def snapshot_loop.simps
    by (simp only: run_bind_simps prod.case assms(5,6) Let_def fst_conv)
  ultimately show ?thesis by simp
qed

lemma snapshot_push_ok:
  assumes "pointer_board b" "others_ok env" "length (scalefactors s) = 4"
  shows "\<exists>ds st. snapshot_push n b ddr env k s net = Ret (ds, st) \<and> snap_ok b st \<and> length ds = k"
proof (induction k)
  case 0
  show ?case using snap_ok_start [OF assms(3)] by (simp add: snapshot_push_def)
next
  case (Suc k)
  then obtain ds wb tr s1 net1 where 1: "snapshot_push n b ddr env k s net = Ret (ds, wb, tr, s1, net1)"
    "snap_ok b (wb, tr, s1, net1)" "length ds = k" by (metis prod_cases4)
  obtain s2 net2 where 2: "env k (s1, net1) = (s2, net2)" by (cases "env k (s1, net1)")
  obtain tr1 s3 where 3: "CheckforTriggers b tr s2 = (tr1, s3)" by (cases "CheckforTriggers b tr s2")
  from snapshot_push_Suc [OF assms(1,2) 1(1,2) 2 3] 1(3) show ?case by fastforce
qed

section \<open>One trigger through the turns\<close>

lemma observe_detect:
  assumes "active t = 0" "active (observe v t) = 1" "0 < posttrigpts t div 1000"
  shows "observe v t = t\<lparr>addr := v, addr_last := v, active := 1, postdlycnt := 1\<rparr>"
  using assms by (auto simp: observe_def ProcessTrigger_def Let_def split: if_splits)

lemma observe_wait:
  "active t = 1 \<Longrightarrow> postdlycnt t < posttrigpts t div 1000 \<Longrightarrow> observe v t = t\<lparr>postdlycnt := postdlycnt t + 1\<rparr>"
  by (simp add: observe_def ProcessTrigger_def)

lemma observe_done:
  "active t = 1 \<Longrightarrow> \<not> postdlycnt t < posttrigpts t div 1000 \<Longrightarrow> observe v t = t\<lparr>sendbuf := 1\<rparr>"
  by (simp add: observe_def ProcessTrigger_def)

lemma msgID_conf: "conf t = conf u \<Longrightarrow> msgID t = msgID u"
  by (simp add: conf_def)

text \<open>The message ids of the twenty triggers are different.\<close>

lemma due_iff:
  assumes "\<forall>(get, ps) \<in> kinds. map conf (get tr) = map conf (get InitTriggerInfo)" "(get, ps) \<in> kinds" "i < 4"
  shows "msgID (get tr ! i) \<in> msgID ` set (due tr) \<longleftrightarrow> sendbuf (get tr ! i) = 1"
    and "sendbuf (get tr ! i) = 1 \<Longrightarrow> get tr ! i \<in> set (due tr)"
proof -
  let ?L = "\<lambda>tr. concat (map (chan_trigs tr) [0, 1, 2, 3])"
  have id: "msgID (g tr ! j) = msgID (g InitTriggerInfo ! j)" if "(g, ps) \<in> kinds" "j < 4" for g ps j
  proof -
    have m: "map conf (g tr) = map conf (g InitTriggerInfo)" using assms(1) that by auto
    then have "length (g tr) = 4" using kinds_length [OF that(1)] by (metis length_map)
    then show ?thesis using m kinds_length [OF that(1)] that(2) by (metis msgID_conf nth_map)
  qed
  have "map msgID (chan_trigs tr j) = map msgID (chan_trigs InitTriggerInfo j)" if "j < 4" for j
    using kinds_mem [THEN id, OF that] by (simp add: chan_trigs_def)
  then have "map msgID (?L tr) = map msgID (?L InitTriggerInfo)" by simp
  moreover have "distinct (map msgID (?L InitTriggerInfo))"
    by (simp add: chan_trigs_def InitTriggerInfo_def init_trigger_def)
  ultimately have inj: "inj_on msgID (set (?L tr))" by (metis distinct_map)
  have "get tr ! i \<in> set (chan_trigs tr i)" using assms(2) by (auto simp: chan_trigs_def elim: kindsE)
  then have mem: "get tr ! i \<in> set (?L tr)" using assms(3) by (auto simp: eval_nat_numeral less_Suc_eq)
  then show "sendbuf (get tr ! i) = 1 \<Longrightarrow> get tr ! i \<in> set (due tr)" by (simp add: due_def ready_def)
  then show "msgID (get tr ! i) \<in> msgID ` set (due tr) \<longleftrightarrow> sendbuf (get tr ! i) = 1"
    using inj mem by (auto simp: due_def ready_def dest: inj_onD)
qed

text \<open>The turns a kind of trigger waits for the samples after it.\<close>

definition wait_turns :: "(TriggerTypes \<Rightarrow> TriggerInfo list) \<Rightarrow> nat \<Rightarrow> nat" where
  "wait_turns get i = unat (posttrigpts (get InitTriggerInfo ! i) div 1000)"

lemma less_4: "(i :: nat) < 4 \<Longrightarrow> i = 0 \<or> i = 1 \<or> i = 2 \<or> i = 3"
  by arith

lemma wait_turns: "(get, ps) \<in> kinds \<Longrightarrow> i < 4 \<Longrightarrow> wait_turns get i \<in> {8, 50}"
  by (frule less_4; erule kindsE) (auto simp: wait_turns_def InitTriggerInfo_def init_trigger_def unat_div)

text \<open>A waiting trigger after \<open>j\<close> turns: the address it was detected at is kept.\<close>

definition waiting :: "u32 \<Rightarrow> nat \<Rightarrow> TriggerInfo \<Rightarrow> bool" where
  "waiting a j t \<longleftrightarrow> active t = 1 \<and> sendbuf t = 0 \<and> addr t = a \<and> postdlycnt t = word_of_nat j"

lemma turn_effect_nth:
  assumes "turn_effect tr tr1 tr'" "(get, ps) \<in> kinds" "i < 4"
  shows "\<exists>v. get tr1 ! i = observe v (get tr ! i)" "get tr' ! i = after_send (get tr1 ! i)"
    "conf (get tr1 ! i) = conf (get InitTriggerInfo ! i)"
proof -
  have e: "list_all2 (\<lambda>t t1. \<exists>v. t1 = observe v t) (get tr) (get tr1)" "map conf (get tr1) = map conf (get InitTriggerInfo)"
    "get tr' = map after_send (get tr1)" using assms(1,2) by (auto simp: turn_effect_def)
  then have l: "length (get tr1) = 4" "length (get InitTriggerInfo) = 4" "length (get tr) = 4"
    using kinds_length [OF assms(2)] by (metis length_map list_all2_lengthD)+
  then show "\<exists>v. get tr1 ! i = observe v (get tr ! i)" "get tr' ! i = after_send (get tr1 ! i)"
    using e assms(3) by (auto dest: list_all2_nthD)
  show "conf (get tr1 ! i) = conf (get InitTriggerInfo ! i)" using e(2) l assms(3) by (metis nth_map)
qed

lemma conf_observed: "t1 = observe v t \<Longrightarrow> conf t = conf t1"
  by simp

lemma turn_detect:
  assumes "turn_effect tr tr1 tr'" "(get, ps) \<in> kinds" "i < 4" "snap_ok b (wb, tr, s, net)"
    and "active (get tr ! i) = 0" "active (get tr1 ! i) = 1"
  shows "waiting (addr (get tr1 ! i)) 1 (get tr' ! i)" "sendbuf (get tr1 ! i) = 0"
proof -
  let ?t = "get tr ! i"
  obtain v where v: "get tr1 ! i = observe v ?t" using turn_effect_nth(1) [OF assms(1-3)] by blast
  have p: "posttrigpts ?t = posttrigpts (get InitTriggerInfo ! i)"
    using conf_observed [OF v] turn_effect_nth(3) [OF assms(1-3)] by (simp add: conf_def)
  have "0 < posttrigpts ?t div 1000"
    using wait_turns [OF assms(2,3)] p by (auto simp: wait_turns_def word_gt_0)
  then have o: "get tr1 ! i = ?t\<lparr>addr := v, addr_last := v, active := 1, postdlycnt := 1\<rparr>"
    using v assms(5,6) observe_detect by metis
  have "list_all2 (\<lambda>r. trig_ok b r s) ps (get tr)" using assms(2,4) by (auto simp: snap_ok_def)
  then have "sendbuf ?t = 0" using kinds_length [OF assms(2)] assms(3) by (auto simp: list_all2_conv_all_nth trig_ok_def)
  then show "sendbuf (get tr1 ! i) = 0" using o by simp
  then show "waiting (addr (get tr1 ! i)) 1 (get tr' ! i)"
    using o turn_effect_nth(2) [OF assms(1-3)] by (simp add: waiting_def after_send_def)
qed

lemma turn_wait:
  assumes "turn_effect tr tr1 tr'" "(get, ps) \<in> kinds" "i < 4" "waiting a j (get tr ! i)" "j < wait_turns get i"
  shows "waiting a (Suc j) (get tr' ! i)" "sendbuf (get tr1 ! i) = 0"
proof -
  let ?t = "get tr ! i"
  obtain v where v: "get tr1 ! i = observe v ?t" using turn_effect_nth(1) [OF assms(1-3)] by blast
  have p: "posttrigpts ?t = posttrigpts (get InitTriggerInfo ! i)"
    using conf_observed [OF v] turn_effect_nth(3) [OF assms(1-3)] by (simp add: conf_def)
  have "unat (postdlycnt ?t) = j"
    using assms(4,5) wait_turns [OF assms(2,3)] by (auto simp: waiting_def intro: unat_small)
  then have "postdlycnt ?t < posttrigpts ?t div 1000" using assms(5) p by (simp add: word_less_nat_alt wait_turns_def)
  with assms(4) v have o: "get tr1 ! i = ?t\<lparr>postdlycnt := postdlycnt ?t + 1\<rparr>" by (simp add: observe_wait waiting_def)
  then show "sendbuf (get tr1 ! i) = 0" using assms(4) by (simp add: waiting_def)
  then show "waiting a (Suc j) (get tr' ! i)"
    using o assms(4) turn_effect_nth(2) [OF assms(1-3)] by (simp add: waiting_def after_send_def)
qed

lemma turn_serve:
  assumes "turn_effect tr tr1 tr'" "(get, ps) \<in> kinds" "i < 4" "waiting a (wait_turns get i) (get tr ! i)"
  shows "sendbuf (get tr1 ! i) = 1" "addr (get tr1 ! i) = a" "active (get tr' ! i) = 0"
proof -
  let ?t = "get tr ! i"
  obtain v where v: "get tr1 ! i = observe v ?t" using turn_effect_nth(1) [OF assms(1-3)] by blast
  have p: "posttrigpts ?t = posttrigpts (get InitTriggerInfo ! i)"
    using conf_observed [OF v] turn_effect_nth(3) [OF assms(1-3)] by (simp add: conf_def)
  have "postdlycnt ?t = posttrigpts ?t div 1000" using assms(4) p by (simp add: waiting_def wait_turns_def)
  with assms(4) v have o: "get tr1 ! i = ?t\<lparr>sendbuf := 1\<rparr>" by (simp add: observe_done waiting_def)
  then show "sendbuf (get tr1 ! i) = 1" "addr (get tr1 ! i) = a" using assms(4) by (simp_all add: waiting_def)
  then show "active (get tr' ! i) = 0" using turn_effect_nth(2) [OF assms(1-3)] by (simp add: after_send_def)
qed

lemma wait_all:
  assumes "pointer_board b" "others_ok env" "(get, ps) \<in> kinds" "i < 4"
    and "snapshot_push n b ddr env k s net = Ret (ds, wb, tr, s1, net1)" "snap_ok b (wb, tr, s1, net1)"
    and "waiting a 1 (get tr ! i)"
  shows "Suc m \<le> wait_turns get i \<Longrightarrow> \<exists>es wb' tr' s' net'. snapshot_push n b ddr env (k + m) s net = Ret (ds @ es, wb', tr', s', net')
    \<and> snap_ok b (wb', tr', s', net') \<and> waiting a (Suc m) (get tr' ! i)
    \<and> map (\<lambda>d. msgID (get InitTriggerInfo ! i) \<in> msgID ` set d) es = replicate m False"
proof (induction m)
  case 0
  have "waiting a (Suc 0) (get tr ! i)" using assms(7) by simp
  then show ?case using assms(5,6) by simp
next
  case (Suc m)
  then obtain es wb2 tr2 s2 net2 where 2: "snapshot_push n b ddr env (k + m) s net = Ret (ds @ es, wb2, tr2, s2, net2)"
    "snap_ok b (wb2, tr2, s2, net2)" "waiting a (Suc m) (get tr2 ! i)"
    "map (\<lambda>d. msgID (get InitTriggerInfo ! i) \<in> msgID ` set d) es = replicate m False" by auto
  obtain s3 net3 where 3: "env (k + m) (s2, net2) = (s3, net3)" by (cases "env (k + m) (s2, net2)")
  obtain tr4 s4 where 4: "CheckforTriggers b tr2 s3 = (tr4, s4)" by (cases "CheckforTriggers b tr2 s3")
  obtain wb5 tr5 s5 net5 where 5: "snapshot_push n b ddr env (Suc (k + m)) s net = Ret ((ds @ es) @ [due tr4], wb5, tr5, s5, net5)"
    "snap_ok b (wb5, tr5, s5, net5)" "turn_effect tr2 tr4 tr5"
    using snapshot_push_Suc [OF assms(1,2) 2(1,2) 3 4] by blast
  have w: "waiting a (Suc (Suc m)) (get tr5 ! i)" "sendbuf (get tr4 ! i) = 0"
    using turn_wait [OF 5(3) assms(3,4) 2(3)] Suc.prems by simp_all
  have confs: "\<forall>(get, ps) \<in> kinds. map conf (get tr4) = map conf (get InitTriggerInfo)"
    using 5(3) by (auto simp: turn_effect_def)
  have "msgID (get tr4 ! i) = msgID (get InitTriggerInfo ! i)"
    by (rule msgID_conf) (rule turn_effect_nth(3) [OF 5(3) assms(3,4)])
  then have "msgID (get InitTriggerInfo ! i) \<notin> msgID ` set (due tr4)"
    using due_iff(1) [OF confs assms(3,4)] w(2) by simp
  then have "map (\<lambda>d. msgID (get InitTriggerInfo ! i) \<in> msgID ` set d) (es @ [due tr4]) = replicate (Suc m) False"
    using 2(4) by (simp add: replicate_append_same del: replicate.simps) (simp add: replicate_app_Cons_same)
  then show ?case using 5(1,2) w(1) by (intro exI [of _ "es @ [due tr4]"]) auto
qed

lemma served:
  assumes "pointer_board b" "others_ok env" "length (scalefactors s) = 4"
    and "snapshot_push n b ddr env k s net = Ret (ds, wb, tr, s1, net1)" "(get, ps) \<in> kinds" "i < 4"
    and "env k (s1, net1) = (s2, net2)" "CheckforTriggers b tr s2 = (tr3, s3)"
    and "active (get tr ! i) = 0" "active (get tr3 ! i) = 1"
  shows "\<exists>es wb' tr' s' net'. snapshot_push n b ddr env (k + wait_turns get i + 1) s net = Ret (ds @ es, wb', tr', s', net')
    \<and> map (\<lambda>d. msgID (get InitTriggerInfo ! i) \<in> msgID ` set d) es = replicate (wait_turns get i) False @ [True]
    \<and> (\<exists>t \<in> set (last es). msgID t = msgID (get InitTriggerInfo ! i) \<and> addr t = addr (get tr3 ! i))
    \<and> active (get tr' ! i) = 0"
proof -
  let ?id = "msgID (get InitTriggerInfo ! i)" and ?D = "wait_turns get i"
  have ok: "snap_ok b (wb, tr, s1, net1)"
    using snapshot_push_ok [OF assms(1-3), of n ddr k net] assms(4) by auto
  obtain wb4 tr4 s4 net4 where 4: "snapshot_push n b ddr env (Suc k) s net = Ret (ds @ [due tr3], wb4, tr4, s4, net4)"
    "snap_ok b (wb4, tr4, s4, net4)" "turn_effect tr tr3 tr4"
    using snapshot_push_Suc [OF assms(1,2,4) ok assms(7,8)] by blast
  have not_due: "?id \<in> msgID ` set (due tr1) \<longleftrightarrow> sendbuf (get tr1 ! i) = 1" "sendbuf (get tr1 ! i) = 1 \<Longrightarrow> get tr1 ! i \<in> set (due tr1)"
    "msgID (get tr1 ! i) = ?id" if "turn_effect tr0 tr1 tr2" for tr0 tr1 tr2
  proof -
    have "\<forall>(get, ps) \<in> kinds. map conf (get tr1) = map conf (get InitTriggerInfo)" using that by (auto simp: turn_effect_def)
    note d = due_iff [OF this assms(5,6)]
    show "msgID (get tr1 ! i) = ?id" by (rule msgID_conf) (rule turn_effect_nth(3) [OF that assms(5,6)])
    then show "?id \<in> msgID ` set (due tr1) \<longleftrightarrow> sendbuf (get tr1 ! i) = 1" using d(1) by simp
    show "sendbuf (get tr1 ! i) = 1 \<Longrightarrow> get tr1 ! i \<in> set (due tr1)" by (rule d(2))
  qed
  have w: "waiting (addr (get tr3 ! i)) 1 (get tr4 ! i)" "sendbuf (get tr3 ! i) = 0"
    using turn_detect [OF 4(3) assms(5,6) ok assms(9,10)] by simp_all
  have D: "Suc (?D - 1) = ?D" using wait_turns [OF assms(5,6)] by auto
  then obtain es wb5 tr5 s5 net5 where 5: "snapshot_push n b ddr env (k + ?D) s net = Ret ((ds @ [due tr3]) @ es, wb5, tr5, s5, net5)"
    "snap_ok b (wb5, tr5, s5, net5)" "waiting (addr (get tr3 ! i)) ?D (get tr5 ! i)"
    "map (\<lambda>d. ?id \<in> msgID ` set d) es = replicate (?D - 1) False"
    using wait_all [OF assms(1,2,5,6) 4(1,2) w(1), of "?D - 1"] by (metis add_Suc_shift order_refl)
  obtain s6 net6 where 6: "env (k + ?D) (s5, net5) = (s6, net6)" by (cases "env (k + ?D) (s5, net5)")
  obtain tr7 s7 where 7: "CheckforTriggers b tr5 s6 = (tr7, s7)" by (cases "CheckforTriggers b tr5 s6")
  obtain wb8 tr8 s8 net8 where 8: "snapshot_push n b ddr env (Suc (k + ?D)) s net = Ret (((ds @ [due tr3]) @ es) @ [due tr7], wb8, tr8, s8, net8)"
    "turn_effect tr5 tr7 tr8"
    using snapshot_push_Suc [OF assms(1,2) 5(1,2) 6 7] by blast
  note serve = turn_serve [OF 8(2) assms(5,6) 5(3)]
  have "map (\<lambda>d. ?id \<in> msgID ` set d) (due tr3 # es @ [due tr7]) = (False # replicate (?D - 1) False) @ [True]"
    using not_due(1) [OF 4(3)] w(2) 5(4) not_due(1) [OF 8(2)] serve(1) by simp
  then have "map (\<lambda>d. ?id \<in> msgID ` set d) (due tr3 # es @ [due tr7]) = replicate ?D False @ [True]"
    using D by (metis replicate_Suc)
  moreover have "get tr7 ! i \<in> set (last (due tr3 # es @ [due tr7]))" using not_due(2) [OF 8(2) serve(1)] by simp
  ultimately show ?thesis
    using 8(1) serve not_due(3) [OF 8(2)] by (intro exI [of _ "due tr3 # es @ [due tr7]"]) auto
qed

section \<open>Properties\<close>

text \<open>
  C12. The task never stops: whatever the other tasks do to the board, the scale factors and the
  clients between its turns, and whenever triggers come, every turn of \<open>snapshot_push\<close> from its start
  on returns, inside its buffers, in a state from which the next one does.
\<close>

theorem snapshot_push_returns:
  assumes "pointer_board b" "others_ok env" "length (scalefactors s) = 4"
  shows "\<exists>ds st. snapshot_push n b ddr env k s net = Ret (ds, st) \<and> snap_ok b st \<and> length ds = k"
  using assms by (rule snapshot_push_ok)

text \<open>A board on which every trigger has happened once, in the first slot.\<close>

definition slot_board :: board where
  "slot_board = \<lparr>axi_base = 0x43C00000, reg_answer = (\<lambda>_ _. BUFSTART), spi_answer = (\<lambda>_. [])\<rparr>"

lemma slot_board_ok: "pointer_board slot_board"
proof -
  have "slot_ptr BUFSTART" unfolding slot_ptr_def by (rule exI [of _ 0]) simp
  then show ?thesis by (simp add: pointer_board_def slot_board_def)
qed

lemma unit_psc_four: "length (scalefactors unit_psc) = 4"
  by (simp add: unit_psc_def)

lemma no_others_ok: "others_ok (\<lambda>_ p. p)"
  by (simp add: others_ok_def)

theorem snapshot_push_returns_witness:
  "\<exists>ds st. snapshot_push (log_net {6}) slot_board (\<lambda>_ a. a) (\<lambda>_ p. p) 60 unit_psc (Some two_clients, \<lambda>_. []) = Ret (ds, st)
    \<and> snap_ok slot_board st \<and> length ds = 60"
  by (rule snapshot_push_returns [OF slot_board_ok no_others_ok unit_psc_four])

text \<open>
  C13. What a turn sends: a broadcast of 4000000 bytes for each trigger that is due, channel by
  channel and in a channel user, fault, error, injection, event, each with the id of its trigger,
  and then the 500 bytes of statistics. Nothing else is sent.
\<close>

theorem snapshot_turn_sends:
  assumes "pointer_board b" "snap_ok b (wb, tr, s, net)"
  shows "\<exists>wb' tr' s' net'. snapshot_turn n b ddr (wb, tr, s, net) = Ret (wb', tr', s', net') \<and> snap_ok b (wb', tr', s', net')
    \<and> broadcasts n (map (\<lambda>t. (ucast (msgID t), 4000000)) (due (fst (CheckforTriggers b tr s))) @ [(50, 500)]) net net'"
proof -
  have "wfm_msg = (\<lambda>t. (ucast (msgID t), 4000000))" by (simp add: fun_eq_iff wfm_msg_def)
  with snapshot_turn_step [OF assms, of _ _ n ddr] show ?thesis by (metis prod.collapse)
qed

theorem snapshot_turn_sends_witness:
  "\<exists>wb' tr' s' net'. snapshot_turn (log_net {6}) slot_board (\<lambda>_ a. a) (static_bufs, InitTriggerInfo, unit_psc, (Some two_clients, \<lambda>_. [])) =
      Ret (wb', tr', s', net') \<and> snap_ok slot_board (wb', tr', s', net')
    \<and> broadcasts (log_net {6}) (map (\<lambda>t. (ucast (msgID t), 4000000)) (due (fst (CheckforTriggers slot_board InitTriggerInfo unit_psc))) @ [(50, 500)])
        (Some two_clients, \<lambda>_. []) net'"
  by (rule snapshot_turn_sends [OF slot_board_ok snap_ok_start [OF unit_psc_four]])

text \<open>
  C4. Every trigger the task has seen is served, once and in time. When a turn finds an idle
  trigger's pointer changed, its waveform is not sent by that turn and not by the ones of the
  next 5 seconds (0.8 seconds for injection), and it is sent by the turn after them, around the
  address that was latched, however the pointer changes meanwhile and whatever the other tasks
  do; then the trigger is idle again.
\<close>

theorem trigger_served:
  assumes "pointer_board b" "others_ok env" "length (scalefactors s) = 4"
    and "snapshot_push n b ddr env k s net = Ret (ds, wb, tr, s1, net1)" "(get, ps) \<in> kinds" "i < 4"
    and "env k (s1, net1) = (s2, net2)" "CheckforTriggers b tr s2 = (tr3, s3)"
    and "active (get tr ! i) = 0" "active (get tr3 ! i) = 1"
  shows "\<exists>es wb' tr' s' net'. snapshot_push n b ddr env (k + wait_turns get i + 1) s net = Ret (ds @ es, wb', tr', s', net')
    \<and> map (\<lambda>d. msgID (get InitTriggerInfo ! i) \<in> msgID ` set d) es = replicate (wait_turns get i) False @ [True]
    \<and> (\<exists>t \<in> set (last es). msgID t = msgID (get InitTriggerInfo ! i) \<and> addr t = addr (get tr3 ! i))
    \<and> active (get tr' ! i) = 0"
  using assms by (rule served)

lemma slot_board_detects:
  "\<exists>tr3 s3. CheckforTriggers slot_board InitTriggerInfo unit_psc = (tr3, s3) \<and> active (inj tr3 ! 1) = 1 \<and> addr (inj tr3 ! 1) = BUFSTART"
proof -
  have p: "poll_trigger slot_board r (init_trigger pre post m j) s =
      ((init_trigger pre post m j)\<lparr>addr := BUFSTART, active := 1, addr_last := BUFSTART, postdlycnt := 1\<rparr>,
       s\<lparr>bus := bus s @ [Rd (glob_reg slot_board r)]\<rparr>)" if "0 < post div 1000" for r pre post m j s
    using that by (simp add: poll_trigger_def init_trigger_def Xil_In32_def slot_board_def ProcessTrigger_def)
  have d: "0 < (50000 :: u32) div 1000" "0 < (8000 :: u32) div 1000" by (simp_all add: word_gt_0)
  obtain tr3 s3 where c: "CheckforTriggers slot_board InitTriggerInfo unit_psc = (tr3, s3)"
    by (cases "CheckforTriggers slot_board InitTriggerInfo unit_psc")
  then have "inj tr3 = map (\<lambda>j. (init_trigger 0 8000 MSGINJCH1 j)\<lparr>addr := BUFSTART, active := 1, addr_last := BUFSTART, postdlycnt := 1\<rparr>) [0, 1, 2, 3]"
    by (auto simp: CheckforTriggers_def InitTriggerInfo_def p [OF d(1)] p [OF d(2)])
  then show ?thesis using c by simp
qed

theorem trigger_served_witness:
  "\<exists>es wb' tr' s' net'. snapshot_push (log_net {6}) slot_board (\<lambda>_ a. a) (\<lambda>_ p. p) 9 unit_psc (Some two_clients, \<lambda>_. []) =
      Ret ([] @ es, wb', tr', s', net')
    \<and> map (\<lambda>d. 91 \<in> msgID ` set d) es = replicate 8 False @ [True]
    \<and> (\<exists>t \<in> set (last es). msgID t = 91 \<and> addr t = BUFSTART) \<and> active (inj tr' ! 1) = 0"
proof -
  obtain tr3 s3 where c: "CheckforTriggers slot_board InitTriggerInfo unit_psc = (tr3, s3)" "active (inj tr3 ! 1) = 1" "addr (inj tr3 ! 1) = BUFSTART"
    using slot_board_detects by blast
  have w: "wait_turns inj 1 = 8" by (simp add: wait_turns_def InitTriggerInfo_def init_trigger_def unat_div)
  have i: "active (inj InitTriggerInfo ! 1) = 0" "msgID (inj InitTriggerInfo ! 1) = 91" by (simp_all add: InitTriggerInfo_def init_trigger_def)
  have start: "snapshot_push (log_net {6}) slot_board (\<lambda>_ a. a) (\<lambda>_ p. p) 0 unit_psc (Some two_clients, \<lambda>_. []) =
      Ret ([], static_bufs, InitTriggerInfo, unit_psc, Some two_clients, \<lambda>_. [])"
    by (simp add: snapshot_push_def)
  have four: "(1 :: nat) < 4" and nine: "0 + 8 + 1 = (9 :: nat)" by simp_all
  show ?thesis
    using trigger_served [OF slot_board_ok no_others_ok unit_psc_four start kinds_mem(4) four refl c(1) i(1) c(2)]
    unfolding w i(2) c(3) nine .
qed

end
