(* ===== verification/Readback.thy ===== *)
theory Readback
  imports Snapshots
begin

text \<open>
  sadata.c: the readback. Ten times a second the task reads the registers of the board and of its
  four channels, converts them to amperes, volts, seconds and gains, and sends all of it as one
  message of fixed layout.
\<close>

section \<open>The structures of sadata.h\<close>

record SAdataChan =
  dcct1 :: f32
  dcct1_offset :: f32
  dcct1_gain :: f32
  dcct2 :: f32
  dcct2_offset :: f32
  dcct2_gain :: f32
  dacmon :: f32
  dacmon_offset :: f32
  dacmon_gain :: f32
  volt :: f32
  volt_offset :: f32
  volt_gain :: f32
  gnd :: f32
  gnd_offset :: f32
  gnd_gain :: f32
  spare :: f32
  spare_offset :: f32
  spare_gain :: f32
  reg :: f32
  reg_offset :: f32
  reg_gain :: f32
  error :: f32
  error_offset :: f32
  error_gain :: f32
  dac_setpt :: f32
  dac_setpt_offset :: f32
  dac_setpt_gain :: f32
  dac_rampactive :: s32
  ovc1_thresh :: f32
  ovc2_thresh :: f32
  ovv_thresh :: f32
  err1_thresh :: f32
  err2_thresh :: f32
  ignd_thresh :: f32
  ovc1_cntlim :: f32
  ovc2_cntlim :: f32
  ovv_cntlim :: f32
  err1_cntlim :: f32
  err2_cntlim :: f32
  ignd_cntlim :: f32
  dcct_cntlim :: f32
  flt1_cntlim :: f32
  flt2_cntlim :: f32
  flt3_cntlim :: f32
  on_cntlim :: f32
  heartbeat_cntlim :: f32
  fault_clear :: u32
  fault_mask :: u32
  digout_on1 :: u32
  digout_on2 :: u32
  digout_reset :: u32
  digout_spare :: u32
  digout_park :: u32
  digin :: u32
  faults_live :: u32
  faults_latched :: u32
  sf_ampspersec :: f32
  sf_dac_dccts :: f32
  sf_vout :: f32
  sf_ignd :: f32
  sf_spare :: f32
  sf_regulator :: f32
  sf_error :: f32
  dac_setpt_raw :: s32
  dpid_kp :: f32
  dpid_ki :: f32
  dpid_kd :: f32
  dpid_setptin :: f32
  dpid_fdbk :: f32
  dpid_error :: f32
  dpid_pterm :: f32
  dpid_iterm :: f32
  dpid_dterm :: f32
  dpid_sumterm :: f32
  dpid_setptout :: s32

record SAdataMsg =
  numchans :: u32
  evr_ts_ns :: u32
  evr_ts_s :: u32
  resolution :: u32
  git_shasum :: u32
  die_temp :: f32
  vccint :: f32
  vccaux :: f32
  bandwidth :: u32
  polarity :: u32
  rsvd :: "u32 list"
  ps :: "SAdataChan list"

text \<open>The words of the structures in memory.\<close>

definition chan_words :: "SAdataChan \<Rightarrow> u32 list" where
  "chan_words p =
     [dcct1 p, dcct1_offset p, dcct1_gain p, dcct2 p, dcct2_offset p, dcct2_gain p, dacmon p,
      dacmon_offset p, dacmon_gain p, volt p, volt_offset p, volt_gain p, gnd p, gnd_offset p,
      gnd_gain p, SAdataChan.spare p, spare_offset p, spare_gain p, reg p, reg_offset p,
      reg_gain p, SAdataChan.error p, error_offset p, error_gain p, dac_setpt p,
      dac_setpt_offset p, dac_setpt_gain p, dac_rampactive p, ovc1_thresh p, ovc2_thresh p,
      ovv_thresh p, err1_thresh p, err2_thresh p, ignd_thresh p, ovc1_cntlim p, ovc2_cntlim p,
      ovv_cntlim p, err1_cntlim p, err2_cntlim p, ignd_cntlim p, dcct_cntlim p, flt1_cntlim p,
      flt2_cntlim p, flt3_cntlim p, on_cntlim p, heartbeat_cntlim p, fault_clear p,
      fault_mask p, digout_on1 p, digout_on2 p, digout_reset p, digout_spare p, digout_park p,
      digin p, faults_live p, faults_latched p, sf_ampspersec p, sf_dac_dccts p, sf_vout p,
      sf_ignd p, sf_spare p, sf_regulator p, sf_error p, dac_setpt_raw p, dpid_kp p, dpid_ki p,
      dpid_kd p, dpid_setptin p, dpid_fdbk p, dpid_error p, dpid_pterm p, dpid_iterm p,
      dpid_dterm p, dpid_sumterm p, dpid_setptout p]"

definition sadata_words :: "SAdataMsg \<Rightarrow> u32 list" where
  "sadata_words m =
     [numchans m, evr_ts_ns m, evr_ts_s m, resolution m, git_shasum m, die_temp m, vccint m, vccaux m,
      bandwidth m, polarity m] @ rsvd m @ concat (map chan_words (ps m))"

section \<open>Conversions\<close>

text \<open>
  As in the assignments of \<open>sadata_push\<close>: \<open>CONVDACBITSTOVOLTS\<close> is a float, the other constants are
  doubles.
\<close>

definition accum_dac :: "u32 \<Rightarrow> f32 \<Rightarrow> f32 \<Rightarrow> u32 \<Rightarrow> f32" where
  "accum_dac mode dacv k w = f32_mul (f32_mul (accum mode w) dacv) k"

definition accum_adc :: "u32 \<Rightarrow> f32 \<Rightarrow> u32 \<Rightarrow> f32" where
  "accum_adc mode k w = adc_scale k (f64_of_f32 (accum mode w))"

definition gain_float :: "u32 \<Rightarrow> f32" where
  "gain_float w = f32_of_f64 (f64_div (f64_of_int (sint w)) GAIN20BITFRACT)"

definition seconds :: "u32 \<Rightarrow> f32" where
  "seconds w = f32_of_f64 (f64_div (f64_of_int (uint w)) SAMPLERATE)"

section \<open>One channel\<close>

text \<open>The registers in the order in which they are read, each with what is done with its value.\<close>

definition chan_reads :: "u32 \<Rightarrow> f32 \<Rightarrow> ScaleFactorType \<Rightarrow> (u32 \<times> (u32 \<Rightarrow> SAdataChan \<Rightarrow> SAdataChan)) list" where
  "chan_reads mode dacv sf =
     [(DCCT1_REG, \<lambda>w p. p\<lparr>dcct1 := accum_dac mode dacv (dac_dccts sf) w\<rparr>),
      (DCCT1_OFFSET_REG, \<lambda>w p. p\<lparr>dcct1_offset := dac_amps dacv (dac_dccts sf) w\<rparr>),
      (DCCT1_GAIN_REG, \<lambda>w p. p\<lparr>dcct1_gain := gain_float w\<rparr>),
      (DCCT2_REG, \<lambda>w p. p\<lparr>dcct2 := accum_dac mode dacv (dac_dccts sf) w\<rparr>),
      (DCCT2_OFFSET_REG, \<lambda>w p. p\<lparr>dcct2_offset := dac_amps dacv (dac_dccts sf) w\<rparr>),
      (DCCT2_GAIN_REG, \<lambda>w p. p\<lparr>dcct2_gain := gain_float w\<rparr>),
      (DACMON_REG, \<lambda>w p. p\<lparr>dacmon := accum_adc mode (dac_dccts sf) w\<rparr>),
      (DACMON_OFFSET_REG, \<lambda>w p. p\<lparr>dacmon_offset := adc_scale (dac_dccts sf) (f64_of_int (sint w))\<rparr>),
      (DACMON_GAIN_REG, \<lambda>w p. p\<lparr>dacmon_gain := gain_float w\<rparr>),
      (VOLT_REG, \<lambda>w p. p\<lparr>volt := accum_adc mode (vout sf) w\<rparr>),
      (VOLT_OFFSET_REG, \<lambda>w p. p\<lparr>volt_offset := adc_scale (vout sf) (f64_of_int (sint w))\<rparr>),
      (VOLT_GAIN_REG, \<lambda>w p. p\<lparr>volt_gain := gain_float w\<rparr>),
      (GND_REG, \<lambda>w p. p\<lparr>gnd := accum_adc mode (ignd sf) w\<rparr>),
      (GND_OFFSET_REG, \<lambda>w p. p\<lparr>gnd_offset := adc_scale (ignd sf) (f64_of_int (sint w))\<rparr>),
      (GND_GAIN_REG, \<lambda>w p. p\<lparr>gnd_gain := gain_float w\<rparr>),
      (SPARE_REG, \<lambda>w p. p\<lparr>spare := accum_adc mode (ScaleFactorType.spare sf) w\<rparr>),
      (SPARE_OFFSET_REG, \<lambda>w p. p\<lparr>spare_offset := adc_scale (ScaleFactorType.spare sf) (f64_of_int (sint w))\<rparr>),
      (SPARE_GAIN_REG, \<lambda>w p. p\<lparr>spare_gain := gain_float w\<rparr>),
      (REG_REG, \<lambda>w p. p\<lparr>reg := accum_adc mode (regulator sf) w\<rparr>),
      (REG_OFFSET_REG, \<lambda>w p. p\<lparr>reg_offset := adc_scale (regulator sf) (f64_of_int (sint w))\<rparr>),
      (REG_GAIN_REG, \<lambda>w p. p\<lparr>reg_gain := gain_float w\<rparr>),
      (ERR_REG, \<lambda>w p. p\<lparr>error := accum_adc mode (ScaleFactorType.error sf) w\<rparr>),
      (ERR_OFFSET_REG, \<lambda>w p. p\<lparr>error_offset := adc_scale (ScaleFactorType.error sf) (f64_of_int (sint w))\<rparr>),
      (ERR_GAIN_REG, \<lambda>w p. p\<lparr>error_gain := gain_float w\<rparr>),
      (DAC_CURRSETPT_REG, \<lambda>w p. p\<lparr>dac_setpt := dac_amps dacv (dac_dccts sf) w\<rparr>),
      (DAC_CURRSETPT_REG, \<lambda>w p. p\<lparr>dac_setpt_raw := w\<rparr>),
      (DAC_SETPT_OFFSET_REG, \<lambda>w p. p\<lparr>dac_setpt_offset := f32_mul (f32_of_int (sint w)) dacv\<rparr>),
      (DAC_SETPT_GAIN_REG, \<lambda>w p. p\<lparr>dac_setpt_gain := gain_float w\<rparr>),
      (DAC_RAMPACTIVE_REG, \<lambda>w p. p\<lparr>dac_rampactive := w\<rparr>),
      (OVC1_THRESH_REG, \<lambda>w p. p\<lparr>ovc1_thresh := dac_amps dacv (dac_dccts sf) w\<rparr>),
      (OVC2_THRESH_REG, \<lambda>w p. p\<lparr>ovc2_thresh := dac_amps dacv (dac_dccts sf) w\<rparr>),
      (OVV_THRESH_REG, \<lambda>w p. p\<lparr>ovv_thresh := adc_scale (vout sf) (f64_of_int (uint w))\<rparr>),
      (ERR1_THRESH_REG, \<lambda>w p. p\<lparr>err1_thresh := adc_scale (ScaleFactorType.error sf) (f64_of_int (uint w))\<rparr>),
      (ERR2_THRESH_REG, \<lambda>w p. p\<lparr>err2_thresh := adc_scale (ScaleFactorType.error sf) (f64_of_int (uint w))\<rparr>),
      (IGND_THRESH_REG, \<lambda>w p. p\<lparr>ignd_thresh := adc_scale (ignd sf) (f64_of_int (uint w))\<rparr>),
      (OVC1_CNTLIM_REG, \<lambda>w p. p\<lparr>ovc1_cntlim := seconds w\<rparr>),
      (OVC2_CNTLIM_REG, \<lambda>w p. p\<lparr>ovc2_cntlim := seconds w\<rparr>),
      (OVV_CNTLIM_REG, \<lambda>w p. p\<lparr>ovv_cntlim := seconds w\<rparr>),
      (ERR1_CNTLIM_REG, \<lambda>w p. p\<lparr>err1_cntlim := seconds w\<rparr>),
      (ERR2_CNTLIM_REG, \<lambda>w p. p\<lparr>err2_cntlim := seconds w\<rparr>),
      (IGND_CNTLIM_REG, \<lambda>w p. p\<lparr>ignd_cntlim := seconds w\<rparr>),
      (DCCT_CNTLIM_REG, \<lambda>w p. p\<lparr>dcct_cntlim := seconds w\<rparr>),
      (FLT1_CNTLIM_REG, \<lambda>w p. p\<lparr>flt1_cntlim := seconds w\<rparr>),
      (FLT2_CNTLIM_REG, \<lambda>w p. p\<lparr>flt2_cntlim := seconds w\<rparr>),
      (FLT3_CNTLIM_REG, \<lambda>w p. p\<lparr>flt3_cntlim := seconds w\<rparr>),
      (ON_CNTLIM_REG, \<lambda>w p. p\<lparr>on_cntlim := seconds w\<rparr>),
      (HEARTBEAT_CNTLIM_REG, \<lambda>w p. p\<lparr>heartbeat_cntlim := seconds w\<rparr>),
      (FAULT_CLEAR_REG, \<lambda>w p. p\<lparr>fault_clear := w\<rparr>),
      (FAULT_MASK_REG, \<lambda>w p. p\<lparr>fault_mask := w\<rparr>),
      (DIGOUT_ON1_REG, \<lambda>w p. p\<lparr>digout_on1 := w\<rparr>),
      (DIGOUT_ON1_REG, \<lambda>w p. p\<lparr>digout_on2 := w\<rparr>),
      (DIGOUT_ON1_REG, \<lambda>w p. p\<lparr>digout_reset := w\<rparr>),
      (DIGOUT_RESET_REG, \<lambda>w p. p\<lparr>digout_spare := w\<rparr>),
      (DIGOUT_PARK_REG, \<lambda>w p. p\<lparr>digout_park := w\<rparr>),
      (DIGIN_REG, \<lambda>w p. p\<lparr>digin := w\<rparr>),
      (FAULTS_LIVE_REG, \<lambda>w p. p\<lparr>faults_live := w\<rparr>),
      (FAULTS_LAT_REG, \<lambda>w p. p\<lparr>faults_latched := w\<rparr>),
      (DPID_KP_REG, \<lambda>w p. p\<lparr>dpid_kp := w\<rparr>),
      (DPID_KI_REG, \<lambda>w p. p\<lparr>dpid_ki := w\<rparr>),
      (DPID_KD_REG, \<lambda>w p. p\<lparr>dpid_kd := w\<rparr>),
      (DPID_SETPTIN_REG, \<lambda>w p. p\<lparr>dpid_setptin := w\<rparr>),
      (DPID_FDBK_REG, \<lambda>w p. p\<lparr>dpid_fdbk := w\<rparr>),
      (DPID_ERROR_REG, \<lambda>w p. p\<lparr>dpid_error := w\<rparr>),
      (DPID_PTERM_REG, \<lambda>w p. p\<lparr>dpid_pterm := w\<rparr>),
      (DPID_ITERM_REG, \<lambda>w p. p\<lparr>dpid_iterm := w\<rparr>),
      (DPID_DTERM_REG, \<lambda>w p. p\<lparr>dpid_dterm := w\<rparr>),
      (DPID_SUMTERM_REG, \<lambda>w p. p\<lparr>dpid_sumterm := w\<rparr>),
      (DPID_SETPTOUT_REG, \<lambda>w p. p\<lparr>dpid_setptout := w\<rparr>)]"

definition set_scale :: "ScaleFactorType \<Rightarrow> SAdataChan \<Rightarrow> SAdataChan" where
  "set_scale sf p = 
     p\<lparr>sf_ampspersec := ampspersec sf, sf_dac_dccts := dac_dccts sf, sf_vout := vout sf,
       sf_ignd := ignd sf, sf_spare := ScaleFactorType.spare sf, sf_regulator := regulator sf, sf_error := ScaleFactorType.error sf\<rparr>"

definition read_field ::
    "board \<Rightarrow> (u32 \<Rightarrow> u32) \<Rightarrow> u32 \<times> (u32 \<Rightarrow> 'a \<Rightarrow> 'a) \<Rightarrow> 'a \<times> psc \<Rightarrow> 'a \<times> psc" where
  "read_field b loc rf st =
     (case rf of (r, f) \<Rightarrow> case st of (p, s) \<Rightarrow> case Xil_In32 b (loc r) s of (w, s) \<Rightarrow> (f w p, s))"

definition read_chan :: "board \<Rightarrow> u32 \<Rightarrow> SAdataChan list \<times> psc \<Rightarrow> (SAdataChan list \<times> psc) run" where
  "read_chan b chan st =
     (case st of (pss, s) \<Rightarrow>
        let (mode, s) = Xil_In32 b (chan_reg b chan AVEMODE_REG) s
        in run_bind (sf_at chan s) (\<lambda>sf.
             let (p, s) = fold (read_field b (chan_reg b chan)) (chan_reads mode (CONVDACBITSTOVOLTS s) sf) (pss ! unat (chan - 1), s)
             in Ret (pss[unat (chan - 1) := set_scale sf p], s)))"

section \<open>The task\<close>

definition header_reads :: "(u32 \<times> (u32 \<Rightarrow> SAdataMsg \<Rightarrow> SAdataMsg)) list" where
  "header_reads =
     [(RESOLUTION_REG, \<lambda>w m. m\<lparr>resolution := w\<rparr>),
      (NUMCHANS_REG, \<lambda>w m. m\<lparr>numchans := w\<rparr>),
      (POLARITY_REG, \<lambda>w m. m\<lparr>polarity := w\<rparr>),
      (BANDWIDTH_REG, \<lambda>w m. m\<lparr>bandwidth := w\<rparr>),
      (PRJ_SHASUM, \<lambda>w m. m\<lparr>git_shasum := w\<rparr>),
      (EVR_TS_S_REG, \<lambda>w m. m\<lparr>evr_ts_s := w\<rparr>),
      (EVR_TS_NS_REG, \<lambda>w m. m\<lparr>evr_ts_ns := w\<rparr>)]"

text \<open>
  One turn of \<open>sadata_push\<close>, after the delay of 100 ms. The structure is a local variable of the
  task, so what no turn assigns (\<open>die_temp\<close>, \<open>vccint\<close>, \<open>vccaux\<close> and \<open>rsvd\<close>) stays what it was at
  first; the message buffer is static.
\<close>

definition sadata_turn ::
    "'w net \<Rightarrow> board \<Rightarrow> u8 list \<times> SAdataMsg \<times> psc \<times> 'w chan_net \<Rightarrow> (u8 list \<times> SAdataMsg \<times> psc \<times> 'w chan_net) run" where
  "sadata_turn n b st =
     (case st of (msg, m, s, net) \<Rightarrow>
        let s = Xil_Out32 (glob_reg b TENHZ_DATASEND_REG) 1 s;
            s = Xil_Out32 (glob_reg b TENHZ_DATASEND_REG) 0 s;
            (m, s) = fold (read_field b (glob_reg b)) header_reads (m, s)
        in run_bind (run_fold (read_chan b) [1, 2, 3, 4] (ps m, s)) (\<lambda>(pss, s).
             let m = m\<lparr>ps := pss\<rparr>
             in run_bind (hton_conv (store (mem_words (sadata_words m)) msg) (4 * length (sadata_words m))) (\<lambda>msg.
                  Ret (msg, m, s, psc_send n 31 msg net))))"

lemma length_chan_words [simp]: "length (chan_words p) = 75"
  by (simp add: chan_words_def)

section \<open>What a turn reads\<close>

abbreviation (input) reads_only :: "io list \<Rightarrow> bool" where
  "reads_only es \<equiv> set es \<subseteq> range Rd"

lemma fold_read_field_state:
  "snd (fold (read_field b loc) rfs (p, s)) = s\<lparr>bus := bus s @ map (\<lambda>rf. Rd (loc (fst rf))) rfs\<rparr>"
  by (induction rfs arbitrary: p s) (auto simp: read_field_def Xil_In32_def split: prod.splits)

lemma fold_read_field_keep:
  assumes "\<forall>rf \<in> set rfs. \<forall>w p. fld (snd rf w p) = fld p"
  shows "fld (fst (fold (read_field b loc) rfs (p, s))) = fld p"
  using assms by (induction rfs arbitrary: p s) (auto simp: read_field_def Xil_In32_def split: prod.splits)

text \<open>A field that register number \<open>k\<close> of the list sets and no later one.\<close>

lemma fold_read_field_hit:
  assumes "k < length rfs" "fst (rfs ! k) = r" "\<forall>w p. fld (snd (rfs ! k) w p) = g w"
    and "\<forall>rf \<in> set (drop (Suc k) rfs). \<forall>w p. fld (snd rf w p) = fld p"
  shows "\<exists>es. fld (fst (fold (read_field b loc) rfs (p, s))) = g (reg_answer b (bus s @ es) (loc r)) \<and> reads_only es"
proof -
  obtain f where f: "rfs ! k = (r, f)" using assms(2) by (cases "rfs ! k") simp
  have split: "rfs = take k rfs @ (r, f) # drop (Suc k) rfs" using assms(1) by (simp add: f [symmetric] Cons_nth_drop_Suc)
  obtain q u where q: "fold (read_field b loc) (take k rfs) (p, s) = (q, u)" by (cases "fold (read_field b loc) (take k rfs) (p, s)")
  let ?es = "map (\<lambda>rf. Rd (loc (fst rf))) (take k rfs)"
  have u: "u = s\<lparr>bus := bus s @ ?es\<rparr>" using fold_read_field_state [of b loc "take k rfs" p s] q by simp
  have "fold (read_field b loc) rfs (p, s) =
      fold (read_field b loc) (drop (Suc k) rfs) (f (reg_answer b (bus s @ ?es) (loc r)) q,
        u\<lparr>bus := bus u @ [Rd (loc r)]\<rparr>)"
    by (subst split) (simp add: q read_field_def Xil_In32_def u)
  then have "fld (fst (fold (read_field b loc) rfs (p, s))) = g (reg_answer b (bus s @ ?es) (loc r))"
    using fold_read_field_keep [OF assms(4)] assms(3) f by simp
  moreover have "reads_only ?es" by auto
  ultimately show ?thesis by blast
qed

text \<open>
  The fields that are sent as they are read, with their position in the structure: some of those
  a client can set, and three digital outputs.
\<close>

definition raw_fields :: "(u32 \<times> nat) list" where
  "raw_fields = [(FAULT_CLEAR_REG, 46), (FAULT_MASK_REG, 47), (DIGOUT_ON1_REG, 48), (DIGOUT_ON1_REG, 49), (DIGOUT_ON1_REG, 50),
     (DIGOUT_RESET_REG, 51), (DIGOUT_PARK_REG, 52), (DPID_KP_REG, 64), (DPID_KI_REG, 65), (DPID_KD_REG, 66)]"

definition raw_image :: "board \<Rightarrow> u32 \<Rightarrow> io list \<Rightarrow> SAdataChan \<Rightarrow> bool" where
  "raw_image b chan h p \<longleftrightarrow> (\<forall>(r, k) \<in> set raw_fields. \<exists>es. reads_only es
     \<and> chan_words p ! k = reg_answer b (h @ es) (chan_reg b chan r))"

lemma raw_reads:
  "\<exists>es. fault_clear (fst (fold (read_field b (chan_reg b chan)) (chan_reads mode dacv sf) (p, s))) = reg_answer b (bus s @ es) (chan_reg b chan FAULT_CLEAR_REG) \<and> reads_only es"
  "\<exists>es. fault_mask (fst (fold (read_field b (chan_reg b chan)) (chan_reads mode dacv sf) (p, s))) = reg_answer b (bus s @ es) (chan_reg b chan FAULT_MASK_REG) \<and> reads_only es"
  "\<exists>es. digout_on1 (fst (fold (read_field b (chan_reg b chan)) (chan_reads mode dacv sf) (p, s))) = reg_answer b (bus s @ es) (chan_reg b chan DIGOUT_ON1_REG) \<and> reads_only es"
  "\<exists>es. digout_on2 (fst (fold (read_field b (chan_reg b chan)) (chan_reads mode dacv sf) (p, s))) = reg_answer b (bus s @ es) (chan_reg b chan DIGOUT_ON1_REG) \<and> reads_only es"
  "\<exists>es. digout_reset (fst (fold (read_field b (chan_reg b chan)) (chan_reads mode dacv sf) (p, s))) = reg_answer b (bus s @ es) (chan_reg b chan DIGOUT_ON1_REG) \<and> reads_only es"
  "\<exists>es. digout_spare (fst (fold (read_field b (chan_reg b chan)) (chan_reads mode dacv sf) (p, s))) = reg_answer b (bus s @ es) (chan_reg b chan DIGOUT_RESET_REG) \<and> reads_only es"
  "\<exists>es. digout_park (fst (fold (read_field b (chan_reg b chan)) (chan_reads mode dacv sf) (p, s))) = reg_answer b (bus s @ es) (chan_reg b chan DIGOUT_PARK_REG) \<and> reads_only es"
  "\<exists>es. dpid_kp (fst (fold (read_field b (chan_reg b chan)) (chan_reads mode dacv sf) (p, s))) = reg_answer b (bus s @ es) (chan_reg b chan DPID_KP_REG) \<and> reads_only es"
  "\<exists>es. dpid_ki (fst (fold (read_field b (chan_reg b chan)) (chan_reads mode dacv sf) (p, s))) = reg_answer b (bus s @ es) (chan_reg b chan DPID_KI_REG) \<and> reads_only es"
  "\<exists>es. dpid_kd (fst (fold (read_field b (chan_reg b chan)) (chan_reads mode dacv sf) (p, s))) = reg_answer b (bus s @ es) (chan_reg b chan DPID_KD_REG) \<and> reads_only es"
  by (rule fold_read_field_hit [where k = 47] fold_read_field_hit [where k = 48] fold_read_field_hit [where k = 49] fold_read_field_hit [where k = 50]
    fold_read_field_hit [where k = 51] fold_read_field_hit [where k = 52] fold_read_field_hit [where k = 53] fold_read_field_hit [where k = 57]
    fold_read_field_hit [where k = 58] fold_read_field_hit [where k = 59]; simp add: chan_reads_def; fail)+

lemma raw_image_read:
  "raw_image b chan (bus s) (set_scale sf (fst (fold (read_field b (chan_reg b chan)) (chan_reads mode dacv sf) (p, s))))"
  unfolding raw_image_def raw_fields_def
  using raw_reads [of b chan mode dacv sf p s] by (simp add: chan_words_def set_scale_def conj_commute)

lemma raw_image_mono:
  assumes "raw_image b chan (h @ es) p" "reads_only es"
  shows "raw_image b chan h p"
proof -
  have "\<exists>es'. reads_only es' \<and> w = reg_answer b (h @ es') (chan_reg b chan r)"
    if "reads_only es1" "w = reg_answer b ((h @ es) @ es1) (chan_reg b chan r)" for es1 w r
    using that assms(2) by (intro exI [of _ "es @ es1"]) simp
  then show ?thesis using assms(1) unfolding raw_image_def by fastforce
qed

text \<open>The fields in amperes that come from registers in DAC counts.\<close>

definition amps_fields :: "(u32 \<times> nat) list" where
  "amps_fields = [(DAC_CURRSETPT_REG, 24), (DCCT1_OFFSET_REG, 1), (DCCT2_OFFSET_REG, 4), (OVC1_THRESH_REG, 28), (OVC2_THRESH_REG, 29)]"

definition amps_image :: "board \<Rightarrow> u32 \<Rightarrow> f32 \<Rightarrow> ScaleFactorType \<Rightarrow> io list \<Rightarrow> SAdataChan \<Rightarrow> bool" where
  "amps_image b chan dacv sf h p \<longleftrightarrow> (\<forall>(r, k) \<in> set amps_fields. \<exists>es. reads_only es
     \<and> chan_words p ! k = dac_amps dacv (dac_dccts sf) (reg_answer b (h @ es) (chan_reg b chan r)))"

lemma amps_reads:
  "\<exists>es. dac_setpt (fst (fold (read_field b (chan_reg b chan)) (chan_reads mode dacv sf) (p, s))) = dac_amps dacv (dac_dccts sf) (reg_answer b (bus s @ es) (chan_reg b chan DAC_CURRSETPT_REG)) \<and> reads_only es"
  "\<exists>es. dcct1_offset (fst (fold (read_field b (chan_reg b chan)) (chan_reads mode dacv sf) (p, s))) = dac_amps dacv (dac_dccts sf) (reg_answer b (bus s @ es) (chan_reg b chan DCCT1_OFFSET_REG)) \<and> reads_only es"
  "\<exists>es. dcct2_offset (fst (fold (read_field b (chan_reg b chan)) (chan_reads mode dacv sf) (p, s))) = dac_amps dacv (dac_dccts sf) (reg_answer b (bus s @ es) (chan_reg b chan DCCT2_OFFSET_REG)) \<and> reads_only es"
  "\<exists>es. ovc1_thresh (fst (fold (read_field b (chan_reg b chan)) (chan_reads mode dacv sf) (p, s))) = dac_amps dacv (dac_dccts sf) (reg_answer b (bus s @ es) (chan_reg b chan OVC1_THRESH_REG)) \<and> reads_only es"
  "\<exists>es. ovc2_thresh (fst (fold (read_field b (chan_reg b chan)) (chan_reads mode dacv sf) (p, s))) = dac_amps dacv (dac_dccts sf) (reg_answer b (bus s @ es) (chan_reg b chan OVC2_THRESH_REG)) \<and> reads_only es"
  by (rule fold_read_field_hit [where k = 24] fold_read_field_hit [where k = 1] fold_read_field_hit [where k = 4]
    fold_read_field_hit [where k = 29] fold_read_field_hit [where k = 30]; simp add: chan_reads_def; fail)+

lemma amps_image_read:
  "amps_image b chan dacv sf (bus s) (set_scale sf (fst (fold (read_field b (chan_reg b chan)) (chan_reads mode dacv sf) (p, s))))"
  unfolding amps_image_def amps_fields_def
  using amps_reads [of b chan mode dacv sf p s] by (simp add: chan_words_def set_scale_def conj_commute)

lemma amps_image_mono:
  assumes "amps_image b chan dacv sf (h @ es) p" "reads_only es"
  shows "amps_image b chan dacv sf h p"
proof -
  have "\<exists>es'. reads_only es' \<and> w = dac_amps dacv k (reg_answer b (h @ es') (chan_reg b chan r))"
    if "reads_only es1" "w = dac_amps dacv k (reg_answer b ((h @ es) @ es1) (chan_reg b chan r))" for es1 w r k
    using that assms(2) by (intro exI [of _ "es @ es1"]) simp
  then show ?thesis using assms(1) unfolding amps_image_def by fastforce
qed

text \<open>The scale factors of the channel are sent as they are.\<close>

definition scale_image :: "ScaleFactorType \<Rightarrow> SAdataChan \<Rightarrow> bool" where
  "scale_image sf p \<longleftrightarrow> take 7 (drop 56 (chan_words p)) = [ampspersec sf, dac_dccts sf, vout sf, ignd sf,
     ScaleFactorType.spare sf, regulator sf, ScaleFactorType.error sf]"

text \<open>What a client is told of a channel that was read after \<open>h\<close>.\<close>

definition chan_image :: "board \<Rightarrow> u32 \<Rightarrow> f32 \<Rightarrow> ScaleFactorType \<Rightarrow> io list \<Rightarrow> SAdataChan \<Rightarrow> bool" where
  "chan_image b chan dacv sf h p \<longleftrightarrow> raw_image b chan h p \<and> amps_image b chan dacv sf h p \<and> scale_image sf p"

lemma chan_image_mono: "chan_image b chan dacv sf (h @ es) p \<Longrightarrow> reads_only es \<Longrightarrow> chan_image b chan dacv sf h p"
  using raw_image_mono amps_image_mono unfolding chan_image_def by blast

lemma read_chan_Ret:
  assumes "sf_at chan s = Ret sf"
  shows "\<exists>p s'. read_chan b chan (pss, s) = Ret (pss[unat (chan - 1) := p], s') \<and> chan_image b chan (CONVDACBITSTOVOLTS s) sf (bus s) p
    \<and> scalefactors s' = scalefactors s \<and> CONVDACBITSTOVOLTS s' = CONVDACBITSTOVOLTS s \<and> (\<exists>es. bus s' = bus s @ es \<and> reads_only es)"
proof -
  let ?a = "chan_reg b chan AVEMODE_REG"
  let ?s1 = "s\<lparr>bus := bus s @ [Rd ?a]\<rparr>"
  let ?mode = "reg_answer b (bus s) ?a"
  let ?r = "fold (read_field b (chan_reg b chan)) (chan_reads ?mode (CONVDACBITSTOVOLTS s) sf) (pss ! unat (chan - 1), ?s1)"
  have sf1: "sf_at chan ?s1 = Ret sf" using assms by (simp add: sf_at_Ret)
  have "read_chan b chan (pss, s) = Ret (pss[unat (chan - 1) := set_scale sf (fst ?r)], snd ?r)"
    by (simp add: read_chan_def Xil_In32_def sf1 split_beta)
  moreover have "chan_image b chan (CONVDACBITSTOVOLTS s) sf (bus s @ [Rd ?a]) (set_scale sf (fst ?r))"
    using raw_image_read [of b chan ?s1 sf ?mode "CONVDACBITSTOVOLTS s" "pss ! unat (chan - 1)"]
      amps_image_read [of b chan "CONVDACBITSTOVOLTS s" sf ?s1 ?mode "pss ! unat (chan - 1)"]
    by (simp add: chan_image_def scale_image_def chan_words_def set_scale_def)
  then have "chan_image b chan (CONVDACBITSTOVOLTS s) sf (bus s) (set_scale sf (fst ?r))" by (rule chan_image_mono) simp
  moreover have "snd ?r = s\<lparr>bus := bus s @ Rd ?a # map (\<lambda>rf. Rd (chan_reg b chan (fst rf))) (chan_reads ?mode (CONVDACBITSTOVOLTS s) sf)\<rparr>"
    by (simp add: fold_read_field_state)
  ultimately show ?thesis by (intro exI conjI) (assumption | force)+
qed

text \<open>All four channels are read, each into its own entry.\<close>

lemma read_chans_Ret:
  assumes "length (scalefactors s) = 4" "length pss = 4"
  shows "\<exists>pss' s'. run_fold (read_chan b) [1, 2, 3, 4] (pss, s) = Ret (pss', s') \<and> length pss' = 4
    \<and> (\<forall>c \<in> {1, 2, 3, 4}. chan_image b c (CONVDACBITSTOVOLTS s) (scalefactors s ! unat (c - 1)) (bus s) (pss' ! unat (c - 1)))
    \<and> scalefactors s' = scalefactors s \<and> (\<exists>es. bus s' = bus s @ es \<and> reads_only es)"
proof -
  let ?k = "CONVDACBITSTOVOLTS s" and ?sf = "\<lambda>i. scalefactors s ! i"
  have one: "\<exists>p s' e. read_chan b c (q, t) = Ret (q[i := p], s') \<and> chan_image b c ?k (?sf i) (bus s) p
      \<and> scalefactors s' = scalefactors s \<and> CONVDACBITSTOVOLTS s' = ?k \<and> bus s' = bus s @ e \<and> reads_only e"
    if "scalefactors t = scalefactors s" "CONVDACBITSTOVOLTS t = ?k" "bus t = bus s @ e0" "reads_only e0" "unat (c - 1) = i" "i < 4" for c i q t e0
  proof -
    note t = that
    have "sf_at c t = Ret (?sf i)" using assms(1) t by (simp add: sf_at_Ret)
    from read_chan_Ret [OF this, of b q] obtain p s' e where "read_chan b c (q, t) = Ret (q[i := p], s')"
      "chan_image b c ?k (?sf i) (bus s @ e0) p" "scalefactors s' = scalefactors s" "CONVDACBITSTOVOLTS s' = ?k" "bus s' = (bus s @ e0) @ e" "reads_only e"
      unfolding t(1-3,5) by blast
    with chan_image_mono [of b c ?k "?sf i" "bus s" e0 p] t(4) show ?thesis
      by (intro exI [of _ p] exI [of _ s'] exI [of _ "e0 @ e"]) simp
  qed
  obtain p1 s1 e1 where 1: "read_chan b 1 (pss, s) = Ret (pss[0 := p1], s1)" "chan_image b 1 ?k (?sf 0) (bus s) p1"
    "scalefactors s1 = scalefactors s" "CONVDACBITSTOVOLTS s1 = ?k" "bus s1 = bus s @ e1" "reads_only e1"
    using one [of s "[]" 1 0 pss] by auto
  obtain p2 s2 e2 where 2: "read_chan b 2 (pss[0 := p1], s1) = Ret (pss[0 := p1, 1 := p2], s2)" "chan_image b 2 ?k (?sf 1) (bus s) p2"
    "scalefactors s2 = scalefactors s" "CONVDACBITSTOVOLTS s2 = ?k" "bus s2 = bus s @ e2" "reads_only e2"
    using one [OF 1(3-6), of 2 1 "pss[0 := p1]"] by auto
  obtain p3 s3 e3 where 3: "read_chan b 3 (pss[0 := p1, 1 := p2], s2) = Ret (pss[0 := p1, 1 := p2, 2 := p3], s3)" "chan_image b 3 ?k (?sf 2) (bus s) p3"
    "scalefactors s3 = scalefactors s" "CONVDACBITSTOVOLTS s3 = ?k" "bus s3 = bus s @ e3" "reads_only e3"
    using one [OF 2(3-6), of 3 2 "pss[0 := p1, 1 := p2]"] by auto
  obtain p4 s4 e4 where 4: "read_chan b 4 (pss[0 := p1, 1 := p2, 2 := p3], s3) = Ret (pss[0 := p1, 1 := p2, 2 := p3, 3 := p4], s4)"
    "chan_image b 4 ?k (?sf 3) (bus s) p4" "scalefactors s4 = scalefactors s" "bus s4 = bus s @ e4" "reads_only e4"
    using one [OF 3(3-6), of 4 3 "pss[0 := p1, 1 := p2, 2 := p3]"] by auto
  have "run_fold (read_chan b) [1, 2, 3, 4] (pss, s) = Ret (pss[0 := p1, 1 := p2, 2 := p3, 3 := p4], s4)"
    by (simp only: run_fold.simps 1(1) 2(1) 3(1) 4(1) run_bind_simps)
  then show ?thesis using 1(2) 2(2) 3(2) 4(2-5) assms(2) by auto
qed

section \<open>What a turn sends\<close>

text \<open>The shape of the state of the task.\<close>

definition sadata_ok :: "u8 list \<Rightarrow> SAdataMsg \<Rightarrow> psc \<Rightarrow> bool" where
  "sadata_ok msg m s \<longleftrightarrow> length msg = 1400 \<and> length (rsvd m) = 15 \<and> length (ps m) = 4 \<and> length (scalefactors s) = 4"

lemma length_concat_75: "length pss = n \<Longrightarrow> length (concat (map chan_words pss)) = 75 * n"
  by (induction pss arbitrary: n) auto

lemma nth_concat_75: "i < length pss \<Longrightarrow> k < 75 \<Longrightarrow> concat (map chan_words pss) ! (75 * i + k) = chan_words (pss ! i) ! k"
proof (induction pss arbitrary: i)
  case (Cons p pss)
  then show ?case by (cases i) (auto simp: nth_append)
qed simp

lemma sadata_words_shape:
  assumes "length (rsvd m) = 15" "length (ps m) = 4"
  shows "length (sadata_words m) = 325"
    and "i < 4 \<Longrightarrow> k < 75 \<Longrightarrow> sadata_words m ! (25 + 75 * i + k) = chan_words (ps m ! i) ! k"
proof -
  show "length (sadata_words m) = 325" using assms by (simp add: sadata_words_def length_concat_75)
  let ?h = "[numchans m, evr_ts_ns m, evr_ts_s m, resolution m, git_shasum m, die_temp m, vccint m, vccaux m, bandwidth m, polarity m] @ rsvd m"
  have h: "length ?h = 25" "sadata_words m = ?h @ concat (map chan_words (ps m))" using assms by (simp_all add: sadata_words_def)
  have "(?h @ concat (map chan_words (ps m))) ! (25 + (75 * i + k)) = concat (map chan_words (ps m)) ! (75 * i + k)"
    using h(1) by (metis nth_append_length_plus)
  then show "i < 4 \<Longrightarrow> k < 75 \<Longrightarrow> sadata_words m ! (25 + 75 * i + k) = chan_words (ps m ! i) ! k"
    using assms(2) by (simp only: h(2) nth_concat_75 add.assoc)
qed

text \<open>
  A turn from such a state returns in such a state, and the message is the structure in network
  order.
\<close>

lemma sadata_turn_Ret:
  assumes "sadata_ok msg m s"
  shows "\<exists>msg' m' s' es. sadata_turn n b (msg, m, s, net) = Ret (msg', m', s', psc_send n 31 msg' net) \<and> sadata_ok msg' m' s'
    \<and> msg' = concat (map be32 (sadata_words m')) @ drop 1300 msg
    \<and> bus s' = bus s @ [Wr (glob_reg b TENHZ_DATASEND_REG) 1, Wr (glob_reg b TENHZ_DATASEND_REG) 0] @ es \<and> reads_only es
    \<and> (\<forall>c \<in> {1, 2, 3, 4}. chan_image b c (CONVDACBITSTOVOLTS s) (scalefactors s ! unat (c - 1))
         (bus s @ [Wr (glob_reg b TENHZ_DATASEND_REG) 1, Wr (glob_reg b TENHZ_DATASEND_REG) 0]) (ps m' ! unat (c - 1)))"
proof -
  let ?led = "[Wr (glob_reg b TENHZ_DATASEND_REG) 1, Wr (glob_reg b TENHZ_DATASEND_REG) 0]"
  let ?es = "map (\<lambda>r. Rd (glob_reg b r)) [RESOLUTION_REG, NUMCHANS_REG, POLARITY_REG, BANDWIDTH_REG, PRJ_SHASUM, EVR_TS_S_REG, EVR_TS_NS_REG]"
  have len: "length (scalefactors s) = 4" "length (ps m) = 4" "length (rsvd m) = 15" "length msg = 1400"
    using assms by (simp_all add: sadata_ok_def)
  let ?s = "s\<lparr>bus := bus s @ ?led @ ?es\<rparr>"
  obtain pss s2 e2 where 2: "run_fold (read_chan b) [1, 2, 3, 4] (ps m, ?s) = Ret (pss, s2)" "length pss = 4"
    "\<forall>c \<in> {1, 2, 3, 4}. chan_image b c (CONVDACBITSTOVOLTS ?s) (scalefactors ?s ! unat (c - 1)) (bus ?s) (pss ! unat (c - 1))"
    "scalefactors s2 = scalefactors ?s" "bus s2 = bus ?s @ e2" "reads_only e2"
    using read_chans_Ret [of ?s "ps m" b] len by auto
  obtain m1 s1 where h: "fold (read_field b (glob_reg b)) header_reads (m, s\<lparr>bus := bus s @ ?led\<rparr>) = (m1, s1)"
    by (cases "fold (read_field b (glob_reg b)) header_reads (m, s\<lparr>bus := bus s @ ?led\<rparr>)")
  have s1: "s1 = ?s"
    using fold_read_field_state [of b "glob_reg b" header_reads m "s\<lparr>bus := bus s @ ?led\<rparr>"] h by (simp add: header_reads_def)
  have "\<forall>rf \<in> set header_reads. \<forall>w p. rsvd (snd rf w p) = rsvd p" "\<forall>rf \<in> set header_reads. \<forall>w p. ps (snd rf w p) = ps p"
    by (simp_all add: header_reads_def)
  then have m1: "rsvd m1 = rsvd m" "ps m1 = ps m"
    using h by (metis fold_read_field_keep fst_conv)+
  have "Xil_Out32 (glob_reg b TENHZ_DATASEND_REG) 0 (Xil_Out32 (glob_reg b TENHZ_DATASEND_REG) 1 s) = s\<lparr>bus := bus s @ ?led\<rparr>"
    by (simp add: Xil_Out32_def)
  then have t: "sadata_turn n b (msg, m, s, net) =
      run_bind (run_fold (read_chan b) [1, 2, 3, 4] (ps m, ?s)) (\<lambda>(pss, s).
             let m = m1\<lparr>ps := pss\<rparr>
             in run_bind (hton_conv (store (mem_words (sadata_words m)) msg) (4 * length (sadata_words m))) (\<lambda>msg.
                  Ret (msg, m, s, psc_send n 31 msg net)))"
    unfolding sadata_turn_def by (simp only: prod.case Let_def h s1 m1(2))
  let ?m = "m1\<lparr>ps := pss\<rparr>"
  let ?msg = "concat (map be32 (sadata_words ?m)) @ drop 1300 msg"
  have l: "length (sadata_words ?m) = 325" using m1 len 2(2) by (intro sadata_words_shape) simp_all
  then have "hton_conv (store (mem_words (sadata_words ?m)) msg) (4 * length (sadata_words ?m)) = Ret ?msg"
    using hton_conv_words [of "sadata_words ?m" "drop 1300 msg"] by (simp add: store_def)
  then have "sadata_turn n b (msg, m, s, net) = Ret (?msg, ?m, s2, psc_send n 31 ?msg net)"
    unfolding t 2(1) by (simp only: run_bind_simps prod.case Let_def)
  moreover have "sadata_ok ?msg ?m s2" using m1 len l 2(2,4) by (simp add: sadata_ok_def be32.length_concat_enc)
  moreover have "bus s2 = bus s @ ?led @ (?es @ e2)" "reads_only (?es @ e2)" using 2(5,6) by auto
  moreover have "\<forall>c \<in> {1, 2, 3, 4}. chan_image b c (CONVDACBITSTOVOLTS s) (scalefactors s ! unat (c - 1)) (bus s @ ?led) (ps ?m ! unat (c - 1))"
    using 2(3) chan_image_mono [of b _ _ _ "bus s @ ?led" ?es] by auto
  ultimately show ?thesis by blast
qed

text \<open>What a client reads at position \<open>k\<close> of channel \<open>c\<close>: the offsets of sadata.h.\<close>

definition client_word :: "u32 \<Rightarrow> nat \<Rightarrow> u8 list \<Rightarrow> u32" where
  "client_word c k msg = of_be32 (take 4 (drop (100 + 300 * unat (c - 1) + 4 * k) msg))"

lemma client_word_sent:
  assumes "sadata_ok msg m s" "c \<in> {1, 2, 3, 4}" "k < 75"
  shows "client_word c k (concat (map be32 (sadata_words m)) @ rest) = chan_words (ps m ! unat (c - 1)) ! k"
proof -
  let ?i = "25 + 75 * unat (c - 1) + k"
  have l: "length (rsvd m) = 15" "length (ps m) = 4" using assms(1) by (simp_all add: sadata_ok_def)
  have c: "unat (c - 1) < 4" using assms(2) by auto
  have i: "?i < length (sadata_words m)" using sadata_words_shape(1) [OF l] c assms(3) by simp
  have a: "100 + 300 * unat (c - 1) + 4 * k = 4 * ?i" by simp
  have "4 * ?i + 4 \<le> length (concat (map be32 (sadata_words m)))" using i by (simp add: be32.length_concat_enc)
  then have "take 4 (drop (4 * ?i) (concat (map be32 (sadata_words m)) @ rest)) = take 4 (drop (4 * ?i) (concat (map be32 (sadata_words m))))"
    by simp
  then show ?thesis
    unfolding client_word_def a using be32.nth_concat_enc [OF i] sadata_words_shape(2) [OF l c assms(3)] by (simp only:)
qed

end
