(* ===== verification/Monitor.thy ===== *)
theory Monitor
  imports Readback App_Main
begin

text \<open>
  The readback together with the settings: what a client is told about what clients have set.
\<close>

section \<open>Registers that keep what is written\<close>

text \<open>
  The number of bits of the registers of a channel in the gateware (the fields of pl_regs.rdl), by their
  offset in pl_regs.h. Bits beyond are not stored and read as zero.
\<close>

definition reg_width :: "u32 \<Rightarrow> nat" where
  "reg_width r =
     (if r \<in> {0x34, 0x44, 0x48, FAULT_CLEAR_REG, DIGOUT_ON1_REG, DIGOUT_ON2_REG, DIGOUT_RESET_REG, DIGOUT_SPARE_REG,
         DIGOUT_PARK_REG, 0x14C, 0x150, 0x158} then 1
      else if r \<in> {DAC_OPMODE_REG, AVEMODE_REG} then 2
      else if r = 0xF4 then 5
      else if r = 0x30 then 8
      else if r \<in> {0x38, 0x3C, 0x98, 0x9C, 0xA0, 0xA4, 0xA8, 0xAC, 0xB0, 0xB4, 0xB8, 0xBC, 0xC0, 0xC4, 0xC8, 0xCC, 0xD0,
         FAULT_MASK_REG, 0xDC, 0xF8, 0xFC} then 16
      else if r \<in> {DAC_SETPT_REG, 0x40, OVC1_THRESH_REG, OVC2_THRESH_REG} then 20
      else 32)"

text \<open>A register of \<open>k\<close> bits that the gateware only reads: it answers with the last value written, as far as it fits.\<close>

definition keeps :: "board \<Rightarrow> u32 \<Rightarrow> nat \<Rightarrow> bool" where
  "keeps b a k \<longleftrightarrow> (\<forall>h v es. (\<forall>w. Wr a w \<notin> set es) \<longrightarrow> reg_answer b (h @ Wr a v # es) a = take_bit k v)"

lemma keepsD: "keeps b a k \<Longrightarrow> (\<And>w. Wr a w \<notin> set es) \<Longrightarrow> reg_answer b (h @ Wr a v # es) a = take_bit k v"
  unfolding keeps_def by blast

text \<open>
  The settings that are stored as they come and reported as they are read: id, register and
  position in the structure of the channel.
\<close>

definition raw_settings :: "(u32 \<times> u32 \<times> nat) list" where
  "raw_settings = [(FAULT_CLEAR_MSG, FAULT_CLEAR_REG, 46), (FAULT_MASK_MSG, FAULT_MASK_REG, 47), (DIGOUT_ON1_MSG, DIGOUT_ON1_REG, 48),
     (DIGOUT_PARK_MSG, DIGOUT_PARK_REG, 52), (KP_MSG, DPID_KP_REG, 64), (KI_MSG, DPID_KI_REG, 65), (KD_MSG, DPID_KD_REG, 66)]"

lemma raw_settings_fields: "(mid, r, k) \<in> set raw_settings \<Longrightarrow> (r, k) \<in> set raw_fields \<and> k < 75 \<and> r < CHBASEADDR"
  by (auto simp: raw_settings_def raw_fields_def)

lemma chan_set_raw:
  "chan_set b h0 stack chan FAULT_CLEAR_MSG u s = chan_out b chan FAULT_CLEAR_REG u s"
  "chan_set b h0 stack chan FAULT_MASK_MSG u s = chan_out b chan FAULT_MASK_REG u s"
  "chan_set b h0 stack chan DIGOUT_ON1_MSG u s = chan_out b chan DIGOUT_ON1_REG u s"
  "chan_set b h0 stack chan DIGOUT_ON2_MSG u s = chan_out b chan DIGOUT_ON2_REG u s"
  "chan_set b h0 stack chan DIGOUT_PARK_MSG u s = chan_out b chan DIGOUT_PARK_REG u s"
  "chan_set b h0 stack chan KP_MSG u s = set_pid b chan DPID_KP_REG u s"
  "chan_set b h0 stack chan KI_MSG u s = set_pid b chan DPID_KI_REG u s"
  "chan_set b h0 stack chan KD_MSG u s = set_pid b chan DPID_KD_REG u s"
  by (simp_all add: chan_set_def chan_set_dac_adc_def chan_set_limits_def chan_set_misc_def)

lemma raw_set_ops:
  "\<exists>es. reads_only es \<and> chan_out b chan r u s = Ret (s\<lparr>bus := bus s @ Wr (chan_reg b chan r) u # es\<rparr>)"
  "\<exists>es. reads_only es \<and> set_pid b chan r u s = Ret (s\<lparr>bus := bus s @ Wr (chan_reg b chan r) u # es\<rparr>)"
  by (intro exI [of _ "[]"] exI [of _ "[Rd (chan_reg b chan r)]"]; simp add: chan_out_def set_pid_def Xil_Out32_def Xil_In32_def)+

definition stores :: "board \<Rightarrow> u32 \<Rightarrow> u32 \<Rightarrow> bool" where
  "stores b mid r \<longleftrightarrow> (\<forall>h0 stack chan u s. chan_set b h0 stack chan mid u s \<in> {chan_out b chan r u s, set_pid b chan r u s})"

lemma raw_settings_store: "(mid, r, k) \<in> set raw_settings \<Longrightarrow> stores b mid r"
  unfolding raw_settings_def stores_def by (auto simp only: list.set insert_iff empty_iff prod.inject chan_set_raw)

text \<open>A message for a channel: two blinks of the access LED, then the setting.\<close>

abbreviation led_on_off :: "board \<Rightarrow> io list" where
  "led_on_off b \<equiv> [Wr (glob_reg b IOC_ACCESS_REG) 1, Wr (glob_reg b IOC_ACCESS_REG) 0]"

lemma client_msg_chan:
  assumes "c \<in> {1, 2, 3, 4}"
  shows "client_msg b junk c len (be32 mid @ be32 u @ rest) s =
    (let s = s\<lparr>bus := bus s @ led_on_off b\<rparr> in chan_set b (fst (junk s)) (snd (junk s)) (ucast c) mid u s)"
proof -
  let ?s = "s\<lparr>bus := bus s @ led_on_off b\<rparr>"
  have "ld32 (be32 mid @ be32 u @ rest) 0 = Ret (of_le32 (be32 mid))" "ld32 (be32 mid @ be32 u @ rest) 1 = Ret (of_le32 (be32 u))"
    by (simp_all add: ld32_def be32.length_enc)
  then have "chan_settings b h0 stack (ucast c) (be32 mid @ be32 u @ rest) ?s = chan_set b h0 stack (ucast c) mid u ?s" for h0 stack
    by (simp add: chan_settings_def htonl_of_le32 be32.dec_enc)
  moreover have led: "Xil_Out32 (glob_reg b IOC_ACCESS_REG) 0 (Xil_Out32 (glob_reg b IOC_ACCESS_REG) 1 s) = ?s"
    by (simp add: Xil_Out32_def)
  moreover have "c \<noteq> 0" "c = 1 \<or> c = 2 \<or> c = 3 \<or> c = 4" using assms by auto
  ultimately show ?thesis by (simp only: client_msg_def Let_def led if_True if_False case_prod_unfold)
qed

lemma client_msg_raw:
  assumes "stores b mid r" "c \<in> {1, 2, 3, 4}"
  shows "\<exists>es. reads_only es \<and> client_msg b junk c len (be32 mid @ be32 u @ rest) s =
    Ret (s\<lparr>bus := (bus s @ led_on_off b) @ Wr (chan_reg b (ucast c) r) u # es\<rparr>)"
proof -
  let ?s = "s\<lparr>bus := bus s @ led_on_off b\<rparr>"
  obtain es where "reads_only es" "chan_set b (fst (junk ?s)) (snd (junk ?s)) (ucast c) mid u ?s =
      Ret (?s\<lparr>bus := bus ?s @ Wr (chan_reg b (ucast c) r) u # es\<rparr>)"
    using assms(1) raw_set_ops [of b "ucast c" r u ?s] unfolding stores_def by (metis (no_types, lifting) insertE singletonD)
  then show ?thesis unfolding client_msg_chan [OF assms(2)] Let_def by (intro exI [of _ es]) simp
qed

lemma led_elsewhere: "r < CHBASEADDR \<Longrightarrow> c \<in> {1, 2, 3, 4 :: u32} \<Longrightarrow> chan_reg b c r \<noteq> glob_reg b TENHZ_DATASEND_REG"
  using chan_reg_eq_iff [of c 0 r TENHZ_DATASEND_REG b] by (auto simp: chan_reg_def glob_reg_def)

text \<open>The value a register was last given is what the next message of the readback says.\<close>

lemma read_back:
  assumes "r < CHBASEADDR" "c \<in> {1, 2, 3, 4}" "keeps b (chan_reg b c r) w" "sadata_ok msg m s"
    and "bus s = h @ Wr (chan_reg b c r) u # es" "\<And>w. Wr (chan_reg b c r) w \<notin> set es"
  shows "\<exists>msg' m' s'. sadata_turn n b (msg, m, s, net) = Ret (msg', m', s', psc_send n 31 msg' net)
    \<and> (\<forall>(q, k) \<in> set raw_fields. q = r \<longrightarrow> client_word c k msg' = take_bit w u)"
proof -
  let ?led = "[Wr (glob_reg b TENHZ_DATASEND_REG) 1, Wr (glob_reg b TENHZ_DATASEND_REG) 0]"
  obtain msg' m' s' where t: "sadata_turn n b (msg, m, s, net) = Ret (msg', m', s', psc_send n 31 msg' net)" "sadata_ok msg' m' s'"
    "msg' = concat (map be32 (sadata_words m')) @ drop 1300 msg"
    "raw_image b c (bus s @ ?led) (ps m' ! unat (c - 1))"
    using sadata_turn_Ret [OF assms(4), of n b net] assms(2) unfolding chan_image_def by blast
  have "client_word c k msg' = take_bit w u" if k: "(r, k) \<in> set raw_fields" for k
  proof -
    obtain es2 where es2: "reads_only es2" "chan_words (ps m' ! unat (c - 1)) ! k = reg_answer b ((bus s @ ?led) @ es2) (chan_reg b c r)"
      using t(4) k by (auto simp: raw_image_def)
    have "Wr (chan_reg b c r) v \<notin> set (es @ ?led @ es2)" for v
      using assms(6) es2(1) led_elsewhere [OF assms(1,2)] by auto
    from keepsD [OF assms(3) this, of h u] have "chan_words (ps m' ! unat (c - 1)) ! k = take_bit w u"
      using es2(2) assms(5) by simp
    moreover have "k < 75" using k by (auto simp: raw_fields_def)
    ultimately show ?thesis using client_word_sent [OF t(2) assms(2)] t(3) by simp
  qed
  then show ?thesis using t(1) by auto
qed

section \<open>Properties\<close>

text \<open>
  C14. The readback is well formed and goes on: a turn from a state of the right shape returns in
  one of that shape and broadcasts one message of 1400 bytes with id 31, which is the structure
  of sadata.h in network order, followed by the 100 bytes of the buffer that nothing writes.
\<close>

theorem sadata_turn_message:
  assumes "sadata_ok msg m s"
  shows "\<exists>msg' m' s'. sadata_turn n b (msg, m, s, net) = Ret (msg', m', s', psc_send n 31 msg' net) \<and> sadata_ok msg' m' s'
    \<and> length msg' = 1400 \<and> msg' = concat (map be32 (sadata_words m')) @ drop 1300 msg"
proof -
  obtain msg' m' s' where t: "sadata_turn n b (msg, m, s, net) = Ret (msg', m', s', psc_send n 31 msg' net)" "sadata_ok msg' m' s'"
    "msg' = concat (map be32 (sadata_words m')) @ drop 1300 msg"
    using sadata_turn_Ret [OF assms, of n b net] by blast
  moreover have "length msg' = 1400" using t(2) by (simp only: sadata_ok_def)
  ultimately show ?thesis by blast
qed

definition blank_chan :: SAdataChan where
  "blank_chan =
     \<lparr>dcct1 = 0, dcct1_offset = 0, dcct1_gain = 0, dcct2 = 0, dcct2_offset = 0, dcct2_gain = 0,
      dacmon = 0, dacmon_offset = 0, dacmon_gain = 0, volt = 0, volt_offset = 0, volt_gain = 0,
      gnd = 0, gnd_offset = 0, gnd_gain = 0, spare = 0, spare_offset = 0, spare_gain = 0, reg = 0,
      reg_offset = 0, reg_gain = 0, error = 0, error_offset = 0, error_gain = 0, dac_setpt = 0,
      dac_setpt_offset = 0, dac_setpt_gain = 0, dac_rampactive = 0, ovc1_thresh = 0,
      ovc2_thresh = 0, ovv_thresh = 0, err1_thresh = 0, err2_thresh = 0, ignd_thresh = 0,
      ovc1_cntlim = 0, ovc2_cntlim = 0, ovv_cntlim = 0, err1_cntlim = 0, err2_cntlim = 0,
      ignd_cntlim = 0, dcct_cntlim = 0, flt1_cntlim = 0, flt2_cntlim = 0, flt3_cntlim = 0,
      on_cntlim = 0, heartbeat_cntlim = 0, fault_clear = 0, fault_mask = 0, digout_on1 = 0,
      digout_on2 = 0, digout_reset = 0, digout_spare = 0, digout_park = 0, digin = 0,
      faults_live = 0, faults_latched = 0, sf_ampspersec = 0, sf_dac_dccts = 0, sf_vout = 0,
      sf_ignd = 0, sf_spare = 0, sf_regulator = 0, sf_error = 0, dac_setpt_raw = 0, dpid_kp = 0,
      dpid_ki = 0, dpid_kd = 0, dpid_setptin = 0, dpid_fdbk = 0, dpid_error = 0, dpid_pterm = 0,
      dpid_iterm = 0, dpid_dterm = 0, dpid_sumterm = 0, dpid_setptout = 0\<rparr>"

definition blank_sadata :: SAdataMsg where
  "blank_sadata = \<lparr>numchans = 0, evr_ts_ns = 0, evr_ts_s = 0, resolution = 0, git_shasum = 0, die_temp = 0, vccint = 0, vccaux = 0,
     bandwidth = 0, polarity = 0, rsvd = replicate 15 0, ps = replicate 4 blank_chan\<rparr>"

lemma blank_ok: "sadata_ok (replicate 1400 0) blank_sadata (unit_psc\<lparr>bus := h\<rparr>)"
  by (simp add: sadata_ok_def blank_sadata_def unit_psc_def)

theorem sadata_turn_message_witness:
  "\<exists>msg' m' s'. sadata_turn (log_net {6}) quiet_board (replicate 1400 0, blank_sadata, unit_psc\<lparr>bus := []\<rparr>, (Some two_clients, \<lambda>_. [])) =
      Ret (msg', m', s', psc_send (log_net {6}) 31 msg' (Some two_clients, \<lambda>_. [])) \<and> sadata_ok msg' m' s'
    \<and> length msg' = 1400 \<and> msg' = concat (map be32 (sadata_words m')) @ drop 1300 (replicate 1400 0)"
  by (rule sadata_turn_message [OF blank_ok])

text \<open>
  C15. The readback leaves the board alone: the only writes of a turn are the two to the register of
  the activity LED; everything else it does is reading.
\<close>

theorem sadata_only_reads:
  assumes "sadata_ok msg m s" "sadata_turn n b (msg, m, s, net) = Ret (msg', m', s', net')"
  shows "\<exists>es. bus s' = bus s @ [Wr (glob_reg b TENHZ_DATASEND_REG) 1, Wr (glob_reg b TENHZ_DATASEND_REG) 0] @ es \<and> set es \<subseteq> range Rd"
  using sadata_turn_Ret [OF assms(1), of n b net] assms(2) by auto

theorem sadata_only_reads_witness:
  "\<exists>msg' m' s' net' es. sadata_turn (log_net {6}) quiet_board (replicate 1400 0, blank_sadata, unit_psc\<lparr>bus := [Rd 7]\<rparr>, (Some two_clients, \<lambda>_. [])) =
      Ret (msg', m', s', net')
    \<and> bus s' = [Rd 7] @ [Wr (glob_reg quiet_board TENHZ_DATASEND_REG) 1, Wr (glob_reg quiet_board TENHZ_DATASEND_REG) 0] @ es \<and> set es \<subseteq> range Rd"
proof -
  obtain msg' m' s' net' where t: "sadata_turn (log_net {6}) quiet_board
      (replicate 1400 0, blank_sadata, unit_psc\<lparr>bus := [Rd 7]\<rparr>, (Some two_clients, \<lambda>_. [])) = Ret (msg', m', s', net')"
    using sadata_turn_Ret [OF blank_ok [of "[Rd 7]"], of "log_net {6}" quiet_board "(Some two_clients, \<lambda>_. [])"] by blast
  from sadata_only_reads [OF blank_ok t] t show ?thesis by auto
qed


text \<open>A board whose registers are memory, of the widths of pl_regs.rdl: 0x10005 is cut to 16 bits.\<close>

definition last_val :: "io list \<Rightarrow> u32 \<Rightarrow> u32" where
  "last_val h a = fold (\<lambda>e v. case e of Wr a' w \<Rightarrow> if a' = a then w else v | _ \<Rightarrow> v) h 0"

definition mem_board :: board where
  "mem_board = \<lparr>axi_base = 0x43C00000, reg_answer = (\<lambda>h a. take_bit (reg_width ((a - 0x43C00000) AND 0x1FF)) (last_val h a)),
     spi_answer = (\<lambda>_. [])\<rparr>"

lemma last_val_kept: "(\<forall>w. Wr a w \<notin> set es) \<Longrightarrow> last_val (h @ Wr a v # es) a = v"
proof -
  have "(\<forall>w. Wr a w \<notin> set es) \<Longrightarrow> fold (\<lambda>e v. case e of Wr a' w \<Rightarrow> if a' = a then w else v | _ \<Rightarrow> v) es v = v" for es v
    by (induction es arbitrary: v) (auto split: io.splits)
  then show "(\<forall>w. Wr a w \<notin> set es) \<Longrightarrow> last_val (h @ Wr a v # es) a = v" by (simp add: last_val_def)
qed

lemma mem_board_keeps: "(a - 0x43C00000) AND 0x1FF = r \<Longrightarrow> keeps mem_board a (reg_width r)"
  by (auto simp: keeps_def mem_board_def last_val_kept)


text \<open>
  The digital outputs are misreported: after a client has set output 1 and then output 2 of a
  channel, the readback gives the value of output 1 for output 2, and also for the reset output.
\<close>

theorem digout_misreported:
  assumes "c \<in> {1, 2, 3, 4}" "keeps b (chan_reg b (ucast c) DIGOUT_ON1_REG) 1"
    and "client_msg b junk c len (be32 DIGOUT_ON1_MSG @ be32 u1 @ rest1) s = Ret s1"
    and "client_msg b junk c len (be32 DIGOUT_ON2_MSG @ be32 u2 @ rest2) s1 = Ret s2" "sadata_ok msg m s2"
  shows "\<exists>msg' m' s'. sadata_turn n b (msg, m, s2, net) = Ret (msg', m', s', psc_send n 31 msg' net)
    \<and> client_word (ucast c) 49 msg' = take_bit 1 u1 \<and> client_word (ucast c) 50 msg' = take_bit 1 u1"
proof -
  let ?led = "[Wr (glob_reg b IOC_ACCESS_REG) 1, Wr (glob_reg b IOC_ACCESS_REG) 0]"
  have st: "stores b DIGOUT_ON1_MSG DIGOUT_ON1_REG" "stores b DIGOUT_ON2_MSG DIGOUT_ON2_REG"
    by (simp_all add: stores_def chan_set_raw)
  have c: "ucast c \<in> {1, 2, 3, 4 :: u32}" using assms(1) by auto
  obtain es1 where es1: "reads_only es1" "s1 = s\<lparr>bus := (bus s @ ?led) @ Wr (chan_reg b (ucast c) DIGOUT_ON1_REG) u1 # es1\<rparr>"
    using client_msg_raw [OF st(1) assms(1), of junk len u1 rest1 s] assms(3) by auto
  obtain es2 where es2: "reads_only es2" "s2 = s1\<lparr>bus := (bus s1 @ ?led) @ Wr (chan_reg b (ucast c) DIGOUT_ON2_REG) u2 # es2\<rparr>"
    using client_msg_raw [OF st(2) assms(1), of junk len u2 rest2 s1] assms(4) by auto
  let ?es = "es1 @ ?led @ Wr (chan_reg b (ucast c) DIGOUT_ON2_REG) u2 # es2"
  have "chan_reg b (ucast c) DIGOUT_ON1_REG \<noteq> chan_reg b (ucast c) DIGOUT_ON2_REG"
    using c by (subst chan_reg_eq_iff) auto
  moreover have "chan_reg b (ucast c) DIGOUT_ON1_REG \<noteq> glob_reg b IOC_ACCESS_REG"
    using chan_reg_eq_iff [of "ucast c" 0 DIGOUT_ON1_REG IOC_ACCESS_REG b] c by (auto simp: chan_reg_def glob_reg_def)
  ultimately have "Wr (chan_reg b (ucast c) DIGOUT_ON1_REG) w \<notin> set ?es" for w using es1(1) es2(1) by auto
  moreover have "bus s2 = (bus s @ ?led) @ Wr (chan_reg b (ucast c) DIGOUT_ON1_REG) u1 # ?es" using es1(2) es2(2) by simp
  moreover have "DIGOUT_ON1_REG < (CHBASEADDR :: u32)" by simp
  ultimately obtain msg' m' s' where r: "sadata_turn n b (msg, m, s2, net) = Ret (msg', m', s', psc_send n 31 msg' net)"
      "\<forall>(q, k) \<in> set raw_fields. q = DIGOUT_ON1_REG \<longrightarrow> client_word (ucast c) k msg' = take_bit 1 u1"
    using read_back [OF _ c assms(2,5)] by blast
  have "client_word (ucast c) k msg' = take_bit 1 u1" if "(DIGOUT_ON1_REG, k) \<in> set raw_fields" for k using r(2) that by auto
  then have "client_word (ucast c) 49 msg' = take_bit 1 u1" "client_word (ucast c) 50 msg' = take_bit 1 u1" by (simp_all add: raw_fields_def)
  then show ?thesis using r(1) by blast
qed

theorem digout_misreported_witness:
  "\<exists>s1 s2 msg' m' s'. client_msg mem_board (\<lambda>_. (0, [])) 3 8 (be32 DIGOUT_ON1_MSG @ be32 1 @ []) unit_psc = Ret s1
    \<and> client_msg mem_board (\<lambda>_. (0, [])) 3 8 (be32 DIGOUT_ON2_MSG @ be32 0 @ []) s1 = Ret s2
    \<and> sadata_turn (log_net {6}) mem_board (replicate 1400 0, blank_sadata, s2, (Some two_clients, \<lambda>_. [])) =
      Ret (msg', m', s', psc_send (log_net {6}) 31 msg' (Some two_clients, \<lambda>_. []))
    \<and> client_word (ucast (3 :: u16)) 49 msg' = 1 \<and> client_word (ucast (3 :: u16)) 50 msg' = 1"
proof -
  have st: "stores mem_board DIGOUT_ON1_MSG DIGOUT_ON1_REG" "stores mem_board DIGOUT_ON2_MSG DIGOUT_ON2_REG"
    by (simp_all add: stores_def chan_set_raw)
  obtain h where h: "client_msg mem_board (\<lambda>_. (0, [])) 3 8 (be32 DIGOUT_ON1_MSG @ be32 1 @ []) unit_psc = Ret (unit_psc\<lparr>bus := h\<rparr>)"
    using client_msg_raw [OF st(1), of 3 "\<lambda>_. (0, [])" 8 1 "[]" unit_psc] by auto
  obtain g where g: "client_msg mem_board (\<lambda>_. (0, [])) 3 8 (be32 DIGOUT_ON2_MSG @ be32 0 @ []) (unit_psc\<lparr>bus := h\<rparr>) = Ret (unit_psc\<lparr>bus := g\<rparr>)"
    using client_msg_raw [OF st(2), of 3 "\<lambda>_. (0, [])" 8 0 "[]" "unit_psc\<lparr>bus := h\<rparr>"] by auto
  have "3 \<in> {1, 2, 3, 4 :: u16}" by simp
  moreover have "keeps mem_board (chan_reg mem_board (ucast (3 :: u16)) DIGOUT_ON1_REG) (reg_width DIGOUT_ON1_REG)"
    by (rule mem_board_keeps) (simp add: chan_reg_def mem_board_def)
  then have "keeps mem_board (chan_reg mem_board (ucast (3 :: u16)) DIGOUT_ON1_REG) 1" by (simp add: reg_width_def)
  ultimately show ?thesis
    using digout_misreported [OF _ _ h g blank_ok [of g], of "log_net {6}" "(Some two_clients, \<lambda>_. [])"] h g by auto
qed

end
