(* ===== verification/I2c.thy ===== *)
theory I2c
  imports Psc_Prelude
begin

text \<open>
  i2c.c: the two I2C buses, with the clock synthesizer (Si570) on bus 0 and the EEPROM that holds
  the MAC address on bus 1.

  The driver (XIicPs) and the devices are parameters: \<open>iic_driver\<close> answers as a function of all
  the operations so far. An operation names its bus.
\<close>

section \<open>The driver\<close>

datatype iic_op = Poll nat | MasterSend nat "u8 list" u8 | MasterRecv nat nat u8

record iic_driver =
  BusIsBusy :: "iic_op list \<Rightarrow> bool"
  send_status :: "iic_op list \<Rightarrow> s32"
  recv_answer :: "iic_op list \<Rightarrow> s32 \<times> u8 list"

text \<open>\<open>while (XIicPs_BusIsBusy(...));\<close> \<open>None\<close> when the bus stays busy.\<close>

partial_function (option) wait_idle :: "iic_driver \<Rightarrow> nat \<Rightarrow> iic_op list \<Rightarrow> iic_op list option" where
  "wait_idle d i h =
     (let h = h @ [Poll i] in if BusIsBusy d h then wait_idle d i h else Some h)"

definition i2c_write :: "iic_driver \<Rightarrow> nat \<Rightarrow> u8 list \<Rightarrow> u8 \<Rightarrow> u8 \<Rightarrow> iic_op list \<Rightarrow> (s32 \<times> iic_op list) run" where
  "i2c_write d i buf len addr h =
     run_bind (or_hang (wait_idle d i h)) (\<lambda>h.
       let h = h @ [MasterSend i (take (unat len) buf) addr] in Ret (send_status d h, h))"

definition i2c_read :: "iic_driver \<Rightarrow> nat \<Rightarrow> u8 list \<Rightarrow> u8 \<Rightarrow> u8 \<Rightarrow> iic_op list \<Rightarrow> (s32 \<times> u8 list \<times> iic_op list) run" where
  "i2c_read d i buf len addr h =
     run_bind (or_hang (wait_idle d i h)) (\<lambda>h.
       let h = h @ [MasterRecv i (unat len) addr]; (status, bytes) = recv_answer d h
       in Ret (status, store bytes buf, h))"

definition i2c0_write :: "iic_driver \<Rightarrow> u8 list \<Rightarrow> u8 \<Rightarrow> u8 \<Rightarrow> iic_op list \<Rightarrow> (s32 \<times> iic_op list) run" where
  "i2c0_write d = i2c_write d 0"

definition i2c0_read :: "iic_driver \<Rightarrow> u8 list \<Rightarrow> u8 \<Rightarrow> u8 \<Rightarrow> iic_op list \<Rightarrow> (s32 \<times> u8 list \<times> iic_op list) run" where
  "i2c0_read d = i2c_read d 0"

definition i2c1_write :: "iic_driver \<Rightarrow> u8 list \<Rightarrow> u8 \<Rightarrow> u8 \<Rightarrow> iic_op list \<Rightarrow> (s32 \<times> iic_op list) run" where
  "i2c1_write d = i2c_write d 1"

definition i2c1_read :: "iic_driver \<Rightarrow> u8 list \<Rightarrow> u8 \<Rightarrow> u8 \<Rightarrow> iic_op list \<Rightarrow> (s32 \<times> u8 list \<times> iic_op list) run" where
  "i2c1_read d = i2c_read d 1"

section \<open>The clock synthesizer\<close>

definition si570_values :: "(u8 \<times> u8) list" where
  "si570_values =
     [(137, 0x10), (7, 0x00), (8, 0xC2), (9, 0xBB), (10, 0xBE), (11, 0x6E), (12, 0x69), (137, 0x0), (135, 0x40)]"

text \<open>The registers are read to be printed; the statuses are ignored.\<close>

definition read_si570 :: "iic_driver \<Rightarrow> iic_op list \<Rightarrow> iic_op list run" where
  "read_si570 d h =
     run_fold (\<lambda>i h. run_bind (i2c0_write d [i + 7, 0] 1 0x55 h) (\<lambda>(_, h).
       run_bind (i2c0_read d [i + 7, 0] 1 0x55 h) (\<lambda>(_, _, h). Ret h))) [0, 1, 2, 3, 4, 5] h"

definition prog_si570 :: "iic_driver \<Rightarrow> iic_op list \<Rightarrow> iic_op list run" where
  "prog_si570 d h =
     run_bind (read_si570 d h) (\<lambda>h.
     run_bind (run_fold (\<lambda>(r, v) h. run_bind (i2c0_write d [r, v] 2 0x55 h) (\<lambda>(_, h). Ret h)) si570_values h)
       (read_si570 d))"

section \<open>The EEPROM\<close>

abbreviation (input) IIC_EEPROM_ADDR :: u8 where "IIC_EEPROM_ADDR \<equiv> 0x50"
abbreviation (input) IIC_MAC_REG :: u8 where "IIC_MAC_REG \<equiv> 0xFA"

definition i2c_get_mac_address :: "iic_driver \<Rightarrow> u8 list \<Rightarrow> iic_op list \<Rightarrow> (u8 list \<times> iic_op list) run" where
  "i2c_get_mac_address d mac h =
     run_bind (i2c1_write d [IIC_MAC_REG, 0, 0, 0, 0, 0] 1 IIC_EEPROM_ADDR h) (\<lambda>(_, h).
     run_bind (i2c1_read d mac 6 IIC_EEPROM_ADDR h) (\<lambda>(_, mac, h). Ret (mac, h)))"

text \<open>The length of the message is a byte, so \<open>len + 1\<close> wraps for 255.\<close>

definition i2c_eeprom_writeBytes :: "iic_driver \<Rightarrow> u8 \<Rightarrow> u8 list \<Rightarrow> u8 \<Rightarrow> iic_op list \<Rightarrow> iic_op list run" where
  "i2c_eeprom_writeBytes d startAddr data len h =
     (if unat len \<le> length data
      then run_bind (i2c1_write d (startAddr # take (unat len) data) (len + 1) IIC_EEPROM_ADDR h) (\<lambda>(_, h). Ret h)
      else Undef Out_Of_Bounds)"

definition i2c_eeprom_readBytes :: "iic_driver \<Rightarrow> u8 \<Rightarrow> u8 list \<Rightarrow> u8 \<Rightarrow> iic_op list \<Rightarrow> (u8 list \<times> iic_op list) run" where
  "i2c_eeprom_readBytes d startAddr data len h =
     run_bind (i2c1_write d [startAddr] 1 IIC_EEPROM_ADDR h) (\<lambda>(_, h).
     run_bind (i2c1_read d data len IIC_EEPROM_ADDR h) (\<lambda>(_, data, h). Ret (data, h)))"

text \<open>What \<open>eeprom_dump\<close> prints: the first 128 bytes.\<close>

definition eeprom_dump :: "iic_driver \<Rightarrow> iic_op list \<Rightarrow> (u8 list \<times> iic_op list) run" where
  "eeprom_dump d h =
     run_bind (i2c_eeprom_readBytes d 0 (replicate 128 0xFF @ [0]) 128 h) (\<lambda>(rdBuf, h). Ret (take 128 rdBuf, h))"

section \<open>What the operations send\<close>

text \<open>A bus that is idle again after finitely many polls.\<close>

definition frees :: "iic_driver \<Rightarrow> nat \<Rightarrow> bool" where
  "frees d i \<longleftrightarrow> (\<forall>h. \<exists>k. \<not> BusIsBusy d (h @ replicate (Suc k) (Poll i)))"

interpretation idle: polling "wait_idle d i" "\<lambda>h. h @ [Poll i]" "\<lambda>h. \<not> BusIsBusy d h" for d i
proof unfold_locales
  show "wait_idle d i h = (if \<not> BusIsBusy d (h @ [Poll i]) then Some (h @ [Poll i]) else wait_idle d i (h @ [Poll i]))" for h
    by (subst wait_idle.simps) (simp add: Let_def)
  show "\<exists>k. t = ((\<lambda>h. h @ [Poll i]) ^^ Suc k) h \<and> \<not> BusIsBusy d t" if "wait_idle d i h = Some t" for h t
  proof (rule wait_idle.raw_induct [of "\<lambda>d i h t. \<exists>k. t = ((\<lambda>h. h @ [Poll i]) ^^ Suc k) h \<and> \<not> BusIsBusy d t", OF _ that])
    fix f :: "iic_driver \<Rightarrow> nat \<Rightarrow> iic_op list \<Rightarrow> iic_op list option" and d i h t
    assume IH: "\<And>d i h t. f d i h = Some t \<Longrightarrow> \<exists>k. t = ((\<lambda>h. h @ [Poll i]) ^^ Suc k) h \<and> \<not> BusIsBusy d t"
      and "(let h = h @ [Poll i] in if BusIsBusy d h then f d i h else Some h) = Some t"
    then have "t = h @ [Poll i] \<and> \<not> BusIsBusy d t \<or> f d i (h @ [Poll i]) = Some t" by (auto simp: Let_def split: if_splits)
    then show "\<exists>k. t = ((\<lambda>h. h @ [Poll i]) ^^ Suc k) h \<and> \<not> BusIsBusy d t"
      using IH [of d i "h @ [Poll i]" t] by (intro poll_once) blast
  qed
qed

lemmas wait_idle_polls = idle.polls [unfolded funpow_snoc]

lemma idle_Ret: "frees d i \<Longrightarrow> \<exists>m. or_hang (wait_idle d i h) = Ret (h @ replicate m (Poll i))"
  using idle.or_hang_Ret [of d _ i h] unfolding frees_def funpow_snoc by blast

definition not_poll :: "iic_op \<Rightarrow> bool" where
  "not_poll p = (case p of Poll _ \<Rightarrow> False | _ \<Rightarrow> True)"

text \<open>The transfers among the operations: everything but the polls.\<close>

definition transfers :: "iic_op list \<Rightarrow> iic_op list" where
  "transfers = filter not_poll"

lemma transfers_simps [simp]:
  "transfers [] = []" "transfers (xs @ ys) = transfers xs @ transfers ys" "transfers (replicate n (Poll i)) = []"
  "transfers (MasterSend i bs a # xs) = MasterSend i bs a # transfers xs"
  "transfers (MasterRecv i n a # xs) = MasterRecv i n a # transfers xs"
  by (auto simp: transfers_def not_poll_def filter_empty_conv)

lemma i2c_write_sends:
  assumes "frees d i"
  shows "\<exists>st h'. i2c_write d i buf len a h = Ret (st, h') \<and> transfers h' = transfers h @ [MasterSend i (take (unat len) buf) a]"
  using idle_Ret [OF assms, of h] by (auto simp: i2c_write_def Let_def)

lemma i2c_read_receives:
  assumes "frees d i"
  shows "\<exists>st h' m. i2c_read d i buf len a h = Ret (st, store (snd (recv_answer d h')) buf, h')
    \<and> h' = h @ replicate m (Poll i) @ [MasterRecv i (unat len) a]"
  using idle_Ret [OF assms, of h] by (auto simp: i2c_read_def Let_def split_beta)

text \<open>
  The synthesizer's oscillator is frozen while its six configuration bytes are written, in order,
  and the new frequency is enabled last.
\<close>

lemma write_pairs:
  assumes "frees d 0"
  shows "\<exists>h'. run_fold (\<lambda>(r, v) h. run_bind (i2c0_write d [r, v] 2 0x55 h) (\<lambda>(_, h). Ret h)) rvs h = Ret h'
    \<and> transfers h' = transfers h @ map (\<lambda>(r, v). MasterSend 0 [r, v] 0x55) rvs"
proof (induction rvs arbitrary: h)
  case (Cons rv rvs)
  obtain r v where rv: "rv = (r, v)" by (cases rv)
  obtain st h1 where 1: "i2c0_write d [r, v] 2 0x55 h = Ret (st, h1)" "transfers h1 = transfers h @ [MasterSend 0 [r, v] 0x55]"
    using i2c_write_sends [OF assms, of "[r, v]" 2 "0x55" h] by (auto simp: i2c0_write_def)
  from Cons.IH [of h1] 1 rv show ?case by auto
qed simp

definition si570_reads :: "iic_op list" where
  "si570_reads = concat (map (\<lambda>i. [MasterSend 0 [i + 7] 0x55, MasterRecv 0 1 0x55]) [0, 1, 2, 3, 4, 5])"

lemma read_si570_reads:
  assumes "frees d 0"
  shows "\<exists>h'. read_si570 d h = Ret h' \<and> transfers h' = transfers h @ si570_reads"
proof -
  let ?f = "\<lambda>i h. run_bind (i2c0_write d [i + 7, 0] 1 0x55 h) (\<lambda>(_, h). run_bind (i2c0_read d [i + 7, 0] 1 0x55 h) (\<lambda>(_, _, h). Ret h))"
  have "\<exists>h'. run_fold ?f is h = Ret h' \<and> transfers h' = transfers h @ concat (map (\<lambda>i. [MasterSend 0 [i + 7] 0x55, MasterRecv 0 1 0x55]) is)" for "is" h
  proof (induction "is" arbitrary: h)
    case (Cons i "is")
    obtain st h1 where 1: "i2c0_write d [i + 7, 0] 1 0x55 h = Ret (st, h1)" "transfers h1 = transfers h @ [MasterSend 0 [i + 7] 0x55]"
      using i2c_write_sends [OF assms, of "[i + 7, 0]" 1 "0x55" h] by (auto simp: i2c0_write_def)
    obtain st2 bs h2 where 2: "i2c0_read d [i + 7, 0] 1 0x55 h1 = Ret (st2, bs, h2)" "transfers h2 = transfers h1 @ [MasterRecv 0 1 0x55]"
      using i2c_read_receives [OF assms, of "[i + 7, 0]" 1 "0x55" h1] by (auto simp: i2c0_read_def)
    from Cons.IH [of h2] 1 2 show ?case by auto
  qed simp
  then show ?thesis unfolding read_si570_def si570_reads_def .
qed

lemma prog_si570_sends:
  assumes "frees d 0"
  shows "\<exists>h'. prog_si570 d h = Ret h' \<and> transfers h' = transfers h @ si570_reads
    @ map (\<lambda>(r, v). MasterSend 0 [r, v] 0x55) si570_values @ si570_reads"
proof -
  obtain h1 where 1: "read_si570 d h = Ret h1" "transfers h1 = transfers h @ si570_reads"
    using read_si570_reads [OF assms] by blast
  obtain h2 where 2: "run_fold (\<lambda>(r, v) h. run_bind (i2c0_write d [r, v] 2 0x55 h) (\<lambda>(_, h). Ret h)) si570_values h1 = Ret h2"
    "transfers h2 = transfers h1 @ map (\<lambda>(r, v). MasterSend 0 [r, v] 0x55) si570_values"
    using write_pairs [OF assms] by blast
  obtain h3 where "read_si570 d h2 = Ret h3" "transfers h3 = transfers h2 @ si570_reads"
    using read_si570_reads [OF assms] by blast
  then show ?thesis using 1 2 by (simp add: prog_si570_def)
qed

text \<open>
  The EEPROM (24AA025E48), as its data sheet has it: a message of one byte sets the address, of
  more it writes the rest from the address on; a read gives the bytes from the address on. Here
  for transfers that stay inside a page. \<open>mem\<close> and \<open>cur\<close> are its contents and address after the
  operations so far.
\<close>

definition eeprom_ok :: "iic_driver \<Rightarrow> (iic_op list \<Rightarrow> u8 \<Rightarrow> u8) \<Rightarrow> (iic_op list \<Rightarrow> u8) \<Rightarrow> bool" where
  "eeprom_ok d mem cur \<longleftrightarrow> frees d 1
     \<and> (\<forall>h i. mem (h @ [Poll i]) = mem h \<and> cur (h @ [Poll i]) = cur h)
     \<and> (\<forall>h a. mem (h @ [MasterSend 1 [a] IIC_EEPROM_ADDR]) = mem h \<and> cur (h @ [MasterSend 1 [a] IIC_EEPROM_ADDR]) = a)
     \<and> (\<forall>h a bs. unat a mod 16 + length bs \<le> 16 \<longrightarrow> (\<forall>i < length bs. mem (h @ [MasterSend 1 (a # bs) IIC_EEPROM_ADDR]) (a + word_of_nat i) = bs ! i))
     \<and> (\<forall>h n. mem (h @ [MasterRecv 1 n IIC_EEPROM_ADDR]) = mem h
          \<and> snd (recv_answer d (h @ [MasterRecv 1 n IIC_EEPROM_ADDR])) = map (\<lambda>i. mem h (cur h + word_of_nat i)) [0..<n])"

lemma eeprom_polls:
  assumes "eeprom_ok d mem cur"
  shows "mem (h @ replicate m (Poll i)) = mem h \<and> cur (h @ replicate m (Poll i)) = cur h"
proof (induction m)
  case (Suc m)
  then show ?case using assms by (simp add: eeprom_ok_def replicate_append_same [symmetric] flip: append_assoc)
qed simp

text \<open>A read from address \<open>a\<close>: address, then bytes.\<close>

lemma eeprom_read:
  assumes ok: "eeprom_ok d mem cur" and "unat len \<le> length buf"
  shows "\<exists>st h1 st2 h2. i2c1_write d (a # rest) 1 IIC_EEPROM_ADDR h = Ret (st, h1)
    \<and> i2c1_read d buf len IIC_EEPROM_ADDR h1 = Ret (st2, map (\<lambda>i. mem h (a + word_of_nat i)) [0..<unat len] @ drop (unat len) buf, h2)
    \<and> mem h2 = mem h"
proof -
  have fr: "frees d 1" using ok by (simp add: eeprom_ok_def)
  obtain m where m: "or_hang (wait_idle d 1 h) = Ret (h @ replicate m (Poll 1))" using idle_Ret [OF fr] by blast
  let ?h1 = "(h @ replicate m (Poll 1)) @ [MasterSend 1 [a] IIC_EEPROM_ADDR]"
  obtain k where k: "or_hang (wait_idle d 1 ?h1) = Ret (?h1 @ replicate k (Poll 1))" using idle_Ret [OF fr] by blast
  let ?h2 = "(?h1 @ replicate k (Poll 1)) @ [MasterRecv 1 (unat len) IIC_EEPROM_ADDR]"
  have w: "i2c1_write d (a # rest) 1 IIC_EEPROM_ADDR h = Ret (send_status d ?h1, ?h1)"
    unfolding i2c1_write_def i2c_write_def m run_bind_simps Let_def by simp
  have h1: "mem ?h1 = mem h" "cur ?h1 = a"
    using ok eeprom_polls [OF ok, of h m 1] by (simp_all only: eeprom_ok_def)
  then have h1k: "mem (?h1 @ replicate k (Poll 1)) = mem h" "cur (?h1 @ replicate k (Poll 1)) = a"
    using eeprom_polls [OF ok, of ?h1 k 1] by simp_all
  moreover have "mem ?h2 = mem (?h1 @ replicate k (Poll 1))"
    "snd (recv_answer d ?h2) = map (\<lambda>i. mem (?h1 @ replicate k (Poll 1)) (cur (?h1 @ replicate k (Poll 1)) + word_of_nat i)) [0..<unat len]"
    using ok by (simp_all only: eeprom_ok_def)
  ultimately have h2: "mem ?h2 = mem h" "snd (recv_answer d ?h2) = map (\<lambda>i. mem h (a + word_of_nat i)) [0..<unat len]"
    by simp_all
  have "i2c1_read d buf len IIC_EEPROM_ADDR ?h1 = Ret (fst (recv_answer d ?h2), store (snd (recv_answer d ?h2)) buf, ?h2)"
    unfolding i2c1_read_def i2c_read_def k run_bind_simps Let_def split_beta by simp
  then show ?thesis using w h2 by (intro exI conjI) (assumption | simp add: store_def)+
qed

end
