(* ===== verification/Netconf.thy ===== *)
theory Netconf
  imports Psc_State I2c
begin

text \<open>
  sdcard.c: the configuration file NET.CNF of the SD card, read line by line at start-up. It sets
  the network addresses and the four registers that say what kind of power supply this is.

  The file system (\<open>f_gets\<close>) and lwIP's \<open>inet_aton\<close> and \<open>lwip_isspace\<close> are parameters. Messages to
  the console are not modelled.
\<close>

section \<open>The configuration\<close>

record net_config =
  addr :: u32
  mask :: u32
  gw :: u32
  use_static :: u8
  hwaddr :: "u8 list"

abbreviation (input) NETIF_MAX_HWADDR_LEN :: nat where "NETIF_MAX_HWADDR_LEN \<equiv> 6"

text \<open>
  \<open>f_gets\<close> reads a line of at most \<open>n - 1\<close> characters, \<open>None\<close> for a null pointer. \<open>inet_aton\<close> gives
  \<open>None\<close> for what is not an address, and then leaves its result alone.
\<close>

record 'f libs =
  f_gets :: "nat \<Rightarrow> 'f \<Rightarrow> (string \<times> 'f) option"
  inet_aton :: "string \<Rightarrow> u32 option"
  lwip_isspace :: "char \<Rightarrow> bool"

text \<open>\<open>conf = {}\<close> in \<open>realmain\<close>.\<close>

definition zero_conf :: net_config where
  "zero_conf = \<lparr>addr = 0, mask = 0, gw = 0, use_static = 0, hwaddr = replicate NETIF_MAX_HWADDR_LEN 0\<rparr>"

section \<open>Arguments\<close>

definition sdcard_parse_inet :: "'f libs \<Rightarrow> string option \<Rightarrow> u32 \<Rightarrow> u32" where
  "sdcard_parse_inet l arg out =
     (case arg of None \<Rightarrow> out | Some a \<Rightarrow> (case inet_aton l a of None \<Rightarrow> out | Some v \<Rightarrow> v))"

text \<open>\<open>None\<close> where the code returns 1.\<close>

definition char_in :: "char \<Rightarrow> char \<Rightarrow> char \<Rightarrow> bool" where
  "char_in lo hi c \<longleftrightarrow> of_char lo \<le> (of_char c :: nat) \<and> of_char c \<le> (of_char hi :: nat)"

definition parse_hex :: "char \<Rightarrow> u8 \<Rightarrow> u8 option" where
  "parse_hex c out =
     (if char_in (CHR ''0'') (CHR ''9'') c then Some (out OR (of_char c - of_char (CHR ''0'')))
      else if char_in (CHR ''A'') (CHR ''F'') c then Some (out OR (of_char c - of_char (CHR ''A'') + 10))
      else if char_in (CHR ''a'') (CHR ''f'') c then Some (out OR (of_char c - of_char (CHR ''a'') + 10))
      else None)"

text \<open>A character of a string in memory: behind the last one is the terminator.\<close>

definition char_at :: "string \<Rightarrow> nat \<Rightarrow> char" where
  "char_at s i = (if i < length s then s ! i else CHR 0x00)"

text \<open>
  The loop over the six parts of a hardware address; \<open>None\<close> where it breaks off. The code never
  looks behind the terminator: a part is only read after all characters before it.
\<close>

function parse_hwaddr :: "string \<Rightarrow> nat \<Rightarrow> u8 list \<Rightarrow> u8 list option" where
  "parse_hwaddr arg n hw =
     (if n < NETIF_MAX_HWADDR_LEN
      then case parse_hex (char_at arg (n * 3)) (hw ! n) of
             None \<Rightarrow> None
           | Some v \<Rightarrow> (case parse_hex (char_at arg (n * 3 + 1)) (push_bit 4 v) of
               None \<Rightarrow> None
             | Some v \<Rightarrow>
                 if n < NETIF_MAX_HWADDR_LEN - 1 \<and> char_at arg (n * 3 + 2) = CHR '':'' then parse_hwaddr arg (n + 1) (hw[n := v])
                 else if n = NETIF_MAX_HWADDR_LEN - 1 \<and> char_at arg (n * 3 + 2) = CHR 0x00 then Some (hw[n := v])
                 else None)
      else None)"
  by pat_completeness auto
termination by (relation "measure (\<lambda>(_, n, _). NETIF_MAX_HWADDR_LEN - n)") auto

declare parse_hwaddr.simps [simp del]

section \<open>Lines\<close>

text \<open>
  A line as command and perhaps argument, \<open>None\<close> for an empty line or a comment. Strings end before
  their terminator, which is not a space, so the scanning loops end there.
\<close>

definition split_line :: "'f libs \<Rightarrow> string \<Rightarrow> (string \<times> string option) option" where
  "split_line l line =
     (let line = dropWhile (lwip_isspace l) line
      in if line = [] \<or> hd line = CHR ''#'' then None
         else let cmd = takeWhile (\<lambda>c. \<not> lwip_isspace l c) line;
                  line = dropWhile (lwip_isspace l) (dropWhile (\<lambda>c. \<not> lwip_isspace l c) line)
              in Some (cmd, if line = [] then None else Some (takeWhile (\<lambda>c. \<not> lwip_isspace l c) line)))"

type_synonym conf_state = "net_config \<times> psc \<times> iic_op list"

definition netconf_cmd :: "'f libs \<Rightarrow> board \<Rightarrow> iic_driver \<Rightarrow> string \<Rightarrow> string option \<Rightarrow> conf_state \<Rightarrow> conf_state run" where
  "netconf_cmd l b d cmd arg st =
     (case st of (conf, s, h) \<Rightarrow>
        if cmd = ''dhcp'' then
          Ret (if arg = None \<or> arg = Some ''yes'' then (conf\<lparr>use_static := 0\<rparr>, s, h)
               else if arg = Some ''no'' then (conf\<lparr>use_static := 1\<rparr>, s, h) else (conf, s, h))
        else if cmd = ''numchans'' then
          Ret (if arg = None \<or> arg = Some ''2'' then (conf, Xil_Out32 (glob_reg b NUMCHANS_REG) 0 s, h)
               else if arg = Some ''4'' then (conf, Xil_Out32 (glob_reg b NUMCHANS_REG) 1 s, h) else (conf, s, h))
        else if cmd = ''resolution'' then
          Ret (if arg = None \<or> arg = Some ''HS'' then (conf, mshsSelect b 1 s, h)
               else if arg = Some ''MS'' then (conf, mshsSelect b 0 s, h) else (conf, s, h))
        else if cmd = ''bandwidth'' then
          Ret (if arg = None \<or> arg = Some ''fast'' then (conf, Xil_Out32 (glob_reg b BANDWIDTH_REG) 0 s, h)
               else if arg = Some ''slow'' then (conf, Xil_Out32 (glob_reg b BANDWIDTH_REG) 1 s, h) else (conf, s, h))
        else if cmd = ''polarity'' then
          Ret (if arg = None \<or> arg = Some ''bipolar'' then (conf, Xil_Out32 (glob_reg b POLARITY_REG) 0 s, h)
               else if arg = Some ''unipolar'' then (conf, Xil_Out32 (glob_reg b POLARITY_REG) 1 s, h) else (conf, s, h))
        else if cmd = ''addr'' then Ret (conf\<lparr>addr := sdcard_parse_inet l arg (addr conf), use_static := 1\<rparr>, s, h)
        else if cmd = ''mask'' then Ret (conf\<lparr>mask := sdcard_parse_inet l arg (mask conf)\<rparr>, s, h)
        else if cmd = ''gw'' then Ret (conf\<lparr>gw := sdcard_parse_inet l arg (gw conf)\<rparr>, s, h)
        else if cmd = ''hwaddr'' then
          (if arg = None \<or> arg = Some ''eeprom''
           then run_bind (i2c_get_mac_address d (hwaddr conf) h) (\<lambda>(mac, h). Ret (conf\<lparr>hwaddr := mac\<rparr>, s, h))
           else case parse_hwaddr (the arg) 0 (replicate NETIF_MAX_HWADDR_LEN 0) of
                  None \<Rightarrow> Ret (conf, s, h)
                | Some hw \<Rightarrow> Ret (conf\<lparr>hwaddr := hw\<rparr>, s, h))
        else Ret (conf, s, h))"

definition netconf_line :: "'f libs \<Rightarrow> board \<Rightarrow> iic_driver \<Rightarrow> string \<Rightarrow> conf_state \<Rightarrow> conf_state run" where
  "netconf_line l b d line st =
     (case split_line l line of None \<Rightarrow> Ret st | Some (cmd, arg) \<Rightarrow> netconf_cmd l b d cmd arg st)"

text \<open>The loop over the file: \<open>None\<close> when the lines never end.\<close>

partial_function (option) sdcard_netconf ::
    "'f libs \<Rightarrow> board \<Rightarrow> iic_driver \<Rightarrow> 'f \<Rightarrow> conf_state \<Rightarrow> conf_state run option" where
  "sdcard_netconf l b d fd st =
     (case f_gets l 64 fd of
        None \<Rightarrow> Some (Ret st)
      | Some (line, fd) \<Rightarrow>
          (case netconf_line l b d line st of
             Ret st \<Rightarrow> sdcard_netconf l b d fd st
           | Undef u \<Rightarrow> Some (Undef u)
           | Hang \<Rightarrow> Some Hang))"

section \<open>Hardware addresses\<close>

text \<open>How an address is written: two digits for each byte, with colons between them.\<close>

definition hex_byte :: "string \<Rightarrow> u8 \<Rightarrow> string" where
  "hex_byte digits v = [digits ! (unat v div 16), digits ! (unat v mod 16)]"

fun show_hwaddr :: "string \<Rightarrow> u8 list \<Rightarrow> string" where
  "show_hwaddr digits [] = []"
| "show_hwaddr digits [v] = hex_byte digits v"
| "show_hwaddr digits (v # w # vs) = hex_byte digits v @ '':'' @ show_hwaddr digits (w # vs)"

definition hex_upper :: string where "hex_upper = ''0123456789ABCDEF''"
definition hex_lower :: string where "hex_lower = ''0123456789abcdef''"

lemma less_16: "(k :: nat) < 16 \<Longrightarrow> k \<in> {0, 1, 2, 3, 4, 5, 6, 7, 8, 9, 10, 11, 12, 13, 14, 15}"
  by (simp, presburger)

lemma parse_hex_digit:
  assumes "k < 16" "digits \<in> {hex_upper, hex_lower}"
  shows "parse_hex (digits ! k) out = Some (out OR word_of_nat k)"
  using less_16 [OF assms(1)] assms(2) unfolding hex_upper_def hex_lower_def
  by (elim insertE emptyE; simp add: parse_hex_def char_in_def)

lemma nibbles: "push_bit 4 (word_of_nat (unat v div 16)) OR word_of_nat (unat v mod 16) = (v :: u8)"
proof -
  have "unat v < 2 ^ 8" using unsigned_less [of v] by simp
  then have q: "unat v div 16 < 2 ^ 8" "unat v mod 16 < 2 ^ 8" by simp_all
  have "unat (drop_bit 4 v) = unat v div 16" by (simp add: drop_bit_eq_div unat_div)
  then have "word_of_nat (unat v div 16) = drop_bit 4 v" using q(1) by (simp add: word_unat_eq_iff unat_of_nat)
  moreover have "unat (take_bit 4 v) = unat v mod 16" by (simp add: take_bit_eq_mod unat_mod)
  then have "word_of_nat (unat v mod 16) = take_bit 4 v" using q(2) by (simp add: word_unat_eq_iff unat_of_nat)
  moreover have "push_bit 4 (drop_bit 4 v) OR take_bit 4 v = v"
    by (rule bit_word_eqI) (auto simp: bit_simps)
  ultimately show ?thesis by simp
qed

lemma parse_hex_byte:
  assumes "digits \<in> {hex_upper, hex_lower}"
  shows "parse_hex (digits ! (unat v div 16)) 0 = Some (word_of_nat (unat v div 16))"
    "parse_hex (digits ! (unat v mod 16)) (push_bit 4 (word_of_nat (unat v div 16))) = Some v"
proof -
  have "unat v < 2 ^ 8" using unsigned_less [of v] by simp
  then show "parse_hex (digits ! (unat v div 16)) 0 = Some (word_of_nat (unat v div 16))"
    using parse_hex_digit [OF _ assms, of "unat v div 16" 0] by simp
  show "parse_hex (digits ! (unat v mod 16)) (push_bit 4 (word_of_nat (unat v div 16))) = Some v"
    using parse_hex_digit [OF _ assms, of "unat v mod 16"] by (simp add: nibbles)
qed

lemma length6_cases:
  assumes "length bs = 6"
  obtains a b c d e f where "bs = [a, b, c, d, e, f]"
  using assms by (auto simp: eval_nat_numeral length_Suc_conv)

lemma parse_show_hwaddr:
  assumes "digits \<in> {hex_upper, hex_lower}" "length hw = 6"
  shows "parse_hwaddr (show_hwaddr digits hw) 0 (replicate NETIF_MAX_HWADDR_LEN 0) = Some hw"
proof -
  obtain a b c d e f where hw: "hw = [a, b, c, d, e, f]" using assms(2) by (rule length6_cases)
  have r: "replicate NETIF_MAX_HWADDR_LEN 0 = [0, 0, 0, 0, 0, 0 :: u8]" by (simp add: eval_nat_numeral)
  note step = hex_byte_def char_at_def parse_hex_byte [OF assms(1)]
  show ?thesis
    unfolding hw r by (simp add: step parse_hwaddr.simps [of _ 0] parse_hwaddr.simps [of _ "Suc 0"]
      parse_hwaddr.simps [of _ "Suc (Suc 0)"] parse_hwaddr.simps [of _ "Suc (Suc (Suc 0))"]
      parse_hwaddr.simps [of _ "Suc (Suc (Suc (Suc 0)))"] parse_hwaddr.simps [of _ "Suc (Suc (Suc (Suc (Suc 0))))"])
qed

section \<open>The file as its lines\<close>

text \<open>A file whose lines \<open>f_gets\<close> gives one by one, then a null pointer.\<close>

definition reads_lines :: "'f libs \<Rightarrow> ('f \<Rightarrow> string list) \<Rightarrow> bool" where
  "reads_lines l lines \<longleftrightarrow> (\<forall>fd. case lines fd of
      [] \<Rightarrow> f_gets l 64 fd = None
    | x # xs \<Rightarrow> \<exists>fd'. f_gets l 64 fd = Some (x, fd') \<and> lines fd' = xs)"

lemma sdcard_netconf_fold:
  assumes "reads_lines l lines"
  shows "sdcard_netconf l b d fd st = Some (run_fold (netconf_line l b d) (lines fd) st)"
proof (induction "lines fd" arbitrary: fd st)
  case Nil
  have "f_gets l 64 fd = None" using assms [unfolded reads_lines_def, rule_format, of fd] Nil [symmetric] by simp
  then show ?case using Nil by (subst sdcard_netconf.simps) (simp flip: Nil)
next
  case (Cons x xs)
  obtain fd' where fd': "f_gets l 64 fd = Some (x, fd')" "lines fd' = xs"
    using assms [unfolded reads_lines_def, rule_format, of fd] Cons.hyps(2) [symmetric] by auto
  show ?case
  proof (cases "netconf_line l b d x st")
    case (Ret st')
    then show ?thesis using Cons.hyps(1) [OF fd'(2) [symmetric], of st'] fd'
      by (subst sdcard_netconf.simps) (simp flip: Cons.hyps(2))
  qed (use fd' in \<open>subst sdcard_netconf.simps, simp flip: Cons.hyps(2)\<close>)+
qed

lemma i2c_get_mac_Ret: "frees d 1 \<Longrightarrow> \<exists>mac' h'. i2c_get_mac_address d mac h = Ret (mac', h')"
  using i2c_write_sends [of d 1 "[IIC_MAC_REG, 0, 0, 0, 0, 0]" 1 IIC_EEPROM_ADDR h] i2c_read_receives [of d 1 mac 6 IIC_EEPROM_ADDR]
  by (fastforce simp: i2c_get_mac_address_def i2c1_write_def i2c1_read_def)

lemma if_Ret: "(\<exists>st'. (if c then Ret a else r) = Ret st') \<longleftrightarrow> c \<or> (\<exists>st'. r = Ret st')"
  "(\<exists>st'. (if c then q else Ret a) = Ret st') \<longleftrightarrow> c \<longrightarrow> (\<exists>st'. q = Ret st')"
  by auto

lemma netconf_cmd_Ret:
  assumes "frees d 1"
  shows "\<exists>st'. netconf_cmd l b d cmd arg st = Ret st'"
proof -
  obtain conf s h where st: "st = (conf, s, h)" by (cases st)
  obtain mac h' where "i2c_get_mac_address d (hwaddr conf) h = Ret (mac, h')" using i2c_get_mac_Ret [OF assms] by blast
  then have hw: "\<exists>st'. (if arg = None \<or> arg = Some ''eeprom''
      then run_bind (i2c_get_mac_address d (hwaddr conf) h) (\<lambda>(mac, h). Ret (conf\<lparr>hwaddr := mac\<rparr>, s, h))
      else case parse_hwaddr (the arg) 0 (replicate NETIF_MAX_HWADDR_LEN 0) of
             None \<Rightarrow> Ret (conf, s, h)
           | Some hw \<Rightarrow> Ret (conf\<lparr>hwaddr := hw\<rparr>, s, h)) = Ret st'"
    by (simp split: option.split)
  then show ?thesis unfolding netconf_cmd_def st prod.case by (simp only: if_Ret simp_thms)
qed

lemma netconf_lines_Ret: "frees d 1 \<Longrightarrow> \<exists>st'. run_fold (netconf_line l b d) ls st = Ret st'"
proof (induction ls arbitrary: st)
  case (Cons x ls)
  have "\<exists>st1. netconf_line l b d x st = Ret st1"
  proof (cases "split_line l x")
    case (Some ca)
    then show ?thesis using netconf_cmd_Ret [OF Cons.prems, of l b "fst ca" "snd ca" st] by (simp add: netconf_line_def split_beta)
  next
    case None
    then have "netconf_line l b d x st = Ret st" by (simp add: netconf_line_def)
    then show ?thesis by blast
  qed
  then show ?case using Cons.IH [OF Cons.prems] by fastforce
next
  case Nil
  have "run_fold (netconf_line l b d) [] st = Ret st" by simp
  then show ?case by blast
qed

section \<open>What the file can change\<close>

definition conf_regs :: "board \<Rightarrow> u32 set" where
  "conf_regs b = {glob_reg b RESOLUTION_REG, glob_reg b NUMCHANS_REG, glob_reg b POLARITY_REG, glob_reg b BANDWIDTH_REG}"

definition res_writes :: "board \<Rightarrow> io list \<Rightarrow> u32 list" where
  "res_writes b evs = concat (map (\<lambda>e. case e of Wr a v \<Rightarrow> if a = glob_reg b RESOLUTION_REG then [v] else [] | _ \<Rightarrow> []) evs)"

definition factors_for :: "u32 \<Rightarrow> psc \<Rightarrow> bool" where
  "factors_for res s \<longleftrightarrow>
     (if res = 1
      then CONVVOLTSTODACBITS s = f32_of_f64 CONVVOLTSTO20BITS \<and> CONVDACBITSTOVOLTS s = f32_of_f64 CONV20BITSTOVOLTS
      else CONVVOLTSTODACBITS s = f32_of_f64 CONVVOLTSTO18BITS \<and> CONVDACBITSTOVOLTS s = f32_of_f64 CONV18BITSTOVOLTS)"

text \<open>
  From \<open>s\<close> to \<open>s'\<close>: only configuration registers are written, the scale factors stay, and the
  conversion factors are those of the last resolution written, or as before.
\<close>

definition configured :: "board \<Rightarrow> psc \<Rightarrow> psc \<Rightarrow> bool" where
  "configured b s s' \<longleftrightarrow> (\<exists>evs. bus s' = bus s @ evs \<and> {a. \<exists>v. Wr a v \<in> set evs} \<subseteq> conf_regs b
     \<and> scalefactors s' = scalefactors s
     \<and> (if res_writes b evs = []
        then CONVVOLTSTODACBITS s' = CONVVOLTSTODACBITS s \<and> CONVDACBITSTOVOLTS s' = CONVDACBITSTOVOLTS s
        else factors_for (last (res_writes b evs)) s'))"

lemma configured_refl: "configured b s s"
  unfolding configured_def by (rule exI [of _ "[]"]) (simp add: res_writes_def)

lemma configured_trans:
  assumes "configured b s t" "configured b t u"
  shows "configured b s u"
proof -
  obtain e where e: "bus t = bus s @ e" "{a. \<exists>v. Wr a v \<in> set e} \<subseteq> conf_regs b" "scalefactors t = scalefactors s"
    "if res_writes b e = [] then CONVVOLTSTODACBITS t = CONVVOLTSTODACBITS s \<and> CONVDACBITSTOVOLTS t = CONVDACBITSTOVOLTS s
     else factors_for (last (res_writes b e)) t"
    using assms(1) unfolding configured_def by blast
  obtain f where f: "bus u = bus t @ f" "{a. \<exists>v. Wr a v \<in> set f} \<subseteq> conf_regs b" "scalefactors u = scalefactors t"
    "if res_writes b f = [] then CONVVOLTSTODACBITS u = CONVVOLTSTODACBITS t \<and> CONVDACBITSTOVOLTS u = CONVDACBITSTOVOLTS t
     else factors_for (last (res_writes b f)) u"
    using assms(2) unfolding configured_def by blast
  have r: "res_writes b (e @ f) = res_writes b e @ res_writes b f" by (simp add: res_writes_def)
  have "bus u = bus s @ (e @ f)" "{a. \<exists>v. Wr a v \<in> set (e @ f)} \<subseteq> conf_regs b" "scalefactors u = scalefactors s"
    using e f by auto
  moreover have "if res_writes b (e @ f) = [] then CONVVOLTSTODACBITS u = CONVVOLTSTODACBITS s \<and> CONVDACBITSTOVOLTS u = CONVDACBITSTOVOLTS s
     else factors_for (last (res_writes b (e @ f))) u"
    using e(4) f(4) unfolding r by (auto simp: factors_for_def split: if_splits)
  ultimately show ?thesis unfolding configured_def by blast
qed

lemma configured_ops:
  "configured b s (Xil_Out32 (glob_reg b NUMCHANS_REG) v s)"
  "configured b s (Xil_Out32 (glob_reg b BANDWIDTH_REG) v s)"
  "configured b s (Xil_Out32 (glob_reg b POLARITY_REG) v s)"
  "configured b s (mshsSelect b v s)"
  by (auto simp: configured_def conf_regs_def res_writes_def glob_reg_def mshsSelect_def factors_for_def Let_def)

text \<open>By the structure of the command's branches.\<close>

definition configures :: "board \<Rightarrow> psc \<Rightarrow> conf_state run \<Rightarrow> bool" where
  "configures b s r \<longleftrightarrow> (\<forall>conf' s' h'. r = Ret (conf', s', h') \<longrightarrow> configured b s s')"

lemma configures_rules:
  "configured b s s' \<Longrightarrow> configures b s (Ret (conf, s', h))"
  "configures b s q \<Longrightarrow> configures b s r \<Longrightarrow> configures b s (if c then q else r)"
  "configures b s (Ret x) \<Longrightarrow> configures b s (Ret y) \<Longrightarrow> configures b s (Ret (if c then x else y))"
  "configures b s q \<Longrightarrow> (\<And>x. configures b s (f x)) \<Longrightarrow> configures b s (case z of None \<Rightarrow> q | Some x \<Rightarrow> f x)"
  "(\<And>mac h. configures b s (g mac h)) \<Longrightarrow> configures b s (run_bind m (\<lambda>(mac, h). g mac h))"
proof -
  show "(\<And>mac h. configures b s (g mac h)) \<Longrightarrow> configures b s (run_bind m (\<lambda>(mac, h). g mac h))"
    unfolding configures_def by (auto split: prod.splits) blast
qed (auto simp: configures_def split: option.split)

lemma netconf_cmd_configures: "configures b s (netconf_cmd l b d cmd arg (conf, s, h))"
  unfolding netconf_cmd_def prod.case
  by (intro configures_rules configured_ops configured_refl)

lemma netconf_line_configures: "configures b s (netconf_line l b d line (conf, s, h))"
  unfolding netconf_line_def split_beta
  by (intro configures_rules netconf_cmd_configures configured_refl)

lemma netconf_lines_configured:
  "run_fold (netconf_line l b d) ls (conf, s, h) = Ret (conf', s', h') \<Longrightarrow> configured b s s'"
proof (induction ls arbitrary: conf s h)
  case Nil
  then show ?case by (simp add: configured_refl)
next
  case (Cons x ls)
  obtain conf1 s1 h1 where 1: "netconf_line l b d x (conf, s, h) = Ret (conf1, s1, h1)"
    "run_fold (netconf_line l b d) ls (conf1, s1, h1) = Ret (conf', s', h')"
    using Cons.prems by auto
  have "configured b s s1" using netconf_line_configures [of b s l d x conf h] 1(1) by (simp add: configures_def)
  then show ?case using Cons.IH [OF 1(2)] configured_trans by blast
qed

section \<open>Properties\<close>

text \<open>
  Reading the configuration ends, and is the reading of its lines: for a file whose lines \<open>f_gets\<close>
  gives one after the other, with an I2C bus that is idle again after finitely many polls, the
  loop stops after the last line and the result is that of the lines one by one.
\<close>

theorem sdcard_netconf_ends:
  assumes "reads_lines l lines" "frees d 1"
  shows "\<exists>st'. sdcard_netconf l b d fd st = Some (Ret st') \<and> run_fold (netconf_line l b d) (lines fd) st = Ret st'"
proof -
  obtain st' where "run_fold (netconf_line l b d) (lines fd) st = Ret st'" using netconf_lines_Ret [OF assms(2)] by blast
  then show ?thesis unfolding sdcard_netconf_fold [OF assms(1)] by blast
qed

text \<open>Files that are lists of lines, and a driver whose bus is never busy.\<close>

definition list_libs :: "string list libs" where
  "list_libs = \<lparr>f_gets = (\<lambda>n ls. case ls of [] \<Rightarrow> None | x # xs \<Rightarrow> Some (x, xs)), inet_aton = (\<lambda>s. None),
     lwip_isspace = (\<lambda>c. c = CHR '' '' \<or> c = CHR 0x0A \<or> c = CHR 0x0D)\<rparr>"

definition idle_driver :: iic_driver where
  "idle_driver = \<lparr>BusIsBusy = (\<lambda>h. False), send_status = (\<lambda>h. 0), recv_answer = (\<lambda>h. (0, [2, 0, 0, 0, 0, 1]))\<rparr>"

lemma list_libs_reads: "reads_lines list_libs (\<lambda>ls. ls)"
  by (auto simp: reads_lines_def list_libs_def split: list.splits)

lemma idle_driver_frees: "frees idle_driver i"
  by (simp add: frees_def idle_driver_def)

definition some_psc0 :: psc where
  "some_psc0 = \<lparr>bus = [], scalefactors = [], CONVVOLTSTODACBITS = 0, CONVDACBITSTOVOLTS = 0\<rparr>"

definition some_board :: board where
  "some_board = \<lparr>axi_base = 0x43C00000, reg_answer = (\<lambda>_ _. 0), spi_answer = (\<lambda>_. [])\<rparr>"

theorem sdcard_netconf_ends_witness:
  "\<exists>st'. sdcard_netconf list_libs some_board idle_driver [''# a comment'', ''hwaddr eeprom'', ''dhcp no'', ''resolution HS''] (zero_conf, some_psc0, []) =
      Some (Ret st')
    \<and> run_fold (netconf_line list_libs some_board idle_driver) [''# a comment'', ''hwaddr eeprom'', ''dhcp no'', ''resolution HS'']
        (zero_conf, some_psc0, []) = Ret st'"
  by (rule sdcard_netconf_ends [OF list_libs_reads idle_driver_frees])

text \<open>
  The configuration is consistent and confined: whatever the lines say, reading them writes no
  register but the four of the configuration, and leaves the conversion factors of the program in
  agreement with the last resolution written to the board, or as they were if none was written.
\<close>

theorem netconf_consistent:
  assumes "run_fold (netconf_line l b d) ls (conf, s, h) = Ret (conf', s', h')"
  shows "configured b s s'"
  using assms by (rule netconf_lines_configured)

theorem netconf_consistent_witness:
  "\<exists>conf' s' h'. run_fold (netconf_line list_libs some_board idle_driver) [''resolution MS'', ''polarity unipolar''] (zero_conf, some_psc0, []) =
      Ret (conf', s', h') \<and> configured some_board some_psc0 s'"
proof -
  obtain conf' s' h' where r: "run_fold (netconf_line list_libs some_board idle_driver) [''resolution MS'', ''polarity unipolar'']
      (zero_conf, some_psc0, []) = Ret (conf', s', h')"
    using netconf_lines_Ret [OF idle_driver_frees, of list_libs some_board] by (metis prod_cases3)
  from netconf_consistent [OF r] r show ?thesis by blast
qed

text \<open>
  C22. A hardware address is read as it is written: from the two hexadecimal digits of each of its
  six bytes, upper or lower case, with colons between them, the configuration gets exactly these bytes.
\<close>

theorem hwaddr_roundtrip:
  assumes "length hw = 6" "digits \<in> {hex_upper, hex_lower}"
  shows "netconf_cmd l b d ''hwaddr'' (Some (show_hwaddr digits hw)) (conf, s, h) = Ret (conf\<lparr>hwaddr := hw\<rparr>, s, h)"
proof -
  have "show_hwaddr digits hw \<noteq> ''eeprom''"
    using parse_show_hwaddr [OF assms(2,1)] by (auto simp: parse_hwaddr.simps [of _ 0] parse_hex_def char_in_def char_at_def)
  then show ?thesis by (simp add: netconf_cmd_def parse_show_hwaddr [OF assms(2,1)])
qed

theorem hwaddr_roundtrip_witness:
  "netconf_cmd list_libs some_board idle_driver ''hwaddr'' (Some (show_hwaddr hex_lower [0x00, 0x0A, 0x35, 0xFF, 0x12, 0x9C])) (zero_conf, some_psc0, []) =
      Ret (zero_conf\<lparr>hwaddr := [0x00, 0x0A, 0x35, 0xFF, 0x12, 0x9C]\<rparr>, some_psc0, [])"
  by (rule hwaddr_roundtrip) simp_all

end
