(* ===== verification/Console.thy ===== *)
theory Console
  imports App_Main I2c
begin

text \<open>
  console.c: the menu on the serial port. The characters that will be typed are the list \<open>inp\<close>; where
  the code waits for a character that never comes, the result is \<open>Hang\<close>.

  Parameters: the board and the I2C driver as elsewhere, the base of the system control registers
  (\<open>XPS_SYS_CTRL_BASEADDR\<close> of xparameters.h), \<open>strtof\<close>, and what uninitialised local variables hold.
  What is printed is not modelled, nor are the delays.
\<close>

section \<open>State\<close>

record ip_t =
  ipaddr :: "u8 list"
  ipmask :: "u8 list"
  ipgw :: "u8 list"

record console =
  inp :: string
  ip_settings :: ip_t
  iic :: "iic_op list"
  hw :: psc

record console_env =
  brd :: board
  drv :: iic_driver
  sys_ctrl :: u32
  strtof :: "string \<Rightarrow> f32"
  ip_addr_junk :: "console \<Rightarrow> string"
  settings_junk :: "psc \<Rightarrow> u32 \<times> u8 list"

section \<open>The C library\<close>

text \<open>
  Scanning a string in memory: behind the last character of the list lies memory that is not the
  buffer's. A number that does not fit is the largest, or cut off when it is stored in a smaller type.
\<close>

definition c_isspace :: "char \<Rightarrow> bool" where
  "c_isspace c \<longleftrightarrow> c \<in> {CHR 0x20, CHR 0x09, CHR 0x0A, CHR 0x0B, CHR 0x0C, CHR 0x0D}"

definition c_isdigit :: "char \<Rightarrow> bool" where
  "c_isdigit c \<longleftrightarrow> 48 \<le> (of_char c :: nat) \<and> of_char c \<le> (57 :: nat)"

definition c_toupper :: "char \<Rightarrow> char" where
  "c_toupper c = (if 97 \<le> (of_char c :: nat) \<and> of_char c \<le> (122 :: nat) then char_of (of_char c - 32 :: nat) else c)"

fun skip_space :: "string \<Rightarrow> string run" where
  "skip_space [] = Undef Out_Of_Bounds"
| "skip_space (c # cs) = (if c_isspace c then skip_space cs else Ret (c # cs))"

fun scan_digits :: "nat \<Rightarrow> string \<Rightarrow> (nat \<times> string) run" where
  "scan_digits n [] = Undef Out_Of_Bounds"
| "scan_digits n (c # cs) = (if c_isdigit c then scan_digits (10 * n + (of_char c - 48)) cs else Ret (n, c # cs))"

text \<open>\<open>strtoul\<close> in base 10, and \<open>%u\<close>: \<open>None\<close> without a digit.\<close>

definition scan_u :: "string \<Rightarrow> (u32 \<times> string) option run" where
  "scan_u cs =
     run_bind (skip_space cs) (\<lambda>cs.
       let neg = (hd cs = CHR ''-'');
           cs = (if neg \<or> hd cs = CHR ''+'' then tl cs else cs)
       in if cs = [] then Undef Out_Of_Bounds
          else if \<not> c_isdigit (hd cs) then Ret None
          else run_bind (scan_digits 0 cs) (\<lambda>(n, cs).
            let v = (if 2 ^ 32 \<le> n then - 1 else if neg then - of_nat n else of_nat n) in Ret (Some (v, cs))))"

fun scan_word :: "nat \<Rightarrow> string \<Rightarrow> string run" where
  "scan_word 0 cs = Ret []"
| "scan_word (Suc n) [] = Undef Out_Of_Bounds"
| "scan_word (Suc n) (c # cs) =
     (if c_isspace c \<or> c = CHR 0x00 then Ret [] else run_bind (scan_word n cs) (\<lambda>w. Ret (c # w)))"

text \<open>\<open>sscanf(..., "%hhu.%hhu.%hhu.%hhu", ...)\<close>: the octets it assigns.\<close>

fun scan_octets :: "nat list \<Rightarrow> string \<Rightarrow> u8 list \<Rightarrow> u8 list run" where
  "scan_octets [] cs octets = Ret octets"
| "scan_octets (i # is) cs octets =
     run_bind (scan_u cs) (\<lambda>r. case r of
         None \<Rightarrow> Ret octets
       | Some (v, cs) \<Rightarrow>
           let octets = octets[i := ucast v]
           in if is = [] then Ret octets
              else if cs = [] then Undef Out_Of_Bounds
              else if hd cs = CHR ''.'' then scan_octets is (tl cs) octets
              else Ret octets)"

text \<open>\<open>sscanf(..., "%u %u %31s", ...)\<close>; \<open>None\<close> unless all three are there.\<close>

definition scan_command :: "string \<Rightarrow> (u32 \<times> u32 \<times> string) option run" where
  "scan_command cs =
     run_bind (scan_u cs) (\<lambda>r. case r of None \<Rightarrow> Ret None | Some (chan, cs) \<Rightarrow>
     run_bind (scan_u cs) (\<lambda>r. case r of None \<Rightarrow> Ret None | Some (addr, cs) \<Rightarrow>
     run_bind (skip_space cs) (\<lambda>cs.
     run_bind (scan_word 31 cs) (\<lambda>w. Ret (if w = [] then None else Some (chan, addr, w))))))"

section \<open>Input\<close>

definition inbyte :: "console \<Rightarrow> (char \<times> console) run" where
  "inbyte s = (case inp s of [] \<Rightarrow> Hang | c # cs \<Rightarrow> Ret (c, s\<lparr>inp := cs\<rparr>))"

text \<open>The loop of \<open>menu_get_ipaddr\<close>: the buffer and the input that is left. The index \<open>i\<close> is unsigned.\<close>

fun read_ip :: "string \<Rightarrow> u32 \<Rightarrow> string \<Rightarrow> (string \<times> string) run" where
  "read_ip ip_addr i [] = Hang"
| "read_ip ip_addr i (c # cs) =
     (if c = CHR 0x08 then read_ip ip_addr (i - 1) cs
      else if \<not> unat i < length ip_addr then Undef Out_Of_Bounds
      else if c = CHR 0x0D then Ret (ip_addr[unat i := CHR 0x0A], cs)
      else read_ip (ip_addr[unat i := c]) (i + 1) cs)"

definition menu_get_ipaddr :: "console_env \<Rightarrow> u8 list \<Rightarrow> console \<Rightarrow> (u8 list \<times> console) run" where
  "menu_get_ipaddr e octets s =
     run_bind (read_ip (take 40 (ip_addr_junk e s)) 0 (inp s)) (\<lambda>(ip_addr, cs).
     run_bind (scan_octets [0, 1, 2, 3] ip_addr octets) (\<lambda>octets. Ret (octets, s\<lparr>inp := cs\<rparr>)))"

definition get_binary_input :: "console \<Rightarrow> (u8 \<times> console) run" where
  "get_binary_input s =
     run_bind (inbyte s) (\<lambda>(c, s).
       Ret (if c = CHR ''0'' then 0 else if c = CHR ''1'' then 1 else - 1, s))"

abbreviation (input) MAX_INPUT_LEN :: nat where "MAX_INPUT_LEN \<equiv> 64"

text \<open>
  \<open>uart_read_line\<close>: the loop stores into \<open>buffer\<close> from \<open>idx\<close> on; a line that is too long ends
  where the buffer does, the rest of it stays in the input.
\<close>

function uart_read :: "nat \<Rightarrow> nat \<Rightarrow> string \<Rightarrow> string \<Rightarrow> (string \<times> string) run" where
  "uart_read max_len idx buffer cs =
     (if idx < max_len - 1
      then (case cs of
              [] \<Rightarrow> Hang
            | c # cs \<Rightarrow>
                if c = CHR 0x0D \<or> c = CHR 0x0A
                then (if idx < length buffer then Ret (buffer[idx := CHR 0x00], cs) else Undef Out_Of_Bounds)
                else if idx < length buffer then uart_read max_len (idx + 1) (buffer[idx := c]) cs
                else Undef Out_Of_Bounds)
      else if idx < length buffer then Ret (buffer[idx := CHR 0x00], cs) else Undef Out_Of_Bounds)"
  by pat_completeness auto
termination by (relation "measure (\<lambda>(m, i, _). m - i)") auto

declare uart_read.simps [simp del]

definition uart_read_line :: "string \<Rightarrow> nat \<Rightarrow> console \<Rightarrow> (string \<times> console) run" where
  "uart_read_line buffer max_len s =
     run_bind (uart_read max_len 0 buffer (inp s)) (\<lambda>(buffer, cs). Ret (buffer, s\<lparr>inp := cs\<rparr>))"

section \<open>The commands\<close>

definition dump_eeprom :: "console_env \<Rightarrow> console \<Rightarrow> console run" where
  "dump_eeprom e s = run_bind (eeprom_dump (drv e) (iic s)) (\<lambda>(_, h). Ret (s\<lparr>iic := h\<rparr>))"

definition print_snapshot_stats :: "console_env \<Rightarrow> console \<Rightarrow> console run" where
  "print_snapshot_stats e s =
     (let (_, t) = Xil_In32 (brd e) (glob_reg (brd e) SNAPSHOT_ADDRPTR) (hw s);
          (_, t) = Xil_In32 (brd e) (glob_reg (brd e) SNAPSHOT_TOTALTRIGS) t
      in Ret (s\<lparr>hw := t\<rparr>))"

definition eeprom_write :: "console_env \<Rightarrow> u8 \<Rightarrow> u8 list \<Rightarrow> u8 \<Rightarrow> console \<Rightarrow> console run" where
  "eeprom_write e a bs len s = run_bind (i2c_eeprom_writeBytes (drv e) a bs len (iic s)) (\<lambda>h. Ret (s\<lparr>iic := h\<rparr>))"

definition set_resolution :: "console_env \<Rightarrow> console \<Rightarrow> console run" where
  "set_resolution e s =
     run_bind (get_binary_input s) (\<lambda>(val, s). if val \<noteq> - 1 then eeprom_write e 48 [val] 1 s else Ret s)"

definition program_ip :: "console_env \<Rightarrow> console \<Rightarrow> console run" where
  "program_ip e s =
     run_bind (menu_get_ipaddr e (ipaddr (ip_settings s)) s) (\<lambda>(v, s).
     let s = s\<lparr>ip_settings := (ip_settings s)\<lparr>ipaddr := v\<rparr>\<rparr> in
     run_bind (menu_get_ipaddr e (ipmask (ip_settings s)) s) (\<lambda>(v, s).
     let s = s\<lparr>ip_settings := (ip_settings s)\<lparr>ipmask := v\<rparr>\<rparr> in
     run_bind (menu_get_ipaddr e (ipgw (ip_settings s)) s) (\<lambda>(v, s).
     let s = s\<lparr>ip_settings := (ip_settings s)\<lparr>ipgw := v\<rparr>\<rparr> in
     run_bind (eeprom_write e 0 (ipaddr (ip_settings s)) 4 s) (\<lambda>s.
     run_bind (eeprom_write e 16 (ipmask (ip_settings s)) 4 s) (\<lambda>s.
       eeprom_write e 32 (ipgw (ip_settings s)) 4 s)))))"

text \<open>The value typed: with a point it is a float, else an integer, and its 32 bits are what is set.\<close>

definition typed_value :: "console_env \<Rightarrow> string \<Rightarrow> u32 run" where
  "typed_value e val_str =
     (if CHR ''.'' \<in> set val_str then Ret (strtof e val_str)
      else run_bind (scan_u (val_str @ [CHR 0x00])) (\<lambda>r. Ret (case r of None \<Rightarrow> 0 | Some (v, _) \<Rightarrow> v)))"

definition receive_console_cmd :: "console_env \<Rightarrow> console \<Rightarrow> console run" where
  "receive_console_cmd e s =
     run_bind (uart_read_line (replicate 100 CHR 0x00) MAX_INPUT_LEN s) (\<lambda>(input, s).
     run_bind (scan_command input) (\<lambda>r. case r of
         None \<Rightarrow> Ret s
       | Some (chan, addr, val_str) \<Rightarrow>
           run_bind (typed_value e val_str) (\<lambda>u. case settings_junk e (hw s) of (header0, stack) \<Rightarrow>
           run_bind (chan_settings (brd e) header0 stack chan (mem_words [htonl addr, htonl u]) (hw s))
             (\<lambda>t. Ret (s\<lparr>hw := t\<rparr>)))))"

definition reboot :: "console_env \<Rightarrow> console \<Rightarrow> console run" where
  "reboot e s =
     run_bind (get_binary_input s) (\<lambda>(val, s).
       if val = 1
       then Ret (s\<lparr>hw := Xil_Out32 (sys_ctrl e OR 0x200) 0x1 (Xil_Out32 (sys_ctrl e OR 0x008) 0xDF0D (hw s))\<rparr>)
       else Ret s)"

text \<open>\<open>printTaskStats\<close> only prints.\<close>

definition printTaskStats :: "console \<Rightarrow> console run" where
  "printTaskStats s = Ret s"

section \<open>The menu\<close>

type_synonym menu_entry = "char \<times> (console \<Rightarrow> console run)"

text \<open>
  One turn of the loop of \<open>exec_menu\<close>, and the loop. Every turn reads a character, so as many turns as
  there are characters and one more are all there can be: with more fuel nothing changes
  (\<open>exec_menu_loop\<close> below).
\<close>

definition exec_choice :: "menu_entry list \<Rightarrow> char \<Rightarrow> console \<Rightarrow> console run" where
  "exec_choice m choice s =
     (case find (\<lambda>(entryCh, _). entryCh = choice) m of None \<Rightarrow> Ret s | Some (_, entryFunc) \<Rightarrow> entryFunc s)"

fun exec_turns :: "nat \<Rightarrow> menu_entry list \<Rightarrow> console \<Rightarrow> console run" where
  "exec_turns 0 m s = Hang"
| "exec_turns (Suc n) m s =
     run_bind (inbyte s) (\<lambda>(c, s).
       let choice = c_toupper c in
       run_bind (exec_choice m choice s) (\<lambda>s.
         if choice = CHR ''Q'' then Ret s else exec_turns n m s))"

definition exec_menu :: "menu_entry list \<Rightarrow> console \<Rightarrow> console run" where
  "exec_menu m s = exec_turns (Suc (length (inp s))) m s"

definition menu :: "console_env \<Rightarrow> menu_entry list" where
  "menu e =
     [(CHR ''A'', dump_eeprom e), (CHR ''B'', program_ip e), (CHR ''C'', set_resolution e), (CHR ''D'', reboot e),
      (CHR ''E'', print_snapshot_stats e), (CHR ''F'', printTaskStats), (CHR ''G'', receive_console_cmd e)]"

text \<open>\<open>console_menu\<close> is this over and over.\<close>

definition console_turn :: "console_env \<Rightarrow> console \<Rightarrow> console run" where
  "console_turn e = exec_menu (menu e)"

end
