(* ===== verification/Console_Ok.thy ===== *)
theory Console_Ok
  imports Console
begin

text \<open>
  What the console does: the menu loop, the text the commands read, and what reaches the settings and
  the EEPROM.
\<close>

section \<open>The menu loop\<close>

text \<open>No command gives characters back.\<close>

definition consumes :: "(console \<Rightarrow> console run) \<Rightarrow> bool" where
  "consumes f \<longleftrightarrow> (\<forall>s t. f s = Ret t \<longrightarrow> length (inp t) \<le> length (inp s))"

lemma inbyte_Ret: "inbyte s = Ret (c, t) \<longleftrightarrow> inp s = c # inp t \<and> t = s\<lparr>inp := inp t\<rparr>"
  by (auto simp: inbyte_def split: list.splits)

lemma exec_choice_consumes:
  assumes "\<forall>(c, f)\<in>set m. consumes f" "exec_choice m c s = Ret t"
  shows "length (inp t) \<le> length (inp s)"
proof (cases "find (\<lambda>(entryCh, _). entryCh = c) m")
  case None
  then show ?thesis using assms(2) by (simp add: exec_choice_def)
next
  case (Some x)
  obtain d f where x: "x = (d, f)" by (cases x)
  have "x \<in> set m" using Some by (metis find_Some_iff nth_mem)
  then have "consumes f" using assms(1) x by auto
  moreover have "f s = Ret t" using assms(2) Some x by (simp add: exec_choice_def)
  ultimately show ?thesis unfolding consumes_def by blast
qed

lemma exec_turns_enough:
  assumes m: "\<forall>(c, f)\<in>set m. consumes f"
  shows "length (inp s) < n \<Longrightarrow> exec_turns n m s = exec_menu m s"
proof -
  have "length (inp s) < n \<Longrightarrow> length (inp s) < k \<Longrightarrow> exec_turns n m s = exec_turns k m s" for n k s
  proof (induction n arbitrary: k s)
    case (Suc n)
    then obtain k' where k: "k = Suc k'" by (cases k) auto
    have "exec_turns n m t = exec_turns k' m t" if i: "inbyte s = Ret (c, u)" and c: "exec_choice m d u = Ret t" for c d u t
    proof -
      have "length (inp s) = Suc (length (inp u))" using i inbyte_Ret [of s c u] by auto
      moreover have "length (inp t) \<le> length (inp u)" using exec_choice_consumes [OF m c] .
      ultimately show ?thesis using Suc k by auto
    qed
    then show ?case unfolding k exec_turns.simps
      by (cases "inbyte s") (auto simp: Let_def run_bind_def split: run.splits prod.splits)
  qed simp
  then show "length (inp s) < n \<Longrightarrow> exec_turns n m s = exec_menu m s" unfolding exec_menu_def by blast
qed

lemma exec_menu_loop:
  assumes m: "\<forall>(c, f)\<in>set m. consumes f"
  shows "exec_menu m s = run_bind (inbyte s) (\<lambda>(c, s). run_bind (exec_choice m (c_toupper c) s) (\<lambda>s.
      if c_toupper c = CHR ''Q'' then Ret s else exec_menu m s))"
proof -
  have "exec_turns (length (inp s)) m t = exec_menu m t"
    if i: "inbyte s = Ret (c, u)" and c: "exec_choice m d u = Ret t" for c d u t
  proof (rule exec_turns_enough [OF m])
    have "length (inp s) = Suc (length (inp u))" using i inbyte_Ret [of s c u] by auto
    then show "length (inp t) < length (inp s)" using exec_choice_consumes [OF m c] by simp
  qed
  then show ?thesis unfolding exec_menu_def [of m s] exec_turns.simps
    by (cases "inbyte s") (auto simp: Let_def run_bind_def split: run.splits prod.splits)
qed

lemma read_ip_Ret: "read_ip b i cs = Ret (b', cs') \<Longrightarrow> length cs' < length cs"
  by (induction b i cs rule: read_ip.induct) (auto split: if_splits)

lemma uart_read_Ret: "uart_read m i b cs = Ret (b', cs') \<Longrightarrow> length cs' \<le> length cs"
proof (induction cs arbitrary: i b)
  case Nil
  then show ?case by (subst (asm) uart_read.simps) (auto split: if_splits)
next
  case (Cons c cs)
  from Cons.prems show ?case
    by (subst (asm) uart_read.simps) (auto split: if_splits dest!: Cons.IH)
qed

lemma menu_get_ipaddr_Ret: "menu_get_ipaddr e oct s = Ret (v, t) \<Longrightarrow> length (inp t) < length (inp s)"
  by (auto simp: menu_get_ipaddr_def dest: read_ip_Ret)

lemma eeprom_write_Ret: "eeprom_write e a bs n s = Ret t \<Longrightarrow> inp t = inp s"
  by (auto simp: eeprom_write_def)

lemma get_binary_input_Ret: "get_binary_input s = Ret (v, t) \<Longrightarrow> length (inp t) < length (inp s)"
  by (auto simp: get_binary_input_def inbyte_Ret)

lemma consumesI: "(\<And>s t. f s = Ret t \<Longrightarrow> length (inp t) \<le> length (inp s)) \<Longrightarrow> consumes f"
  by (simp add: consumes_def)

lemma menu_consumes: "\<forall>(c, f)\<in>set (menu e). consumes f"
proof -
  have "consumes (dump_eeprom e)" by (rule consumesI) (auto simp: dump_eeprom_def)
  moreover have "consumes (program_ip e)"
    by (rule consumesI) (fastforce simp: program_ip_def Let_def dest: menu_get_ipaddr_Ret eeprom_write_Ret)
  moreover have "consumes (set_resolution e)"
    by (rule consumesI) (auto simp: set_resolution_def dest!: get_binary_input_Ret eeprom_write_Ret split: if_splits)
  moreover have "consumes (reboot e)"
    by (rule consumesI) (auto simp: reboot_def dest!: get_binary_input_Ret split: if_splits)
  moreover have "consumes (print_snapshot_stats e)"
    by (rule consumesI) (auto simp: print_snapshot_stats_def Let_def split: prod.splits)
  moreover have "consumes printTaskStats" by (rule consumesI) (simp add: printTaskStats_def)
  moreover have "consumes (receive_console_cmd e)"
    by (rule consumesI)
      (auto simp: receive_console_cmd_def uart_read_line_def split_beta dest!: uart_read_Ret split: option.splits)
  ultimately show ?thesis by (simp add: menu_def)
qed

text \<open>So the menu of the console is the loop it looks like: it ends with Q, and nothing else ends it.\<close>

lemma console_turn_loop:
  "console_turn e s = run_bind (inbyte s) (\<lambda>(c, s). run_bind (exec_choice (menu e) (c_toupper c) s) (\<lambda>s.
      if c_toupper c = CHR ''Q'' then Ret s else console_turn e s))"
  unfolding console_turn_def by (rule exec_menu_loop [OF menu_consumes])

section \<open>Numbers\<close>

text \<open>A number as it is typed.\<close>

fun dec :: "nat \<Rightarrow> string" where
  "dec n = (if n < 10 then [char_of (48 + n)] else dec (n div 10) @ [char_of (48 + n mod 10)])"

declare dec.simps [simp del]

definition digits :: "string \<Rightarrow> bool" where
  "digits ds \<longleftrightarrow> (\<forall>c\<in>set ds. c_isdigit c)"

lemma digit_char: "k < 10 \<Longrightarrow> of_char (char_of (48 + k) :: char) = (48 + k :: nat)"
  by simp

lemma digits_dec: "digits (dec n)" and dec_not_Nil [simp]: "dec n \<noteq> []"
proof (induction n rule: dec.induct)
  case (1 n)
  { case 1
    then show ?case by (subst dec.simps) (use "1.IH" in \<open>auto simp: digits_def c_isdigit_def\<close>)
  next
    case 2
    then show ?case by (subst dec.simps) auto }
qed

lemma scan_digits_append:
  "digits ds \<Longrightarrow> scan_digits n (ds @ cs) = scan_digits (foldl (\<lambda>n c. 10 * n + (of_char c - 48)) n ds) cs"
  by (induction ds arbitrary: n) (auto simp: digits_def)

lemma foldl_dec: "foldl (\<lambda>n c. 10 * n + (of_char c - 48)) 0 (dec n) = n"
proof (induction n rule: dec.induct)
  case (1 n)
  then show ?case by (subst dec.simps) auto
qed

lemma scan_digits_dec: "\<not> c_isdigit c \<Longrightarrow> scan_digits 0 (dec n @ c # cs) = Ret (n, c # cs)"
  by (simp add: scan_digits_append digits_dec foldl_dec)

lemma digit_not: "c_isdigit c \<Longrightarrow> \<not> c_isspace c \<and> c \<noteq> CHR ''-'' \<and> c \<noteq> CHR ''+'' \<and> c \<noteq> CHR 0x00 \<and> c \<noteq> CHR ''.''"
  by (auto simp: c_isdigit_def c_isspace_def)

lemma dec_Cons: obtains d ds where "dec n = d # ds" "c_isdigit d"
proof (cases "dec n")
  case (Cons d ds)
  then show ?thesis using that digits_dec [of n] by (simp add: digits_def)
qed simp

lemma scan_u_dec:
  assumes "n < 2 ^ 32" "\<not> c_isdigit c"
  shows "scan_u (dec n @ c # cs) = Ret (Some (of_nat n, c # cs))"
proof -
  obtain d ds where d: "dec n = d # ds" "c_isdigit d" by (rule dec_Cons)
  have "skip_space (dec n @ c # cs) = Ret (dec n @ c # cs)" "hd (dec n @ c # cs) = d"
    using d digit_not [OF d(2)] by simp_all
  then show ?thesis using d(2) digit_not [OF d(2)] scan_digits_dec [OF assms(2), of n cs] assms(1)
    by (simp add: scan_u_def Let_def)
qed

lemma scan_u_space: "c_isspace c \<Longrightarrow> scan_u (c # cs) = scan_u cs"
  by (simp add: scan_u_def)

section \<open>Lines\<close>

text \<open>Whatever is typed, a line read with a limit not above the buffer's length stays inside it.\<close>

lemma uart_read_bounds:
  "i < m \<Longrightarrow> m \<le> length b \<Longrightarrow> uart_read m i b cs \<noteq> Undef u \<and>
    (\<forall>b' cs'. uart_read m i b cs = Ret (b', cs') \<longrightarrow> length b' = length b \<and> (\<exists>k<m. b' ! k = CHR 0x00))"
proof (induction cs arbitrary: i b)
  case Nil
  then show ?case by (subst (1 2) uart_read.simps) (auto intro!: exI [of _ i])
next
  case (Cons c cs)
  have "uart_read m (i + 1) (b[i := c]) cs \<noteq> Undef u \<and> (\<forall>b' cs'. uart_read m (i + 1) (b[i := c]) cs = Ret (b', cs') \<longrightarrow>
      length b' = length b \<and> (\<exists>k<m. b' ! k = CHR 0x00))" if "i < m - 1"
    using Cons.IH [of "i + 1" "b[i := c]"] Cons.prems that by auto
  then show ?case using Cons.prems by (subst (1 2) uart_read.simps) (auto intro!: exI [of _ i])
qed

lemma uart_read_line_typed:
  "i + length xs < m \<Longrightarrow> m \<le> length b \<Longrightarrow> \<forall>c\<in>set xs. c \<noteq> CHR 0x0D \<and> c \<noteq> CHR 0x0A \<Longrightarrow> i + length xs < m - 1 \<Longrightarrow>
    uart_read m i b (xs @ CHR 0x0D # cs) = Ret (take i b @ xs @ CHR 0x00 # drop (i + length xs + 1) b, cs)"
proof (induction xs arbitrary: i b)
  case Nil
  then show ?case by (subst uart_read.simps) (simp add: upd_conv_take_nth_drop)
next
  case (Cons x xs)
  have "uart_read m (i + 1) (b[i := x]) (xs @ CHR 0x0D # cs) =
      Ret (take (i + 1) (b[i := x]) @ xs @ CHR 0x00 # drop (i + 1 + length xs + 1) (b[i := x]), cs)"
    using Cons.prems by (intro Cons.IH) auto
  moreover have "take (i + 1) (b[i := x]) = take i b @ [x]"
    using Cons.prems by (simp add: take_Suc_conv_app_nth)
  ultimately show ?case using Cons.prems by (subst uart_read.simps) simp
qed

lemma read_ip_typed:
  "i + length xs < length b \<Longrightarrow> length b \<le> 40 \<Longrightarrow> \<forall>c\<in>set xs. c \<noteq> CHR 0x0D \<and> c \<noteq> CHR 0x08 \<Longrightarrow>
    read_ip b (of_nat i) (xs @ CHR 0x0D # cs) = Ret (take i b @ xs @ CHR 0x0A # drop (i + length xs + 1) b, cs)"
proof (induction xs arbitrary: i b)
  case Nil
  then show ?case by (simp add: upd_conv_take_nth_drop)
next
  case (Cons x xs)
  have "read_ip (b[i := x]) (of_nat (i + 1)) (xs @ CHR 0x0D # cs) =
      Ret (take (i + 1) (b[i := x]) @ xs @ CHR 0x0A # drop (i + 1 + length xs + 1) (b[i := x]), cs)"
    using Cons.prems by (intro Cons.IH) auto
  moreover have "take (i + 1) (b[i := x]) = take i b @ [x]"
    using Cons.prems by (simp add: take_Suc_conv_app_nth)
  moreover have "of_nat i + 1 = (of_nat (i + 1) :: u32)" by simp
  ultimately show ?case using Cons.prems by (simp add: add.commute)
qed

section \<open>Addresses\<close>

definition dotted :: "u8 list \<Rightarrow> string" where
  "dotted bs = dec (unat (bs ! 0)) @ CHR ''.'' # dec (unat (bs ! 1)) @ CHR ''.'' # dec (unat (bs ! 2)) @ CHR ''.'' # dec (unat (bs ! 3))"

lemma length_dec_byte: "length (dec (unat (w :: u8))) \<le> 3"
proof -
  have "unat w < 256" using unsigned_less [of w] by simp
  then show ?thesis by (subst dec.simps, subst dec.simps, subst dec.simps) auto
qed

lemma length_dotted: "length (dotted bs) \<le> 15"
  using length_dec_byte [of "bs ! 0"] length_dec_byte [of "bs ! 1"] length_dec_byte [of "bs ! 2"] length_dec_byte [of "bs ! 3"]
  by (simp add: dotted_def)

lemma digit_not_control: "c_isdigit c \<Longrightarrow> c \<noteq> CHR 0x0D \<and> c \<noteq> CHR 0x0A \<and> c \<noteq> CHR 0x08"
  by (auto simp: c_isdigit_def)

lemma dec_not_control: "c \<in> set (dec n) \<Longrightarrow> c \<noteq> CHR 0x0D \<and> c \<noteq> CHR 0x0A \<and> c \<noteq> CHR 0x08"
  using digits_dec [of n] digit_not_control by (auto simp: digits_def)

lemma dotted_not_control: "c \<in> set (dotted bs) \<Longrightarrow> c \<noteq> CHR 0x0D \<and> c \<noteq> CHR 0x08"
  unfolding dotted_def by (auto dest: dec_not_control)

lemma not_digits [simp]: "\<not> c_isdigit CHR ''.''" "\<not> c_isdigit CHR 0x0A" "\<not> c_isdigit CHR 0x20" "\<not> c_isdigit CHR 0x00"
  by (simp_all add: c_isdigit_def)

lemma scan_u_byte: "\<not> c_isdigit c \<Longrightarrow> scan_u (dec (unat (w :: u8)) @ c # cs) = Ret (Some (ucast w, c # cs))"
proof -
  have "unat w < 256" using unsigned_less [of w] by simp
  then have "unat w < 2 ^ 32" by simp
  moreover have "(of_nat (unat w) :: u32) = ucast w" by (simp add: unsigned_ucast_eq)
  ultimately show "\<not> c_isdigit c \<Longrightarrow> ?thesis" using scan_u_dec [of "unat w" c cs] by simp
qed

lemma ucast_byte [simp]: "ucast (ucast (w :: u8) :: u32) = w"
  by (rule bit_word_eqI) (auto simp: bit_simps dest: bit_imp_le_length)

lemma scan_octets_dotted:
  assumes "length bs = 4" "length octets = 4"
  shows "scan_octets [0, 1, 2, 3] (dotted bs @ CHR 0x0A # cs) octets = Ret bs"
proof -
  obtain w x y z where bs: "bs = [w, x, y, z]" using assms(1) by (rule length4_cases)
  obtain p q r t where oct: "octets = [p, q, r, t]" using assms(2) by (rule length4_cases)
  show ?thesis by (simp add: bs oct dotted_def scan_u_byte)
qed

declare scan_octets.simps [simp del]

lemma menu_get_ipaddr_typed:
  assumes "length bs = 4" "length octets = 4" "40 \<le> length (ip_addr_junk e s)" "inp s = dotted bs @ CHR 0x0D # cs"
  shows "menu_get_ipaddr e octets s = Ret (bs, s\<lparr>inp := cs\<rparr>)"
proof -
  let ?b = "take 40 (ip_addr_junk e s)"
  have "read_ip ?b 0 (dotted bs @ CHR 0x0D # cs) = Ret (dotted bs @ CHR 0x0A # drop (length (dotted bs) + 1) ?b, cs)"
    using read_ip_typed [of 0 "dotted bs" ?b cs] length_dotted [of bs] assms(3) dotted_not_control by fastforce
  then show ?thesis using assms by (simp add: menu_get_ipaddr_def scan_octets_dotted [unfolded One_nat_def] del: drop_take)
qed

lemma eeprom_write_sends:
  assumes "frees (drv e) 1" "length bs = 4"
  shows "\<exists>h. eeprom_write e a bs 4 s = Ret (s\<lparr>iic := h\<rparr>) \<and> transfers h = transfers (iic s) @ [MasterSend 1 (a # bs) IIC_EEPROM_ADDR]"
  using i2c_write_sends [OF assms(1), of "a # bs" 5 IIC_EEPROM_ADDR "iic s"] assms(2)
  by (auto simp: eeprom_write_def i2c_eeprom_writeBytes_def i2c1_write_def)

section \<open>Commands\<close>

definition word_arg :: "string \<Rightarrow> bool" where
  "word_arg v \<longleftrightarrow> v \<noteq> [] \<and> length v \<le> 31 \<and> (\<forall>c\<in>set v. \<not> c_isspace c \<and> c \<noteq> CHR 0x00)"

lemma scan_word_arg: "\<forall>c\<in>set v. \<not> c_isspace c \<and> c \<noteq> CHR 0x00 \<Longrightarrow> length v \<le> n \<Longrightarrow> scan_word n (v @ CHR 0x00 # cs) = Ret v"
proof (induction v arbitrary: n)
  case Nil
  then show ?case by (cases n) auto
next
  case (Cons c v)
  then obtain m where "n = Suc m" by (cases n) auto
  then show ?case using Cons by simp
qed

definition command_line :: "nat \<Rightarrow> nat \<Rightarrow> string \<Rightarrow> string" where
  "command_line chan addr v = dec chan @ CHR 0x20 # dec addr @ CHR 0x20 # v"

lemma scan_command_typed:
  assumes "chan < 2 ^ 32" "addr < 2 ^ 32" "word_arg v"
  shows "scan_command (command_line chan addr v @ CHR 0x00 # cs) = Ret (Some (of_nat chan, of_nat addr, v))"
proof -
  have sp: "c_isspace CHR 0x20" by (simp add: c_isspace_def)
  obtain x xs where v: "v = x # xs" using assms(3) by (cases v) (auto simp: word_arg_def)
  then have "skip_space (CHR 0x20 # v @ CHR 0x00 # cs) = Ret (v @ CHR 0x00 # cs)"
    using assms(3) sp by (auto simp: word_arg_def)
  then show ?thesis
    using assms v sp scan_word_arg [of v 31 cs] by (simp add: scan_command_def command_line_def scan_u_dec scan_u_space word_arg_def)
qed

lemma command_typed:
  assumes "chan < 2 ^ 32" "addr < 2 ^ 32" "word_arg v" "length (command_line chan addr v) < 63"
    and "inp s = command_line chan addr v @ CHR 0x0D # cs"
  shows "receive_console_cmd e s = run_bind (typed_value e v) (\<lambda>u. case settings_junk e (hw s) of (header0, stack) \<Rightarrow>
     run_bind (chan_settings (brd e) header0 stack (of_nat chan) (be32 (of_nat addr) @ be32 u) (hw s)) (\<lambda>t. Ret (s\<lparr>inp := cs, hw := t\<rparr>)))"
proof -
  let ?l = "command_line chan addr v"
  have "\<forall>c\<in>set v. c \<noteq> CHR 0x0D \<and> c \<noteq> CHR 0x0A" using assms(3) by (auto simp: word_arg_def c_isspace_def)
  then have "\<forall>c\<in>set ?l. c \<noteq> CHR 0x0D \<and> c \<noteq> CHR 0x0A" unfolding command_line_def by (auto dest: dec_not_control)
  then have "uart_read 64 0 (replicate 100 CHR 0x00) (?l @ CHR 0x0D # cs) =
      Ret (?l @ CHR 0x00 # drop (length ?l + 1) (replicate 100 CHR 0x00), cs)"
    using uart_read_line_typed [of 0 ?l 64 "replicate 100 CHR 0x00" cs] assms(4) by simp
  then show ?thesis using assms
    by (simp add: receive_console_cmd_def uart_read_line_def scan_command_typed mem_words_def le32_htonl del: drop_replicate)
qed

lemma typed_integer: "n < 2 ^ 32 \<Longrightarrow> typed_value e (dec n) = Ret (of_nat n)"
proof -
  have "CHR ''.'' \<notin> set (dec n)" using digits_dec [of n] digit_not by (auto simp: digits_def)
  then show "n < 2 ^ 32 \<Longrightarrow> ?thesis" by (simp add: typed_value_def scan_u_dec)
qed

lemma program_ip_typed:
  assumes f: "frees (drv e) 1" and j: "\<And>s. 40 \<le> length (ip_addr_junk e s)"
    and len: "length A = 4" "length M = 4" "length G = 4"
    and old: "length (ipaddr (ip_settings s)) = 4" "length (ipmask (ip_settings s)) = 4" "length (ipgw (ip_settings s)) = 4"
    and i: "inp s = dotted A @ CHR 0x0D # dotted M @ CHR 0x0D # dotted G @ CHR 0x0D # cs"
  shows "\<exists>h. program_ip e s = Ret (s\<lparr>inp := cs, ip_settings := \<lparr>ipaddr = A, ipmask = M, ipgw = G\<rparr>, iic := h\<rparr>)
    \<and> transfers h = transfers (iic s) @ [MasterSend 1 (0 # A) IIC_EEPROM_ADDR, MasterSend 1 (16 # M) IIC_EEPROM_ADDR,
        MasterSend 1 (32 # G) IIC_EEPROM_ADDR]"
proof -
  let ?s = "s\<lparr>inp := cs, ip_settings := \<lparr>ipaddr = A, ipmask = M, ipgw = G\<rparr>\<rparr>"
  obtain h1 where h1: "eeprom_write e 0 A 4 ?s = Ret (?s\<lparr>iic := h1\<rparr>)"
    "transfers h1 = transfers (iic s) @ [MasterSend 1 (0 # A) IIC_EEPROM_ADDR]"
    using eeprom_write_sends [OF f len(1), of 0 ?s] by auto
  obtain h2 where h2: "eeprom_write e 16 M 4 (?s\<lparr>iic := h1\<rparr>) = Ret (?s\<lparr>iic := h2\<rparr>)"
    "transfers h2 = transfers h1 @ [MasterSend 1 (16 # M) IIC_EEPROM_ADDR]"
    using eeprom_write_sends [OF f len(2), of 16 "?s\<lparr>iic := h1\<rparr>"] by auto
  obtain h3 where h3: "eeprom_write e 32 G 4 (?s\<lparr>iic := h2\<rparr>) = Ret (?s\<lparr>iic := h3\<rparr>)"
    "transfers h3 = transfers h2 @ [MasterSend 1 (32 # G) IIC_EEPROM_ADDR]"
    using eeprom_write_sends [OF f len(3), of 32 "?s\<lparr>iic := h2\<rparr>"] by auto
  have r: "(ip_settings s)\<lparr>ipaddr := A, ipmask := M, ipgw := G\<rparr> = \<lparr>ipaddr = A, ipmask = M, ipgw = G\<rparr>"
    by (cases "ip_settings s") simp
  have "program_ip e s = Ret (?s\<lparr>iic := h3\<rparr>)"
    using menu_get_ipaddr_typed [OF len(1) old(1) j i] menu_get_ipaddr_typed [OF len(2) old(2) j]
      menu_get_ipaddr_typed [OF len(3) old(3) j] h1(1) h2(1) h3(1)
    by (simp add: program_ip_def Let_def r)
  then show ?thesis using h1(2) h2(2) h3(2) by auto
qed

lemma length_dec: "n < 10 ^ k \<Longrightarrow> 0 < k \<Longrightarrow> length (dec n) \<le> k"
proof (induction k arbitrary: n)
  case (Suc k)
  show ?case
  proof (cases "n < 10")
    case True
    then show ?thesis by (subst dec.simps) simp
  next
    case False
    then have "0 < k" using Suc.prems by (cases k) auto
    moreover have "n div 10 < 10 ^ k" using Suc.prems(1) by (simp add: less_mult_imp_div_less mult.commute)
    ultimately show ?thesis using Suc.IH [of "n div 10"] False by (subst dec.simps) simp
  qed
qed simp

lemma length_dec_u32: "n < 2 ^ 32 \<Longrightarrow> length (dec n) \<le> 10"
  by (rule length_dec) simp_all

lemma word_arg_dec: "n < 2 ^ 32 \<Longrightarrow> word_arg (dec n)"
  using digits_dec [of n] length_dec_u32 [of n] digit_not by (auto simp: word_arg_def digits_def)

text \<open>A command whose three parts are numbers.\<close>

lemma number_command:
  assumes "chan < 2 ^ 32" "mid < 2 ^ 32" "n < 2 ^ 32" "inp s = command_line chan mid (dec n) @ CHR 0x0D # cs"
  shows "receive_console_cmd e s = (case settings_junk e (hw s) of (header0, stack) \<Rightarrow>
     run_bind (chan_settings (brd e) header0 stack (of_nat chan) (be32 (of_nat mid) @ be32 (of_nat n)) (hw s)) (\<lambda>t. Ret (s\<lparr>inp := cs, hw := t\<rparr>)))"
proof -
  have "length (command_line chan mid (dec n)) < 63"
    using length_dec_u32 [of chan] length_dec_u32 [of mid] length_dec_u32 [of n] assms(1-3) by (simp add: command_line_def)
  then show ?thesis
    using command_typed [OF assms(1,2) word_arg_dec [OF assms(3)] _ assms(4), of e] typed_integer [OF assms(3), of e] by simp
qed

lemma chan_settings_bytes: "chan_settings b h st c (be32 a @ be32 u) s = chan_set b h st c a u s"
  by (simp add: chan_settings_def ld32_def htonl_of_le32 be32.dec_take be32.length_enc be32.dec_enc)

lemma chan_set_on1: "chan_set b h0 st c 268 u s = chan_out b c DIGOUT_ON1_REG u s"
  and chan_set_ampspersec: "chan_set b h0 st c 300 u s = sf_update c (ampspersec_update (\<lambda>_. u)) s"
  by (simp_all add: chan_set_def chan_set_dac_adc_def chan_set_limits_def chan_set_misc_def)

section \<open>Properties\<close>

text \<open>A console: the board, the driver, and what is still to be typed.\<close>

definition desk_env :: console_env where
  "desk_env = \<lparr>brd = \<lparr>axi_base = 0x40000000, reg_answer = \<lambda>_ _. 0, spi_answer = \<lambda>_. []\<rparr>,
     drv = \<lparr>BusIsBusy = \<lambda>_. False, send_status = \<lambda>_. 0, recv_answer = \<lambda>_. (0, [])\<rparr>,
     sys_ctrl = 0xF8000000, strtof = \<lambda>_. 0, ip_addr_junk = \<lambda>_. replicate 40 CHR 0x55, settings_junk = \<lambda>_. (0, [])\<rparr>"

definition desk :: "string \<Rightarrow> io list \<Rightarrow> console" where
  "desk cs ops = \<lparr>inp = cs, ip_settings = \<lparr>ipaddr = [0, 0, 0, 0], ipmask = [0, 0, 0, 0], ipgw = [0, 0, 0, 0]\<rparr>, iic = [],
     hw = \<lparr>bus = ops, scalefactors = replicate 4 \<lparr>ampspersec = 0, dac_dccts = 0, vout = 0, ignd = 0, spare = 0, regulator = 0, error = 0\<rparr>,
       CONVVOLTSTODACBITS = 0, CONVDACBITSTOVOLTS = 0\<rparr>\<rparr>"

text \<open>
  C9. The console and the network set the same things: a command typed as channel, setting and value, all
  in decimal, does what the message of a client with these numbers does once it has blinked its LED; the
  characters of the line are consumed and no more.
\<close>

theorem console_command_is_message:
  assumes "chan \<in> {1, 2, 3, 4}" "mid < 2 ^ 32" "n < 2 ^ 32" "inp s = command_line chan mid (dec n) @ CHR 0x0D # cs"
    and "hw s = Xil_Out32 (glob_reg (brd e) IOC_ACCESS_REG) 0 (Xil_Out32 (glob_reg (brd e) IOC_ACCESS_REG) 1 t)"
  shows "receive_console_cmd e s =
    run_bind (client_msg (brd e) (settings_junk e) (of_nat chan) len (be32 (of_nat mid) @ be32 (of_nat n)) t)
      (\<lambda>t. Ret (s\<lparr>inp := cs, hw := t\<rparr>))"
proof -
  have "chan < 2 ^ 32" and c: "of_nat chan \<in> {1, 2, 3, 4 :: u16}" "(ucast (of_nat chan :: u16) :: u32) = of_nat chan"
    using assms(1) by auto
  from number_command [OF this(1) assms(2-4), of e] show ?thesis
    using assms(5) c by (auto simp: client_msg_def Let_def split: prod.splits)
qed

theorem console_command_is_message_witness:
  "\<exists>t. receive_console_cmd desk_env (desk (''2 268 1'' @ [CHR 0x0D]) [Wr 0x40000044 7, Wr (glob_reg (brd desk_env) IOC_ACCESS_REG) 1, Wr (glob_reg (brd desk_env) IOC_ACCESS_REG) 0]) = Ret t
    \<and> client_msg (brd desk_env) (settings_junk desk_env) 2 8 (be32 268 @ be32 1) (hw (desk [] [Wr 0x40000044 7])) = Ret (hw t)"
proof -
  let ?s = "desk (''2 268 1'' @ [CHR 0x0D]) [Wr 0x40000044 7, Wr (glob_reg (brd desk_env) IOC_ACCESS_REG) 1, Wr (glob_reg (brd desk_env) IOC_ACCESS_REG) 0]"
  let ?t = "hw (desk [] [Wr 0x40000044 7])"
  have d: "command_line 2 268 (dec 1) = ''2 268 1''" by (simp add: command_line_def dec.simps char_of_def bit_iff_odd)
  have "hw ?s = Xil_Out32 (glob_reg (brd desk_env) IOC_ACCESS_REG) 0 (Xil_Out32 (glob_reg (brd desk_env) IOC_ACCESS_REG) 1 ?t)"
    by (simp add: desk_def Xil_Out32_def)
  moreover have "inp ?s = command_line 2 268 (dec 1) @ [CHR 0x0D]" by (simp add: desk_def d [unfolded One_nat_def])
  moreover obtain u where u: "client_msg (brd desk_env) (settings_junk desk_env) 2 8 (be32 268 @ be32 1) ?t = Ret u"
    by (simp add: client_msg_def Let_def desk_env_def chan_settings_bytes chan_set_on1 chan_out_def)
  ultimately have "receive_console_cmd desk_env ?s = Ret (?s\<lparr>inp := [], hw := u\<rparr>)"
    using console_command_is_message [of 2 268 1 ?s "[]" desk_env ?t 8] by simp
  then show ?thesis using u by simp
qed

text \<open>
  C24. Three addresses typed at the console are stored in the EEPROM as their bytes, at 0, 16 and 32.
\<close>

theorem program_ip_stores:
  assumes "frees (drv e) 1" "\<And>s. 40 \<le> length (ip_addr_junk e s)"
    and "length A = 4" "length M = 4" "length G = 4"
    and "length (ipaddr (ip_settings s)) = 4" "length (ipmask (ip_settings s)) = 4" "length (ipgw (ip_settings s)) = 4"
    and "inp s = dotted A @ CHR 0x0D # dotted M @ CHR 0x0D # dotted G @ CHR 0x0D # cs"
  shows "\<exists>h. program_ip e s = Ret (s\<lparr>inp := cs, ip_settings := \<lparr>ipaddr = A, ipmask = M, ipgw = G\<rparr>, iic := h\<rparr>)
    \<and> transfers h = transfers (iic s) @ [MasterSend 1 (0 # A) IIC_EEPROM_ADDR, MasterSend 1 (16 # M) IIC_EEPROM_ADDR,
        MasterSend 1 (32 # G) IIC_EEPROM_ADDR]"
  by (rule program_ip_typed [OF assms])

theorem program_ip_stores_witness:
  "\<exists>h. program_ip desk_env (desk (''10.0.142.7'' @ CHR 0x0D # ''255.255.255.0'' @ CHR 0x0D # ''10.0.142.1'' @ [CHR 0x0D]) []) =
      Ret ((desk [] [])\<lparr>ip_settings := \<lparr>ipaddr = [10, 0, 142, 7], ipmask = [255, 255, 255, 0], ipgw = [10, 0, 142, 1]\<rparr>, iic := h\<rparr>)
    \<and> transfers h = [MasterSend 1 [0, 10, 0, 142, 7] IIC_EEPROM_ADDR, MasterSend 1 [16, 255, 255, 255, 0] IIC_EEPROM_ADDR,
        MasterSend 1 [32, 10, 0, 142, 1] IIC_EEPROM_ADDR]"
proof -
  have d: "dotted [10, 0, 142, 7] = ''10.0.142.7''" "dotted [255, 255, 255, 0] = ''255.255.255.0''" "dotted [10, 0, 142, 1] = ''10.0.142.1''"
    by (simp_all add: dotted_def dec.simps char_of_def bit_iff_odd)
  have f: "frees (drv desk_env) 1" by (simp add: frees_def desk_env_def)
  show ?thesis
    using program_ip_stores [OF f, of "[10, 0, 142, 7]" "[255, 255, 255, 0]" "[10, 0, 142, 1]"
      "desk (''10.0.142.7'' @ CHR 0x0D # ''255.255.255.0'' @ CHR 0x0D # ''10.0.142.1'' @ [CHR 0x0D]) []" "[]"] unfolding d
    by (simp add: desk_env_def desk_def)
qed

text \<open>
  A line typed at the console never leaves the buffer of the command, whatever is typed: the result
  of reading it is terminated inside the 64 characters allowed, or the line is not finished.
\<close>

theorem console_line_in_buffer:
  "uart_read_line (replicate 100 c) MAX_INPUT_LEN s = Hang \<or>
   (\<exists>b cs. uart_read_line (replicate 100 c) MAX_INPUT_LEN s = Ret (b, s\<lparr>inp := cs\<rparr>) \<and> length b = 100 \<and> (\<exists>k<MAX_INPUT_LEN. b ! k = CHR 0x00))"
  using uart_read_bounds [of 0 64 "replicate 100 c" "inp s"]
  by (cases "uart_read 64 0 (replicate 100 c) (inp s)") (auto simp: uart_read_line_def)

text \<open>
  The channel number typed at the console is not checked: a digital output of any number of a channel
  is written, wherever that is on the bus (channel 0 hits the global registers), and a scale factor of a
  channel other than 1 to 4 is stored outside the array.
\<close>

theorem console_channel_unchecked:
  assumes "chan < 2 ^ 32" "n < 2 ^ 32" "length (scalefactors (hw s)) = 4"
  shows "(inp s = command_line chan 268 (dec n) @ CHR 0x0D # cs \<longrightarrow> receive_console_cmd e s =
      Ret (s\<lparr>inp := cs, hw := Xil_Out32 (chan_reg (brd e) (of_nat chan) DIGOUT_ON1_REG) (of_nat n) (hw s)\<rparr>)) \<and>
    (chan \<notin> {1, 2, 3, 4} \<and> inp s = command_line chan 300 (dec n) @ CHR 0x0D # cs \<longrightarrow> receive_console_cmd e s = Undef Out_Of_Bounds)"
proof -
  have m: "(268 :: nat) < 2 ^ 32" "(300 :: nat) < 2 ^ 32" by simp_all
  have "\<not> unat (of_nat chan - 1 :: u32) < 4" if "chan \<notin> {1, 2, 3, 4}"
  proof (cases chan)
    case (Suc k)
    then have "of_nat chan - 1 = (of_nat k :: u32)" by simp
    then have "unat (of_nat chan - 1 :: u32) = k" using assms(1) Suc by simp
    then show ?thesis using that Suc by auto
  qed (simp add: unsigned_minus_1_eq_mask mask_eq_exp_minus_1)
  then show ?thesis
    using number_command [OF assms(1) m(1) assms(2), of s cs e] number_command [OF assms(1) m(2) assms(2), of s cs e] assms(3)
    by (auto simp: chan_settings_bytes chan_set_on1 chan_set_ampspersec chan_out_def sf_update_def split: prod.splits)
qed

theorem console_channel_unchecked_witness:
  "receive_console_cmd desk_env (desk (''0 268 1'' @ [CHR 0x0D]) []) = Ret (desk [] [Wr (glob_reg (brd desk_env) DIGOUT_ON1_REG) 1])
    \<and> receive_console_cmd desk_env (desk (''5 300 1'' @ [CHR 0x0D]) []) = Undef Out_Of_Bounds"
proof -
  have d: "command_line 0 268 (dec 1) = ''0 268 1''" "command_line 5 300 (dec 1) = ''5 300 1''"
    by (simp_all add: command_line_def dec.simps char_of_def bit_iff_odd)
  show ?thesis
    using console_channel_unchecked [of 0 1 "desk (''0 268 1'' @ [CHR 0x0D]) []" "[]" desk_env]
      console_channel_unchecked [of 5 1 "desk (''5 300 1'' @ [CHR 0x0D]) []" "[]" desk_env]
    unfolding d by (simp add: desk_def chan_reg_def glob_reg_def Xil_Out32_def)
qed

text \<open>
  A backspace at the start of an address is a store outside the buffer: the unsigned index wraps.
\<close>

theorem console_backspace_underruns:
  assumes "inp s = CHR 0x08 # c # cs" "c \<noteq> CHR 0x08" "length (ip_addr_junk e s) = 40"
  shows "menu_get_ipaddr e octets s = Undef Out_Of_Bounds"
  using assms by (simp add: menu_get_ipaddr_def unsigned_minus_1_eq_mask mask_eq_exp_minus_1)

theorem console_backspace_underruns_witness:
  "menu_get_ipaddr desk_env [0, 0, 0, 0] (desk [CHR 0x08, CHR ''1''] []) = Undef Out_Of_Bounds"
  by (rule console_backspace_underruns [of _ "CHR ''1''" "[]"]) (simp_all add: desk_def desk_env_def)

end
