(* ===== verification/Tftp.thy ===== *)
theory Tftp
  imports Psc_Prelude
begin

text \<open>
  tftp_server.c: the TFTP server, which answers datagrams on the network thread, one connection at a
  time; and tftp_handler.c, which gives it the files of the SD card.

  Parameters: lwIP's packet buffers and address binding (\<open>lwip\<close>) and the file system FatFs
  (\<open>fatfs\<close>). The server reaches files through a \<open>tftp_context\<close> only. An incoming packet buffer is
  its chain of payloads. What goes out is the list \<open>sent\<close> of datagrams; \<open>timers\<close> counts the pending
  timeouts of \<open>tftp_tmr\<close>. Debug output is not modelled.
\<close>

section \<open>The server's state\<close>

abbreviation (input) TFTP_MAX_PAYLOAD_SIZE :: nat where "TFTP_MAX_PAYLOAD_SIZE \<equiv> 512"
abbreviation (input) TFTP_HEADER_LENGTH :: nat where "TFTP_HEADER_LENGTH \<equiv> 4"
abbreviation (input) TFTP_RRQ :: u16 where "TFTP_RRQ \<equiv> 1"
abbreviation (input) TFTP_WRQ :: u16 where "TFTP_WRQ \<equiv> 2"
abbreviation (input) TFTP_DATA :: u16 where "TFTP_DATA \<equiv> 3"
abbreviation (input) TFTP_ACK :: u16 where "TFTP_ACK \<equiv> 4"
abbreviation (input) TFTP_ERROR :: u16 where "TFTP_ERROR \<equiv> 5"
abbreviation (input) TFTP_TIMEOUT_MSECS :: int where "TFTP_TIMEOUT_MSECS \<equiv> 10000"
abbreviation (input) TFTP_TIMER_MSECS :: int where "TFTP_TIMER_MSECS \<equiv> TFTP_TIMEOUT_MSECS div 10"
abbreviation (input) TFTP_MAX_RETRIES :: u8 where "TFTP_MAX_RETRIES \<equiv> 5"
abbreviation (input) TFTP_MAX_FILENAME_LEN :: u16 where "TFTP_MAX_FILENAME_LEN \<equiv> 20"
abbreviation (input) TFTP_MAX_MODE_LEN :: u16 where "TFTP_MAX_MODE_LEN \<equiv> 7"

datatype tftp_error =
    TFTP_ERROR_FILE_NOT_FOUND
  | TFTP_ERROR_ACCESS_VIOLATION
  | TFTP_ERROR_DISK_FULL
  | TFTP_ERROR_ILLEGAL_OPERATION
  | TFTP_ERROR_UNKNOWN_TRFR_ID
  | TFTP_ERROR_FILE_EXISTS
  | TFTP_ERROR_NO_SUCH_USER

fun tftp_error_code :: "tftp_error \<Rightarrow> u16" where
  "tftp_error_code TFTP_ERROR_FILE_NOT_FOUND = 1"
| "tftp_error_code TFTP_ERROR_ACCESS_VIOLATION = 2"
| "tftp_error_code TFTP_ERROR_DISK_FULL = 3"
| "tftp_error_code TFTP_ERROR_ILLEGAL_OPERATION = 4"
| "tftp_error_code TFTP_ERROR_UNKNOWN_TRFR_ID = 5"
| "tftp_error_code TFTP_ERROR_FILE_EXISTS = 6"
| "tftp_error_code TFTP_ERROR_NO_SUCH_USER = 7"

type_synonym pbuf = "u8 list list"

definition tot_len :: "pbuf \<Rightarrow> nat" where
  "tot_len p = length (concat p)"

text \<open>
  The callbacks. A \<open>read\<close> that fails (a negative result) is \<open>None\<close>, else what it put into the buffer.
\<close>

record ('h, 'f) tftp_context =
  open_cb :: "string \<Rightarrow> string \<Rightarrow> bool \<Rightarrow> 'f \<Rightarrow> 'h option \<times> 'f"
  close_cb :: "'h \<Rightarrow> 'f \<Rightarrow> 'f"
  read_cb :: "'h \<Rightarrow> nat \<Rightarrow> 'f \<Rightarrow> u8 list option \<times> 'f"
  write_cb :: "'h \<Rightarrow> pbuf \<Rightarrow> 'f \<Rightarrow> int \<times> 'f"

record 'h tftp_state =
  handle :: "'h option"
  last_data :: "u8 list option"
  upcb :: "nat option"
  addr :: u32
  port :: u16
  timer :: s32
  last_pkt :: s32
  blknum :: u16
  retries :: u8
  mode_write :: u8

record ('h, 'f) tftp = "'h tftp_state" +
  files :: 'f
  sent :: "(u32 \<times> u16 \<times> u8 list) list"
  timers :: nat
  nalloc :: nat

text \<open>
  What the server uses of lwIP: whether the \<open>n\<close>-th \<open>pbuf_alloc\<close> succeeds, where a byte is found
  (0xFFFF for nowhere), a copy out of a chain, the chain without a header, and the copy of a buffer
  into one of the same size.
\<close>

record lwip =
  pbuf_alloc :: "nat \<Rightarrow> bool"
  pbuf_memfind :: "pbuf \<Rightarrow> u8 \<Rightarrow> u16 \<Rightarrow> u16"
  pbuf_copy_partial :: "pbuf \<Rightarrow> u16 \<Rightarrow> u16 \<Rightarrow> u8 list"
  pbuf_remove_header :: "pbuf \<Rightarrow> nat \<Rightarrow> pbuf"
  pbuf_copy :: "u8 list \<Rightarrow> u8 list option"

section \<open>Sending\<close>

text \<open>\<open>ip_addr_isany_val\<close>: the address 0.0.0.0.\<close>

definition close_handle :: "('h, 'f) tftp_context \<Rightarrow> ('h, 'f) tftp \<Rightarrow> ('h, 'f) tftp" where
  "close_handle c s =
     (let s = s\<lparr>port := 0, addr := 0, last_data := None, timers := timers s - 1\<rparr>
      in case handle s of None \<Rightarrow> s | Some h \<Rightarrow> s\<lparr>files := close_cb c h (files s), handle := None\<rparr>)"

definition udp_sendto :: "u8 list \<Rightarrow> u32 \<Rightarrow> u16 \<Rightarrow> ('h, 'f) tftp \<Rightarrow> ('h, 'f) tftp" where
  "udp_sendto bs a pt s = s\<lparr>sent := sent s @ [(a, pt, bs)]\<rparr>"

text \<open>A buffer to send: \<open>k\<close> goes on when there is one.\<close>

definition with_pbuf :: "lwip \<Rightarrow> (('h, 'f) tftp \<Rightarrow> ('h, 'f) tftp) \<Rightarrow> ('h, 'f) tftp \<Rightarrow> ('h, 'f) tftp" where
  "with_pbuf l k s =
     (let ok = pbuf_alloc l (nalloc s); s = s\<lparr>nalloc := nalloc s + 1\<rparr> in if ok then k s else s)"

text \<open>The halfwords of a packet are stored through \<open>lwip_htons\<close>: network order.\<close>

definition error_packet :: "tftp_error \<Rightarrow> string \<Rightarrow> u8 list" where
  "error_packet code str = be16 TFTP_ERROR @ be16 (tftp_error_code code) @ map of_char str @ [0]"

definition ack_packet :: "u16 \<Rightarrow> u8 list" where
  "ack_packet n = be16 TFTP_ACK @ be16 n"

definition data_packet :: "u16 \<Rightarrow> u8 list \<Rightarrow> u8 list" where
  "data_packet n bs = be16 TFTP_DATA @ be16 n @ bs"

definition send_error :: "lwip \<Rightarrow> u32 \<Rightarrow> u16 \<Rightarrow> tftp_error \<Rightarrow> string \<Rightarrow> ('h, 'f) tftp \<Rightarrow> ('h, 'f) tftp" where
  "send_error l a pt code str = with_pbuf l (udp_sendto (error_packet code str) a pt)"

definition send_ack :: "lwip \<Rightarrow> u16 \<Rightarrow> ('h, 'f) tftp \<Rightarrow> ('h, 'f) tftp" where
  "send_ack l n = with_pbuf l (\<lambda>s. udp_sendto (ack_packet n) (addr s) (port s) s)"

text \<open>\<open>d\<close> is \<open>tftp_state.last_data\<close>, which every caller knows to be there.\<close>

definition resend_data :: "lwip \<Rightarrow> u8 list \<Rightarrow> ('h, 'f) tftp \<Rightarrow> ('h, 'f) tftp" where
  "resend_data l d =
     with_pbuf l (\<lambda>s. case pbuf_copy l d of None \<Rightarrow> s | Some q \<Rightarrow> udp_sendto q (addr s) (port s) s)"

text \<open>\<open>h\<close> is \<open>tftp_state.handle\<close>, which every caller has checked. The old packet is freed first.\<close>

definition send_data :: "lwip \<Rightarrow> ('h, 'f) tftp_context \<Rightarrow> 'h \<Rightarrow> ('h, 'f) tftp \<Rightarrow> ('h, 'f) tftp" where
  "send_data l c h s =
     with_pbuf l (\<lambda>s.
       case read_cb c h TFTP_MAX_PAYLOAD_SIZE (files s) of
         (None, fs) \<Rightarrow>
           close_handle c (send_error l (addr s) (port s) TFTP_ERROR_ACCESS_VIOLATION
             ''Error occurred while reading the file.'' (s\<lparr>files := fs\<rparr>))
       | (Some bs, fs) \<Rightarrow>
           let d = data_packet (blknum s) bs in resend_data l d (s\<lparr>files := fs, last_data := Some d\<rparr>))
     (s\<lparr>last_data := None\<rparr>)"

section \<open>Receiving\<close>

text \<open>The \<open>i\<close>-th halfword of the first buffer of the chain. Nothing checks that it is there.\<close>

definition sbuf :: "pbuf \<Rightarrow> nat \<Rightarrow> u16 run" where
  "sbuf p i = (case p of [] \<Rightarrow> Undef Out_Of_Bounds
     | q # _ \<Rightarrow> if 2 * i + 2 \<le> length q then Ret (of_be16 (drop (2 * i) q)) else Undef Out_Of_Bounds)"

definition c_string :: "u8 list \<Rightarrow> string" where
  "c_string bs = map (\<lambda>b. char_of (unat b)) (takeWhile (\<lambda>b. b \<noteq> 0) bs)"

definition recv_request :: "lwip \<Rightarrow> ('h, 'f) tftp_context \<Rightarrow> bool \<Rightarrow> pbuf \<Rightarrow> u32 \<Rightarrow> u16 \<Rightarrow> ('h, 'f) tftp \<Rightarrow> ('h, 'f) tftp" where
  "recv_request l c write p a pt s =
     (if handle s \<noteq> None
      then send_error l a pt TFTP_ERROR_ACCESS_VIOLATION ''Only one connection at a time is supported'' s
      else
        let s = s\<lparr>timers := timers s + 1\<rparr>;
            filename_end_offset = pbuf_memfind l p 0 2
        in if filename_end_offset - 1 > TFTP_MAX_FILENAME_LEN + 1
           then send_error l a pt TFTP_ERROR_ACCESS_VIOLATION ''Filename too long/not NULL terminated'' s
           else
             let filename = pbuf_copy_partial l p (filename_end_offset - 1) 2;
                 mode_end_offset = pbuf_memfind l p 0 (filename_end_offset + 1)
             in if mode_end_offset - filename_end_offset > TFTP_MAX_MODE_LEN + 1
                then send_error l a pt TFTP_ERROR_ACCESS_VIOLATION ''Mode too long/not NULL terminated'' s
                else
                  let mode = pbuf_copy_partial l p (mode_end_offset - filename_end_offset) (filename_end_offset + 1);
                      (h, fs) = open_cb c (c_string filename) (c_string mode) write (files s);
                      s = s\<lparr>handle := h, files := fs, blknum := 1\<rparr>
                  in case h of
                       None \<Rightarrow> send_error l a pt TFTP_ERROR_FILE_NOT_FOUND ''Unable to open requested file.'' s
                     | Some h \<Rightarrow>
                         let s = s\<lparr>addr := a, port := pt\<rparr>
                         in if write then send_ack l 0 (s\<lparr>mode_write := 1\<rparr>)
                            else send_data l c h (s\<lparr>mode_write := 0\<rparr>))"

definition recv_data :: "lwip \<Rightarrow> ('h, 'f) tftp_context \<Rightarrow> pbuf \<Rightarrow> u32 \<Rightarrow> u16 \<Rightarrow> ('h, 'f) tftp \<Rightarrow> ('h, 'f) tftp run" where
  "recv_data l c p a pt s =
     (case handle s of
        None \<Rightarrow> Ret (send_error l a pt TFTP_ERROR_ACCESS_VIOLATION ''No connection'' s)
      | Some h \<Rightarrow>
          if mode_write s \<noteq> 1
          then Ret (send_error l a pt TFTP_ERROR_ACCESS_VIOLATION ''Not a write connection'' s)
          else run_bind (sbuf p 1) (\<lambda>n. Ret (
            if n = blknum s then
              let p = pbuf_remove_header l p TFTP_HEADER_LENGTH;
                  (ret, fs) = write_cb c h p (files s);
                  s = s\<lparr>files := fs\<rparr>;
                  s = (if ret < 0
                       then close_handle c (send_error l a pt TFTP_ERROR_ACCESS_VIOLATION ''error writing file'' s)
                       else send_ack l n s)
              in if tot_len p < TFTP_MAX_PAYLOAD_SIZE then close_handle c s else s\<lparr>blknum := blknum s + 1\<rparr>
            else if n + 1 = blknum s then send_ack l n s
            else send_error l a pt TFTP_ERROR_UNKNOWN_TRFR_ID ''Wrong block number'' s)))"

definition recv_ack :: "lwip \<Rightarrow> ('h, 'f) tftp_context \<Rightarrow> pbuf \<Rightarrow> u32 \<Rightarrow> u16 \<Rightarrow> ('h, 'f) tftp \<Rightarrow> ('h, 'f) tftp run" where
  "recv_ack l c p a pt s =
     (case handle s of
        None \<Rightarrow> Ret (send_error l a pt TFTP_ERROR_ACCESS_VIOLATION ''No connection'' s)
      | Some h \<Rightarrow>
          if mode_write s \<noteq> 0
          then Ret (send_error l a pt TFTP_ERROR_ACCESS_VIOLATION ''Not a read connection'' s)
          else run_bind (sbuf p 1) (\<lambda>n. Ret (
            if n \<noteq> blknum s then send_error l a pt TFTP_ERROR_UNKNOWN_TRFR_ID ''Wrong block number'' s
            else
              let lastpkt = (case last_data s of None \<Rightarrow> False
                    | Some d \<Rightarrow> length d \<noteq> TFTP_MAX_PAYLOAD_SIZE + TFTP_HEADER_LENGTH)
              in if \<not> lastpkt then send_data l c h (s\<lparr>blknum := blknum s + 1\<rparr>) else close_handle c s)))"

definition other_peer :: "u32 \<Rightarrow> u16 \<Rightarrow> ('h, 'f) tftp \<Rightarrow> bool" where
  "other_peer a pt s \<longleftrightarrow> port s \<noteq> 0 \<and> pt \<noteq> port s \<or> addr s \<noteq> 0 \<and> addr s \<noteq> a"

definition recv :: "lwip \<Rightarrow> ('h, 'f) tftp_context \<Rightarrow> pbuf \<Rightarrow> u32 \<Rightarrow> u16 \<Rightarrow> ('h, 'f) tftp \<Rightarrow> ('h, 'f) tftp run" where
  "recv l c p a pt s =
     (if other_peer a pt s
      then Ret (send_error l a pt TFTP_ERROR_ACCESS_VIOLATION ''Only one connection at a time is supported'' s)
      else run_bind (sbuf p 0) (\<lambda>opcode.
        let s = s\<lparr>last_pkt := timer s, retries := 0\<rparr>
        in if opcode = TFTP_RRQ \<or> opcode = TFTP_WRQ then Ret (recv_request l c (opcode = TFTP_WRQ) p a pt s)
           else if opcode = TFTP_DATA then recv_data l c p a pt s
           else if opcode = TFTP_ACK then recv_ack l c p a pt s
           else Ret (send_error l a pt TFTP_ERROR_ILLEGAL_OPERATION ''Unknown operation'' s)))"

section \<open>Time\<close>

text \<open>A timeout fires once; the handler asks for the next. The counter of seconds wraps after 2^32.\<close>

definition tftp_tmr :: "lwip \<Rightarrow> ('h, 'f) tftp_context \<Rightarrow> ('h, 'f) tftp \<Rightarrow> ('h, 'f) tftp" where
  "tftp_tmr l c s =
     (let s = s\<lparr>timers := timers s - 1, timer := timer s + 1\<rparr>
      in if handle s = None then s
         else
           let s = s\<lparr>timers := timers s + 1\<rparr>
           in if sint (timer s - last_pkt s) > TFTP_TIMEOUT_MSECS div TFTP_TIMER_MSECS
              then (case last_data s of
                      Some d \<Rightarrow>
                        if retries s < TFTP_MAX_RETRIES
                        then let s = resend_data l d s in s\<lparr>retries := retries s + 1\<rparr>
                        else close_handle c s
                    | None \<Rightarrow> close_handle c s)
              else s)"

section \<open>Start and end\<close>

text \<open>\<open>udp_new\<close> and \<open>udp_bind\<close>: the new control block if there is one, and the error of the binding.\<close>

abbreviation (input) ERR_MEM :: int where "ERR_MEM \<equiv> -1"

definition tftp_init :: "nat option \<Rightarrow> int \<Rightarrow> ('h, 'f) tftp \<Rightarrow> int \<times> ('h, 'f) tftp" where
  "tftp_init udp_new udp_bind s =
     (case udp_new of None \<Rightarrow> (ERR_MEM, s)
      | Some pcb \<Rightarrow>
          if udp_bind \<noteq> 0 then (udp_bind, s)
          else (0, s\<lparr>handle := None, port := 0, timer := 0, last_data := None, upcb := Some pcb\<rparr>))"

definition tftp_cleanup :: "('h, 'f) tftp_context \<Rightarrow> ('h, 'f) tftp \<Rightarrow> ('h, 'f) tftp" where
  "tftp_cleanup c s =
     (close_handle c s)\<lparr>handle := None, last_data := None, upcb := None, addr := 0, port := 0, timer := 0,
        last_pkt := 0, blknum := 0, retries := 0, mode_write := 0\<rparr>"

section \<open>The files of the SD card\<close>

text \<open>
  FatFs: every call gives its \<open>FRESULT\<close> (0 is \<open>FR_OK\<close>). There is one static file object, so the
  handle is its address and carries nothing.
\<close>

datatype fmode = FA_OPEN_ALWAYS_WRITE | FA_OPEN_EXISTING_READ

record 'f fatfs =
  f_open :: "string \<Rightarrow> fmode \<Rightarrow> 'f \<Rightarrow> nat \<times> 'f"
  f_close :: "'f \<Rightarrow> nat \<times> 'f"
  f_read :: "nat \<Rightarrow> 'f \<Rightarrow> nat \<times> u8 list \<times> 'f"
  f_write :: "u8 list \<Rightarrow> 'f \<Rightarrow> nat \<times> nat \<times> 'f"

definition tftp_sdcard_open :: "'f fatfs \<Rightarrow> string \<Rightarrow> string \<Rightarrow> bool \<Rightarrow> 'f \<Rightarrow> unit option \<times> 'f" where
  "tftp_sdcard_open ff fname mode write fs =
     (if mode \<noteq> ''octet'' then (None, fs)
      else case f_open ff fname (if write then FA_OPEN_ALWAYS_WRITE else FA_OPEN_EXISTING_READ) fs of
             (res, fs) \<Rightarrow> (if res = 0 then Some () else None, fs))"

definition tftp_sdcard_close :: "'f fatfs \<Rightarrow> unit \<Rightarrow> 'f \<Rightarrow> 'f" where
  "tftp_sdcard_close ff h fs = snd (f_close ff fs)"

definition tftp_sdcard_read :: "'f fatfs \<Rightarrow> unit \<Rightarrow> nat \<Rightarrow> 'f \<Rightarrow> u8 list option \<times> 'f" where
  "tftp_sdcard_read ff h bytes fs =
     (case f_read ff bytes fs of (res, bs, fs) \<Rightarrow> (if res \<noteq> 0 then None else Some bs, fs))"

text \<open>The loop over the chain \<open>p\<close>, and the callback.\<close>

fun write_chain :: "'f fatfs \<Rightarrow> pbuf \<Rightarrow> 'f \<Rightarrow> int \<times> 'f" where
  "write_chain ff [] fs = (0, fs)"
| "write_chain ff (q # p) fs =
     (if tot_len (q # p) = 0 then (0, fs)
      else if q = [] then write_chain ff p fs
      else case f_write ff q fs of (res, n, fs) \<Rightarrow>
             if res \<noteq> 0 then (-1, fs)
             else if n \<noteq> length q then (-1, fs)
             else write_chain ff p fs)"

definition tftp_sdcard_write :: "'f fatfs \<Rightarrow> unit \<Rightarrow> pbuf \<Rightarrow> 'f \<Rightarrow> int \<times> 'f" where
  "tftp_sdcard_write ff h p fs = write_chain ff p fs"

definition ctxt :: "'f fatfs \<Rightarrow> (unit, 'f) tftp_context" where
  "ctxt ff = \<lparr>open_cb = tftp_sdcard_open ff, close_cb = tftp_sdcard_close ff,
     read_cb = tftp_sdcard_read ff, write_cb = tftp_sdcard_write ff\<rparr>"

end
