(* ===== verification/Tftp_Transfer.thy ===== *)
theory Tftp_Transfer
  imports Tftp
begin

text \<open>
  What the TFTP server does with a file: a connection is a stop-and-wait transfer. The lemmas are
  proved against the interface the server has to its files (locale \<open>tftp_files\<close>), which the files of
  the SD card provide over FatFs.
\<close>

section \<open>Events\<close>

datatype tftp_event = Datagram pbuf u32 u16 | Second

definition tftp_step :: "lwip \<Rightarrow> ('h, 'f) tftp_context \<Rightarrow> tftp_event \<Rightarrow> ('h, 'f) tftp \<Rightarrow> ('h, 'f) tftp run" where
  "tftp_step l c e s =
     (case e of Datagram p a pt \<Rightarrow> recv l c p a pt s | Second \<Rightarrow> Ret (tftp_tmr l c s))"

text \<open>The events while a connection stays open.\<close>

inductive connected :: "lwip \<Rightarrow> ('h, 'f) tftp_context \<Rightarrow> ('h, 'f) tftp \<Rightarrow> tftp_event list \<Rightarrow> ('h, 'f) tftp \<Rightarrow> bool"
  for l c s where
  start: "handle s \<noteq> None \<Longrightarrow> connected l c s [] s"
| step: "connected l c s es t \<Longrightarrow> tftp_step l c e t = Ret u \<Longrightarrow> handle u \<noteq> None \<Longrightarrow> connected l c s (es @ [e]) u"

section \<open>What lwIP documents\<close>

definition find_byte :: "u8 list \<Rightarrow> u8 \<Rightarrow> nat \<Rightarrow> u16" where
  "find_byte bs b off =
     (case filter (\<lambda>i. bs ! i = b) [off..<length bs] of [] \<Rightarrow> 0xFFFF | i # _ \<Rightarrow> of_nat i)"

definition lwip_doc :: "lwip \<Rightarrow> bool" where
  "lwip_doc l \<longleftrightarrow>
     (\<forall>d. pbuf_copy l d = Some d) \<and>
     (\<forall>q p n. n \<le> length q \<longrightarrow> pbuf_remove_header l (q # p) n = drop n q # p) \<and>
     (\<forall>p b off. pbuf_memfind l p b off = find_byte (concat p) b (unat off)) \<and>
     (\<forall>p n off. pbuf_copy_partial l p n off = take (unat n) (drop (unat off) (concat p)))"

text \<open>Buffers to send are always available.\<close>

definition buffers_free :: "lwip \<Rightarrow> bool" where
  "buffers_free l \<longleftrightarrow> (\<forall>n. pbuf_alloc l n)"

lemma with_pbuf_free: "buffers_free l \<Longrightarrow> with_pbuf l k s = k (s\<lparr>nalloc := nalloc s + 1\<rparr>)"
  by (simp add: with_pbuf_def buffers_free_def Let_def)

section \<open>Packets\<close>

lemma length_be16 [simp]: "length (be16 w) = 2"
  by (simp add: be16_def)

lemma of_be16_be16 [simp]: "of_be16 (be16 w @ xs) = w"
  by (simp add: be16_def of_be16_def)

lemma sbuf_packet [simp]:
  "sbuf ((be16 m @ be16 n @ bs) # p) 0 = Ret m"
  "sbuf ((be16 m @ be16 n @ bs) # p) 1 = Ret n"
  "sbuf ((be16 m @ be16 n @ bs) # p) (Suc 0) = Ret n"
  by (simp_all add: sbuf_def)

definition is_data :: "u32 \<times> u16 \<times> u8 list \<Rightarrow> bool" where
  "is_data d = (case d of (_, _, bs) \<Rightarrow> take 2 bs = be16 TFTP_DATA)"

lemma is_data_simps [simp]:
  "is_data (a, pt, data_packet n bs)"
  "\<not> is_data (a, pt, ack_packet n)"
  "\<not> is_data (a, pt, error_packet code str)"
  by (simp_all add: is_data_def data_packet_def ack_packet_def error_packet_def be16.enc_inj)

section \<open>Sending leaves the rest alone\<close>

lemma send_error_simps [simp]:
  "handle (send_error l a pt code str s) = handle s"
  "last_data (send_error l a pt code str s) = last_data s"
  "addr (send_error l a pt code str s) = addr s"
  "port (send_error l a pt code str s) = port s"
  "blknum (send_error l a pt code str s) = blknum s"
  "mode_write (send_error l a pt code str s) = mode_write s"
  "files (send_error l a pt code str s) = files s"
  "timer (send_error l a pt code str s) = timer s"
  "last_pkt (send_error l a pt code str s) = last_pkt s"
  "retries (send_error l a pt code str s) = retries s"
  "filter is_data (sent (send_error l a pt code str s)) = filter is_data (sent s)"
  by (simp_all add: send_error_def with_pbuf_def udp_sendto_def Let_def)

lemma send_ack_simps [simp]:
  "handle (send_ack l n s) = handle s"
  "last_data (send_ack l n s) = last_data s"
  "addr (send_ack l n s) = addr s"
  "port (send_ack l n s) = port s"
  "blknum (send_ack l n s) = blknum s"
  "mode_write (send_ack l n s) = mode_write s"
  "files (send_ack l n s) = files s"
  "timer (send_ack l n s) = timer s"
  "last_pkt (send_ack l n s) = last_pkt s"
  "retries (send_ack l n s) = retries s"
  "filter is_data (sent (send_ack l n s)) = filter is_data (sent s)"
  by (simp_all add: send_ack_def with_pbuf_def udp_sendto_def Let_def)

lemma resend_data_simps [simp]:
  "handle (resend_data l d s) = handle s"
  "last_data (resend_data l d s) = last_data s"
  "addr (resend_data l d s) = addr s"
  "port (resend_data l d s) = port s"
  "blknum (resend_data l d s) = blknum s"
  "mode_write (resend_data l d s) = mode_write s"
  "files (resend_data l d s) = files s"
  "timer (resend_data l d s) = timer s"
  "last_pkt (resend_data l d s) = last_pkt s"
  "retries (resend_data l d s) = retries s"
  by (simp_all add: resend_data_def with_pbuf_def udp_sendto_def Let_def split: option.splits)

lemma close_handle_simps [simp]:
  "handle (close_handle c s) = None"
  "last_data (close_handle c s) = None"
  "sent (close_handle c s) = sent s"
  by (simp_all add: close_handle_def Let_def split: option.splits)

section \<open>The interface to the files\<close>

text \<open>\<open>reads h xs fs\<close>: \<open>h\<close> is open in \<open>fs\<close> with \<open>xs\<close> left to read. \<open>writes h n fs\<close>: \<open>h\<close> is open for
  writing at offset \<open>n\<close>, and the whole file is \<open>content fs\<close>.\<close>

definition overwrite :: "nat \<Rightarrow> u8 list \<Rightarrow> u8 list \<Rightarrow> u8 list" where
  "overwrite n bs xs = take n xs @ bs @ drop (n + length bs) xs"

lemma overwrite_Nil [simp]: "overwrite n [] xs = xs"
  by (simp add: overwrite_def)

lemma overwrite_overwrite:
  "n \<le> length xs \<Longrightarrow> overwrite (n + length as) bs (overwrite n as xs) = overwrite n (as @ bs) xs"
  by (simp add: overwrite_def min_def ac_simps)

lemma length_overwrite: "n \<le> length xs \<Longrightarrow> n + length bs \<le> length (overwrite n bs xs)"
  by (simp add: overwrite_def)

section \<open>The transfers as they should be\<close>

text \<open>
  A peer reads a file: it acknowledges blocks, and the number of blocks it has acknowledged in order
  says which block it waits for. A peer writes a file: the blocks that arrive with the number that is
  next are what it has written.
\<close>

definition halfword_of :: "u32 \<Rightarrow> u16 \<Rightarrow> u16 \<Rightarrow> tftp_event \<Rightarrow> u16 option" where
  "halfword_of a pt opcode e =
     (case e of Datagram p a' pt' \<Rightarrow>
        (if a' = a \<and> pt' = pt \<and> sbuf p 0 = Ret opcode
         then (case sbuf p 1 of Ret n \<Rightarrow> Some n | _ \<Rightarrow> None) else None)
      | Second \<Rightarrow> None)"

definition count_ack :: "u32 \<Rightarrow> u16 \<Rightarrow> nat \<Rightarrow> tftp_event \<Rightarrow> nat" where
  "count_ack a pt k e = (if halfword_of a pt TFTP_ACK e = Some (of_nat (k + 1)) then k + 1 else k)"

definition acked :: "u32 \<Rightarrow> u16 \<Rightarrow> tftp_event list \<Rightarrow> nat" where
  "acked a pt es = foldl (count_ack a pt) 0 es"

definition payload_of :: "tftp_event \<Rightarrow> u8 list" where
  "payload_of e = (case e of Datagram p _ _ \<Rightarrow> drop 4 (concat p) | Second \<Rightarrow> [])"

definition accept_block :: "u32 \<Rightarrow> u16 \<Rightarrow> u8 list list \<Rightarrow> tftp_event \<Rightarrow> u8 list list" where
  "accept_block a pt bs e =
     (if halfword_of a pt TFTP_DATA e = Some (of_nat (length bs + 1)) then bs @ [payload_of e] else bs)"

definition accepted :: "u32 \<Rightarrow> u16 \<Rightarrow> tftp_event list \<Rightarrow> u8 list list" where
  "accepted a pt es = foldl (accept_block a pt) [] es"

lemma acked_simps [simp]:
  "acked a pt [] = 0" "acked a pt (es @ [e]) = count_ack a pt (acked a pt es) e"
  by (simp_all add: acked_def)

lemma accepted_simps [simp]:
  "accepted a pt [] = []" "accepted a pt (es @ [e]) = accept_block a pt (accepted a pt es) e"
  by (simp_all add: accepted_def)

text \<open>The blocks of a file: the last is short, perhaps empty.\<close>

definition block :: "u8 list \<Rightarrow> nat \<Rightarrow> u8 list" where
  "block F k = take TFTP_MAX_PAYLOAD_SIZE (drop (TFTP_MAX_PAYLOAD_SIZE * k) F)"

definition block_packet :: "u8 list \<Rightarrow> nat \<Rightarrow> u8 list" where
  "block_packet F k = data_packet (of_nat (k + 1)) (block F k)"

lemma is_data_block [simp]: "is_data (a, pt, block_packet F k)"
  by (simp add: block_packet_def)

lemma length_block_packet: "length (block_packet F k) = 4 + length (block F k)"
  by (simp add: block_packet_def data_packet_def)

lemma recv_other: "other_peer a pt s \<Longrightarrow> recv l c p a pt s =
    Ret (send_error l a pt TFTP_ERROR_ACCESS_VIOLATION ''Only one connection at a time is supported'' s)"
  by (simp add: recv_def)

lemma recv_from_peer:
  assumes "\<not> other_peer a pt s" "recv l c p a pt s = Ret u"
  obtains op where "sbuf p 0 = Ret op"
    "(let s = s\<lparr>last_pkt := timer s, retries := 0\<rparr>
      in if op = TFTP_RRQ \<or> op = TFTP_WRQ then Ret (recv_request l c (op = TFTP_WRQ) p a pt s)
         else if op = TFTP_DATA then recv_data l c p a pt s
         else if op = TFTP_ACK then recv_ack l c p a pt s
         else Ret (send_error l a pt TFTP_ERROR_ILLEGAL_OPERATION ''Unknown operation'' s)) = Ret u"
  using assms by (auto simp: recv_def)

text \<open>An event that does not come from the peer counts for nothing.\<close>

lemma halfword_of_other [simp]:
  "halfword_of a pt op Second = None"
  "\<not> (a' = a \<and> pt' = pt) \<Longrightarrow> halfword_of a pt op (Datagram p a' pt') = None"
  by (auto simp: halfword_of_def)

lemma halfword_of_opcode: "sbuf p 0 = Ret op \<Longrightarrow> op \<noteq> op' \<Longrightarrow> halfword_of a pt op' (Datagram p a' pt') = None"
  by (simp add: halfword_of_def)

lemma halfword_of_Some: "sbuf p 0 = Ret op \<Longrightarrow> sbuf p 1 = Ret n \<Longrightarrow> halfword_of a pt op (Datagram p a pt) = Some n"
  by (simp add: halfword_of_def)

text \<open>The state in the middle of a transfer.\<close>

definition reading :: "('h \<Rightarrow> u8 list \<Rightarrow> 'f \<Rightarrow> bool) \<Rightarrow> u32 \<Rightarrow> u16 \<Rightarrow> u8 list \<Rightarrow> nat \<Rightarrow> ('h, 'f) tftp \<Rightarrow> bool" where
  "reading reads a pt F k s \<longleftrightarrow>
     (\<exists>h. handle s = Some h \<and> reads h (drop (TFTP_MAX_PAYLOAD_SIZE * (k + 1)) F) (files s)) \<and>
     addr s = a \<and> port s = pt \<and> mode_write s = 0 \<and> blknum s = of_nat (k + 1) \<and>
     last_data s = Some (block_packet F k)"

definition writing :: "('h \<Rightarrow> nat \<Rightarrow> 'f \<Rightarrow> bool) \<Rightarrow> ('f \<Rightarrow> u8 list) \<Rightarrow> u32 \<Rightarrow> u16 \<Rightarrow> u8 list \<Rightarrow> u8 list list \<Rightarrow> ('h, 'f) tftp \<Rightarrow> bool" where
  "writing writes content a pt X bs s \<longleftrightarrow>
     (\<exists>h. handle s = Some h \<and> writes h (length (concat bs)) (files s)) \<and>
     addr s = a \<and> port s = pt \<and> mode_write s = 1 \<and> blknum s = of_nat (length bs + 1) \<and>
     last_data s = None \<and> content (files s) = overwrite 0 (concat bs) X"

lemma tmr_open:
  "handle s = Some h \<Longrightarrow> handle (tftp_tmr l c s) \<noteq> None \<Longrightarrow>
     (\<exists>d. last_data s = Some d \<and> tftp_tmr l c s = (resend_data l d (s\<lparr>timer := timer s + 1, timers := timers s - 1 + 1\<rparr>))\<lparr>retries := retries s + 1\<rparr>)
     \<or> tftp_tmr l c s = s\<lparr>timer := timer s + 1, timers := timers s - 1 + 1\<rparr>"
  by (auto simp: tftp_tmr_def Let_def split: option.splits if_splits)

locale tftp_files =
  fixes c :: "('h, 'f) tftp_context"
    and reads :: "'h \<Rightarrow> u8 list \<Rightarrow> 'f \<Rightarrow> bool"
    and writes :: "'h \<Rightarrow> nat \<Rightarrow> 'f \<Rightarrow> bool"
    and content :: "'f \<Rightarrow> u8 list"
  assumes read_law: "reads h xs fs \<Longrightarrow> \<exists>fs'. read_cb c h n fs = (Some (take n xs), fs') \<and> reads h (drop n xs) fs'"
    and write_bound: "writes h n fs \<Longrightarrow> n \<le> length (content fs)"
    and write_law: "writes h n fs \<Longrightarrow> \<exists>r fs'. write_cb c h p fs = (r, fs') \<and> 0 \<le> r
        \<and> content fs' = overwrite n (concat p) (content fs) \<and> writes h (n + tot_len p) fs'"
    and close_law: "writes h n fs \<Longrightarrow> content (close_cb c h fs) = content fs"
begin

lemma send_data_reads:
  assumes "lwip_doc l" "buffers_free l" "handle s = Some h" "reads h (drop (512 * k) F) (files s)"
    and "blknum s = of_nat (k + 1)" "mode_write s = 0"
  shows "reading reads (addr s) (port s) F k (send_data l c h s)"
    and "sent (send_data l c h s) = sent s @ [(addr s, port s, block_packet F k)]"
proof -
  obtain fs' where r: "read_cb c h 512 (files s) = (Some (block F k), fs')"
    and rs: "reads h (drop (512 * (k + 1)) F) fs'"
    using read_law [OF assms(4), of 512] by (auto simp: block_def drop_drop ac_simps)
  have e: "send_data l c h s = resend_data l (block_packet F k)
      (s\<lparr>nalloc := nalloc s + 1, files := fs', last_data := Some (block_packet F k)\<rparr>)"
    using assms(5) r by (simp add: send_data_def with_pbuf_free [OF assms(2)] Let_def block_packet_def)
  show "reading reads (addr s) (port s) F k (send_data l c h s)"
    using assms(3,5,6) rs by (simp add: e reading_def)
  show "sent (send_data l c h s) = sent s @ [(addr s, port s, block_packet F k)]"
    using assms(1) by (simp add: e resend_data_def with_pbuf_free [OF assms(2)] udp_sendto_def lwip_doc_def)
qed

text \<open>An acknowledgement of the block in flight sends the next one.\<close>

lemma reading_ack:
  assumes l: "lwip_doc l" "buffers_free l" and s: "reading reads a pt F k s" and n: "sbuf p 1 = Ret n"
    and e: "recv_ack l c p a pt (s\<lparr>last_pkt := timer s, retries := 0\<rparr>) = Ret u" and u: "handle u \<noteq> None"
  shows "if n = of_nat (k + 1)
    then reading reads a pt F (k + 1) u \<and> filter is_data (sent u) = filter is_data (sent s) @ [(a, pt, block_packet F (k + 1))]
    else reading reads a pt F k u \<and> filter is_data (sent u) = filter is_data (sent s)"
proof -
  let ?s = "s\<lparr>last_pkt := timer s, retries := 0\<rparr>"
  have ad: "addr s = a" "port s = pt" "mode_write s = 0" and b: "blknum s = of_nat (k + 1)"
    and d: "last_data s = Some (block_packet F k)" using s by (simp_all add: reading_def)
  obtain h where h: "handle s = Some h" "reads h (drop (512 * (k + 1)) F) (files s)"
    using s by (auto simp: reading_def)
  have e2: "u = (if n \<noteq> blknum s then send_error l a pt TFTP_ERROR_UNKNOWN_TRFR_ID ''Wrong block number'' ?s
      else if length (block_packet F k) \<noteq> 516 then close_handle c ?s
      else send_data l c h (?s\<lparr>blknum := blknum s + 1\<rparr>))"
    using e n h(1) ad d by (auto simp: recv_ack_def split: if_splits)
  show ?thesis
  proof (cases "n = blknum s")
    case False
    then show ?thesis using e2 b s by (auto simp: reading_def)
  next
    case True
    then have "u = send_data l c h (?s\<lparr>blknum := blknum s + 1\<rparr>)"
      using e2 u by (auto split: if_splits)
    then show ?thesis
      using send_data_reads [OF l, of "?s\<lparr>blknum := blknum s + 1\<rparr>" h "k + 1" F] h ad b True by simp
  qed
qed

lemma reading_tick:
  assumes l: "lwip_doc l" "buffers_free l" and s: "reading reads a pt F k s" and u: "handle (tftp_tmr l c s) \<noteq> None"
  shows "reading reads a pt F k (tftp_tmr l c s) \<and> filter is_data (sent (tftp_tmr l c s)) \<in>
    {filter is_data (sent s), filter is_data (sent s) @ [(a, pt, block_packet F k)]}"
proof -
  obtain h where h: "handle s = Some h" and d: "last_data s = Some (block_packet F k)" "addr s = a" "port s = pt"
    using s by (auto simp: reading_def)
  from tmr_open [OF h u] show ?thesis
    using s d l by (auto simp: reading_def resend_data_def with_pbuf_free udp_sendto_def lwip_doc_def)
qed

text \<open>One event while a file is read: only an acknowledgement of the block in flight moves on, a timeout
  repeats the last block, anything else sends no data.\<close>

lemma reading_step:
  assumes l: "lwip_doc l" "buffers_free l" and a: "a \<noteq> 0" "pt \<noteq> 0"
    and s: "reading reads a pt F k s" and e: "tftp_step l c e s = Ret u" and u: "handle u \<noteq> None"
  defines "j \<equiv> count_ack a pt k e"
  shows "reading reads a pt F j u \<and>
    (j = k + 1 \<and> filter is_data (sent u) = filter is_data (sent s) @ [(a, pt, block_packet F j)] \<or>
     j = k \<and> filter is_data (sent u) \<in> {filter is_data (sent s), filter is_data (sent s) @ [(a, pt, block_packet F k)]})"
proof (cases e)
  case Second
  then show ?thesis using reading_tick [OF l s] e u by (simp add: tftp_step_def j_def count_ack_def)
next
  case (Datagram p a' pt')
  have ad: "addr s = a" "port s = pt" "mode_write s = 0" using s by (simp_all add: reading_def)
  obtain h where h: "handle s = Some h" using s by (auto simp: reading_def)
  show ?thesis
  proof (cases "a' = a \<and> pt' = pt")
    case False
    then have "other_peer a' pt' s" using a ad by (auto simp: other_peer_def)
    then have "u = send_error l a' pt' TFTP_ERROR_ACCESS_VIOLATION ''Only one connection at a time is supported'' s"
      using e by (simp add: Datagram tftp_step_def recv_other)
    then show ?thesis using False s by (simp add: j_def count_ack_def Datagram reading_def)
  next
    case True
    then have same: "a' = a" "pt' = pt" by auto
    have "\<not> other_peer a pt s" by (simp add: other_peer_def ad)
    moreover have "recv l c p a pt s = Ret u" using e by (simp add: Datagram tftp_step_def same)
    ultimately obtain op where op: "sbuf p 0 = Ret op" and e1: "(let s = s\<lparr>last_pkt := timer s, retries := 0\<rparr>
      in if op = TFTP_RRQ \<or> op = TFTP_WRQ then Ret (recv_request l c (op = TFTP_WRQ) p a pt s)
         else if op = TFTP_DATA then recv_data l c p a pt s
         else if op = TFTP_ACK then recv_ack l c p a pt s
         else Ret (send_error l a pt TFTP_ERROR_ILLEGAL_OPERATION ''Unknown operation'' s)) = Ret u"
      by (rule recv_from_peer)
    show ?thesis
    proof (cases "op = TFTP_ACK")
      case False
      then have "j = k" by (simp add: j_def count_ack_def Datagram halfword_of_opcode [OF op])
      then show ?thesis
        using e1 False s h ad by (auto simp: Let_def recv_request_def recv_data_def reading_def split: if_splits)
    next
      case True
      then have r: "recv_ack l c p a pt (s\<lparr>last_pkt := timer s, retries := 0\<rparr>) = Ret u" using e1 by simp
      then obtain n where n: "sbuf p 1 = Ret n" using h ad by (auto simp: recv_ack_def)
      show ?thesis
        using reading_ack [OF l s n r u] n op True same
        by (auto simp: j_def count_ack_def Datagram halfword_of_Some split: if_splits)
    qed
  qed
qed

text \<open>All the events of a connection: the peer has been sent the blocks up to the one it waits for, in
  order and without a gap, some perhaps more than once.\<close>

lemma reading_run:
  assumes l: "lwip_doc l" "buffers_free l" and a: "a \<noteq> 0" "pt \<noteq> 0"
    and s: "reading reads a pt F 0 s" and r: "connected l c s es u"
  shows "reading reads a pt F (acked a pt es) u \<and>
    (\<exists>ks. filter is_data (sent u) = filter is_data (sent s) @ map (\<lambda>k. (a, pt, block_packet F k)) ks
      \<and> sorted (0 # ks) \<and> set (0 # ks) = {0..acked a pt es})"
  using r
proof induction
  case start
  then show ?case using s by (auto intro: exI [of _ "[]"])
next
  case (step es t e u)
  let ?k = "acked a pt es"
  from step.IH obtain ks where t: "reading reads a pt F ?k t"
    and ks: "filter is_data (sent t) = filter is_data (sent s) @ map (\<lambda>k. (a, pt, block_packet F k)) ks"
    "sorted (0 # ks)" "set (0 # ks) = {0..?k}" by blast
  have m: "\<forall>k\<in>set ks. k \<le> ?k" "?k \<in> set (0 # ks)" using ks(3) by auto
  let ?j = "count_ack a pt ?k e"
  from reading_step [OF l a t step.hyps(2,3)] consider
      (fwd) "reading reads a pt F ?j u" "?j = ?k + 1" "filter is_data (sent u) = filter is_data (sent t) @ [(a, pt, block_packet F ?j)]"
    | (none) "reading reads a pt F ?j u" "?j = ?k" "filter is_data (sent u) = filter is_data (sent t)"
    | (again) "reading reads a pt F ?j u" "?j = ?k" "filter is_data (sent u) = filter is_data (sent t) @ [(a, pt, block_packet F ?k)]"
    by blast
  then show ?case
  proof cases
    case fwd
    have "set (0 # ks @ [?k + 1]) = insert (?k + 1) (set (0 # ks))" by auto
    also have "\<dots> = {0..?k + 1}" unfolding ks(3) by auto
    finally have "set (0 # ks @ [?k + 1]) = {0..?k + 1}" .
    then show ?thesis using fwd ks m
      by (intro conjI exI [of _ "ks @ [?k + 1]"]) (auto simp: sorted_append)
  next
    case none
    then show ?thesis using ks by auto
  next
    case again
    have "set (0 # ks @ [?k]) = insert ?k (set (0 # ks))" by auto
    also have "\<dots> = {0..?k}" unfolding ks(3) by auto
    finally have "set (0 # ks @ [?k]) = {0..?k}" .
    then show ?thesis using again ks m
      by (intro conjI exI [of _ "ks @ [?k]"]) (auto simp: sorted_append)
  qed
qed

text \<open>A file is written: one event.\<close>

lemma writing_data:
  assumes l: "lwip_doc l" and s: "writing writes content a pt X bs s" and n: "sbuf p 1 = Ret n"
    and e: "recv_data l c p a pt (s\<lparr>last_pkt := timer s, retries := 0\<rparr>) = Ret u"
  shows "if n = of_nat (length bs + 1)
    then (if length (drop 4 (concat p)) < 512
          then handle u = None \<and> content (files u) = overwrite 0 (concat (bs @ [drop 4 (concat p)])) X
          else writing writes content a pt X (bs @ [drop 4 (concat p)]) u)
    else writing writes content a pt X bs u"
proof -
  let ?s = "s\<lparr>last_pkt := timer s, retries := 0\<rparr>"
  have ad: "addr s = a" "port s = pt" "mode_write s = 1" "last_data s = None" and b: "blknum s = of_nat (length bs + 1)"
    and X: "content (files s) = overwrite 0 (concat bs) X" using s by (simp_all add: writing_def)
  obtain h where h: "handle s = Some h" "writes h (length (concat bs)) (files s)"
    using s by (auto simp: writing_def)
  obtain q p' where p: "p = q # p'" "4 \<le> length q" using n by (auto simp: sbuf_def split: list.splits if_splits)
  then have rp: "pbuf_remove_header l p 4 = drop 4 q # p'" "drop 4 (concat p) = drop 4 q @ concat p'"
    using l by (simp_all add: lwip_doc_def)
  obtain r fs where w: "write_cb c h (drop 4 q # p') (files s) = (r, fs)" "0 \<le> r"
    "content fs = overwrite (length (concat bs)) (concat (drop 4 q # p')) (content (files s))"
    "writes h (length (concat bs) + tot_len (drop 4 q # p')) fs"
    using write_law [OF h(2)] by blast
  have c': "content fs = overwrite 0 (concat (bs @ [drop 4 (concat p)])) X"
    using overwrite_overwrite [of 0 X "concat bs"] by (simp add: w(3) X rp(2))
  have e2: "u = (if n = blknum s
      then (let t = send_ack l n (?s\<lparr>files := fs\<rparr>) in if tot_len (drop 4 q # p') < 512 then close_handle c t else t\<lparr>blknum := blknum t + 1\<rparr>)
      else if n + 1 = blknum s then send_ack l n ?s
      else send_error l a pt TFTP_ERROR_UNKNOWN_TRFR_ID ''Wrong block number'' ?s)"
    using e n h(1) ad rp w(1,2) by (simp add: recv_data_def Let_def split: if_splits)
  show ?thesis
  proof (cases "n = blknum s")
    case False
    then show ?thesis using e2 b s by (auto simp: writing_def)
  next
    case True
    show ?thesis
    proof (cases "length (drop 4 (concat p)) < 512")
      case short: True
      then show ?thesis using e2 True b close_law [OF w(4)] c' h(1) rp(2)
        by (simp add: tot_len_def close_handle_def Let_def)
    next
      case False
      then show ?thesis using e2 True b w(4) c' h(1) rp(2) ad
        by (simp add: tot_len_def writing_def Let_def)
    qed
  qed
qed

lemma writing_step:
  assumes l: "lwip_doc l" and a: "a \<noteq> 0" "pt \<noteq> 0"
    and s: "writing writes content a pt X bs s" and e: "tftp_step l c e s = Ret u" and u: "handle u \<noteq> None"
  shows "writing writes content a pt X (accept_block a pt bs e) u"
proof (cases e)
  case Second
  obtain h where h: "handle s = Some h" and d: "last_data s = None" using s by (auto simp: writing_def)
  have eq: "u = tftp_tmr l c s" using e by (simp add: Second tftp_step_def)
  from tmr_open [OF h, of l c] u show ?thesis using s d
    by (auto simp: eq Second accept_block_def writing_def)
next
  case (Datagram p a' pt')
  have ad: "addr s = a" "port s = pt" "mode_write s = 1" using s by (simp_all add: writing_def)
  obtain h where h: "handle s = Some h" using s by (auto simp: writing_def)
  show ?thesis
  proof (cases "a' = a \<and> pt' = pt")
    case False
    then have "other_peer a' pt' s" using a ad by (auto simp: other_peer_def)
    then have "u = send_error l a' pt' TFTP_ERROR_ACCESS_VIOLATION ''Only one connection at a time is supported'' s"
      using e by (simp add: Datagram tftp_step_def recv_other)
    then show ?thesis using False s by (simp add: accept_block_def Datagram writing_def)
  next
    case True
    then have same: "a' = a" "pt' = pt" by auto
    have "\<not> other_peer a pt s" by (simp add: other_peer_def ad)
    moreover have "recv l c p a pt s = Ret u" using e by (simp add: Datagram tftp_step_def same)
    ultimately obtain op where op: "sbuf p 0 = Ret op" and e1: "(let s = s\<lparr>last_pkt := timer s, retries := 0\<rparr>
      in if op = TFTP_RRQ \<or> op = TFTP_WRQ then Ret (recv_request l c (op = TFTP_WRQ) p a pt s)
         else if op = TFTP_DATA then recv_data l c p a pt s
         else if op = TFTP_ACK then recv_ack l c p a pt s
         else Ret (send_error l a pt TFTP_ERROR_ILLEGAL_OPERATION ''Unknown operation'' s)) = Ret u"
      by (rule recv_from_peer)
    show ?thesis
    proof (cases "op = TFTP_DATA")
      case False
      then have "accept_block a pt bs e = bs" by (simp add: accept_block_def Datagram halfword_of_opcode [OF op])
      then show ?thesis
        using e1 False s h ad by (auto simp: Let_def recv_request_def recv_ack_def writing_def split: if_splits)
    next
      case True
      then have r: "recv_data l c p a pt (s\<lparr>last_pkt := timer s, retries := 0\<rparr>) = Ret u" using e1 by simp
      then obtain n where n: "sbuf p 1 = Ret n" using h ad by (auto simp: recv_data_def)
      show ?thesis
        using writing_data [OF l s n r] n op True same u
        by (auto simp: accept_block_def payload_of_def Datagram halfword_of_Some split: if_splits)
    qed
  qed
qed

lemma writing_run:
  assumes "lwip_doc l" "a \<noteq> 0" "pt \<noteq> 0" "writing writes content a pt X [] s" "connected l c s es u"
  shows "writing writes content a pt X (accepted a pt es) u"
  using assms(5)
proof induction
  case start
  then show ?case using assms(4) by simp
next
  case (step es t e u)
  then show ?case using writing_step [OF assms(1-3) step.IH step.hyps(2,3)] by simp
qed

text \<open>The short block that ends the transfer.\<close>

lemma writing_last:
  assumes l: "lwip_doc l" and s: "writing writes content a pt X bs s"
    and p: "sbuf p 0 = Ret TFTP_DATA" "sbuf p 1 = Ret (of_nat (length bs + 1))" "length (drop 4 (concat p)) < 512"
  shows "\<exists>u. tftp_step l c (Datagram p a pt) s = Ret u \<and> handle u = None
    \<and> content (files u) = overwrite 0 (concat (bs @ [drop 4 (concat p)])) X"
proof -
  have ad: "addr s = a" "port s = pt" "mode_write s = 1" using s by (simp_all add: writing_def)
  obtain h where h: "handle s = Some h" using s by (auto simp: writing_def)
  let ?s = "s\<lparr>last_pkt := timer s, retries := 0\<rparr>"
  have st: "tftp_step l c (Datagram p a pt) s = recv_data l c p a pt ?s"
    using p(1) by (simp add: tftp_step_def recv_def other_peer_def ad)
  obtain u where u: "recv_data l c p a pt ?s = Ret u"
    using p(2) h ad by (auto simp: recv_data_def)
  from writing_data [OF l s p(2) u] p(3) show ?thesis by (simp add: st u)
qed

end

section \<open>Requests\<close>

definition request_packet :: "u16 \<Rightarrow> string \<Rightarrow> string \<Rightarrow> u8 list" where
  "request_packet op name mode = be16 op @ map of_char name @ [0] @ map of_char mode @ [0]"

definition text_arg :: "string \<Rightarrow> bool" where
  "text_arg xs \<longleftrightarrow> CHR 0x00 \<notin> set xs"

definition idle :: "('h, 'f) tftp \<Rightarrow> bool" where
  "idle s \<longleftrightarrow> handle s = None \<and> port s = 0 \<and> addr s = 0"

lemma unat_of_char [simp]: "unat (of_char c :: u8) = of_char c"
  unfolding of_nat_of_char [of c, where 'a = "8 word", symmetric]
  by (simp add: unsigned_of_nat take_bit_nat_eq_self)

lemma of_char_eq_0 [simp]: "(of_char c :: u8) = 0 \<longleftrightarrow> c = CHR 0x00"
proof -
  have "(of_char c :: u8) = 0 \<longleftrightarrow> of_char c = (of_char (CHR 0x00) :: nat)"
    by (subst unat_eq_0 [symmetric]) simp
  then show ?thesis by (simp only: of_char_eq_iff)
qed

lemma c_string_arg [simp]: "text_arg xs \<Longrightarrow> c_string (map of_char xs @ 0 # ys) = xs"
  by (induction xs) (auto simp: c_string_def text_arg_def)

lemma find_byte_end:
  assumes "text_arg xs"
  shows "find_byte (pre @ map of_char xs @ 0 # ys) 0 (length pre) = of_nat (length pre + length xs)"
proof -
  let ?bs = "pre @ map of_char xs @ 0 # ys :: u8 list"
  have up: "[length pre..<length ?bs] = [length pre..<length pre + length xs] @
      (length pre + length xs) # [Suc (length pre + length xs)..<length ?bs]"
    using upt_add_eq_append [of "length pre" "length pre + length xs" "Suc (length ys)"]
    by (simp add: upt_conv_Cons ac_simps del: upt_Suc)
  have none: "filter (\<lambda>i. ?bs ! i = 0) [length pre..<length pre + length xs] = []"
    using assms by (auto simp: filter_empty_conv nth_append text_arg_def in_set_conv_nth)
  show ?thesis unfolding find_byte_def up filter_append none by (simp add: nth_append)
qed

lemma unat_u16 [simp]: "n < 65536 \<Longrightarrow> unat (of_nat n :: u16) = n"
  by (simp add: unsigned_of_nat take_bit_nat_eq_self)

lemma recv_request_parsed:
  assumes l: "lwip_doc l" and name: "text_arg name" "length name \<le> 20" and mode: "text_arg mode" "length mode \<le> 7"
    and s: "handle s = None"
  shows "recv_request l c w [request_packet op name mode] a pt s =
    (let (h, fs) = open_cb c name mode w (files s);
         s = s\<lparr>timers := timers s + 1, handle := h, files := fs, blknum := 1\<rparr>
     in case h of
          None \<Rightarrow> send_error l a pt TFTP_ERROR_FILE_NOT_FOUND ''Unable to open requested file.'' s
        | Some h \<Rightarrow>
            let s = s\<lparr>addr := a, port := pt\<rparr>
            in if w then send_ack l 0 (s\<lparr>mode_write := 1\<rparr>) else send_data l c h (s\<lparr>mode_write := 0\<rparr>))"
proof -
  let ?P = "request_packet op name mode" and ?n = "length name" and ?m = "length mode"
  have fe: "pbuf_memfind l [?P] 0 2 = of_nat (?n + 2)"
    using l find_byte_end [OF name(1), of "be16 op"] by (simp add: lwip_doc_def request_packet_def)
  have e1: "of_nat (?n + 2) - 1 = (of_nat (?n + 1) :: u16)" "of_nat (?n + 2) + 1 = (of_nat (?n + 3) :: u16)" by simp_all
  have me: "pbuf_memfind l [?P] 0 (of_nat (?n + 3)) = of_nat (?n + 3 + ?m)"
  proof -
    have u: "unat (of_nat (?n + 3) :: u16) = ?n + 3" by (rule unat_u16) (use name(2) in simp)
    have "find_byte (concat [?P]) 0 (?n + 3) = of_nat (?n + 3 + ?m)"
      using find_byte_end [OF mode(1), of "be16 op @ map of_char name @ [0]" "[]"]
      by (simp add: request_packet_def numeral_3_eq_3 ac_simps del: of_nat_Suc of_nat_add)
    then show ?thesis using l unfolding lwip_doc_def by (simp only: u)
  qed
  have e2: "of_nat (?n + 3 + ?m) - of_nat (?n + 2) = (of_nat (?m + 1) :: u16)" by simp
  have g: "\<not> (of_nat (?n + 1) :: u16) > 20 + 1" "\<not> (of_nat (?m + 1) :: u16) > 7 + 1"
    using name(2) mode(2) by (simp_all add: word_less_nat_alt del: of_nat_Suc of_nat_add)
  have "c_string (pbuf_copy_partial l [?P] (of_nat (?n + 1)) 2) = name"
    using l name c_string_arg [OF name(1), of "[]"] by (simp add: lwip_doc_def request_packet_def del: of_nat_Suc of_nat_add)
  moreover have "c_string (pbuf_copy_partial l [?P] (of_nat (?m + 1)) (of_nat (?n + 3))) = mode"
    using l name(2) mode c_string_arg [OF mode(1), of "[]"] by (simp add: lwip_doc_def request_packet_def del: of_nat_Suc of_nat_add)
  ultimately show ?thesis
    unfolding recv_request_def Let_def fe e1 me e2 using g s by (simp split: prod.splits)
qed

end
