(* ===== verification/Tftp_Sdcard.thy ===== *)
theory Tftp_Sdcard
  imports Tftp_Transfer
begin

text \<open>
  The TFTP server on the files of the SD card: the interface \<open>tftp_files\<close> is provided by the callbacks
  of tftp_handler.c, for files that FatFs reads and writes as documented; what a peer then gets and
  stores, and how a connection to a silent peer ends.
\<close>

section \<open>Files as FatFs documents them\<close>

text \<open>
  \<open>fat_reads ff xs f\<close>: every read gives the next bytes of \<open>xs\<close>, fewer than asked for only at the end.
  \<open>fat_writes ff content n f\<close>: every write succeeds, at the offset \<open>n\<close> behind the previous one, over
  what the file holds there.
\<close>

coinductive fat_reads :: "'f fatfs \<Rightarrow> u8 list \<Rightarrow> 'f \<Rightarrow> bool" for ff where
  "(\<And>n. \<exists>f'. f_read ff n f = (0, take n xs, f') \<and> fat_reads ff (drop n xs) f') \<Longrightarrow> fat_reads ff xs f"

coinductive fat_writes :: "'f fatfs \<Rightarrow> ('f \<Rightarrow> u8 list) \<Rightarrow> nat \<Rightarrow> 'f \<Rightarrow> bool" for ff content where
  "n \<le> length (content f) \<Longrightarrow> content (snd (f_close ff f)) = content f \<Longrightarrow>
   (\<And>bs. \<exists>f'. f_write ff bs f = (0, length bs, f') \<and> content f' = overwrite n bs (content f)
      \<and> fat_writes ff content (n + length bs) f') \<Longrightarrow> fat_writes ff content n f"

lemma fat_readsD: "fat_reads ff xs f \<Longrightarrow> \<exists>f'. f_read ff n f = (0, take n xs, f') \<and> fat_reads ff (drop n xs) f'"
  by (erule fat_reads.cases) blast

lemma fat_writesD:
  assumes "fat_writes ff content n f"
  shows "n \<le> length (content f)" "content (snd (f_close ff f)) = content f"
    "\<exists>f'. f_write ff bs f = (0, length bs, f') \<and> content f' = overwrite n bs (content f) \<and> fat_writes ff content (n + length bs) f'"
  using assms by (blast elim: fat_writes.cases)+

text \<open>The loop over the chain writes all of it.\<close>

lemma write_chain_writes:
  "fat_writes ff content n f \<Longrightarrow>
     \<exists>f'. write_chain ff p f = (0, f') \<and> content f' = overwrite n (concat p) (content f) \<and> fat_writes ff content (n + tot_len p) f'"
proof (induction p arbitrary: n f)
  case Nil
  then show ?case by (simp add: tot_len_def)
next
  case (Cons q p)
  consider (none) "concat (q # p) = []" | (skip) "q = []" "concat p \<noteq> []" | (data) "q \<noteq> []"
    by (cases "q = []") auto
  then show ?case
  proof cases
    case none
    then have e: "write_chain ff (q # p) f = (0, f)" "tot_len (q # p) = 0" by (simp_all add: tot_len_def)
    show ?thesis unfolding e none using Cons.prems by simp
  next
    case skip
    then have "write_chain ff (q # p) f = write_chain ff p f" "tot_len (q # p) = tot_len p" by (auto simp: tot_len_def)
    then show ?thesis using Cons.IH [OF Cons.prems] skip(1) by simp
  next
    case data
    obtain f1 where w: "f_write ff q f = (0, length q, f1)" "content f1 = overwrite n q (content f)"
      "fat_writes ff content (n + length q) f1" using fat_writesD(3) [OF Cons.prems] by blast
    obtain f2 where v: "write_chain ff p f1 = (0, f2)" "content f2 = overwrite (n + length q) (concat p) (content f1)"
      "fat_writes ff content (n + length q + tot_len p) f2" using Cons.IH [OF w(3)] by blast
    have "content f2 = overwrite n (concat (q # p)) (content f)"
      using overwrite_overwrite [OF fat_writesD(1) [OF Cons.prems], of q] by (simp add: v(2) w(2))
    then show ?thesis using w v data by (simp add: tot_len_def add.assoc)
  qed
qed

interpretation sd: tftp_files "ctxt ff" "\<lambda>_. fat_reads ff" "\<lambda>_. fat_writes ff content" content for ff content
proof unfold_locales
  fix h xs fs n assume "fat_reads ff xs fs"
  then show "\<exists>fs'. read_cb (ctxt ff) h n fs = (Some (take n xs), fs') \<and> fat_reads ff (drop n xs) fs'"
    using fat_readsD [of ff xs fs n] by (auto simp: ctxt_def tftp_sdcard_read_def)
next
  fix h n fs p assume "fat_writes ff content n fs"
  then show "\<exists>r fs'. write_cb (ctxt ff) h p fs = (r, fs') \<and> 0 \<le> r
      \<and> content fs' = overwrite n (concat p) (content fs) \<and> fat_writes ff content (n + tot_len p) fs'"
    using write_chain_writes [of ff content n fs p] by (auto simp: ctxt_def tftp_sdcard_write_def)
qed (auto simp: ctxt_def tftp_sdcard_close_def fat_writesD)

section \<open>Opening\<close>

lemma recv_request_idle:
  "idle s \<Longrightarrow> op \<in> {TFTP_RRQ, TFTP_WRQ} \<Longrightarrow> recv l c [request_packet op name mode] a pt s =
     Ret (recv_request l c (op = TFTP_WRQ) [request_packet op name mode] a pt (s\<lparr>last_pkt := timer s, retries := 0\<rparr>))"
  by (auto simp: recv_def other_peer_def idle_def sbuf_def request_packet_def)

lemma download_opens:
  assumes l: "lwip_doc l" "buffers_free l" and s: "idle s" and name: "text_arg name" "length name \<le> 20"
    and open_ok: "f_open ff name FA_OPEN_EXISTING_READ (files s) = (0, f)" "fat_reads ff F f"
    and r: "recv l (ctxt ff) [request_packet TFTP_RRQ name ''octet''] a pt s = Ret t"
  shows "reading (\<lambda>_. fat_reads ff) a pt F 0 t" "sent t = sent s @ [(a, pt, block_packet F 0)]"
proof -
  let ?s = "s\<lparr>last_pkt := timer s, retries := 0, timers := timers s + 1, handle := Some (), files := f,
    blknum := 1, addr := a, port := pt, mode_write := 0\<rparr>"
  have h: "handle s = None" using s by (simp add: idle_def)
  have "t = send_data l (ctxt ff) () ?s"
    using r open_ok(1) h recv_request_parsed [OF l(1) name, of "''octet''" "s\<lparr>last_pkt := timer s, retries := 0\<rparr>"]
    by (simp add: recv_request_idle [OF s] text_arg_def ctxt_def tftp_sdcard_open_def Let_def)
  then show "reading (\<lambda>_. fat_reads ff) a pt F 0 t" "sent t = sent s @ [(a, pt, block_packet F 0)]"
    using sd.send_data_reads [OF l, of ?s "()" ff 0 F] open_ok(2) by simp_all
qed

lemma upload_opens:
  assumes l: "lwip_doc l" and s: "idle s" "last_data s = None" and name: "text_arg name" "length name \<le> 20"
    and open_ok: "f_open ff name FA_OPEN_ALWAYS_WRITE (files s) = (0, f)" "fat_writes ff content 0 f"
    and r: "recv l (ctxt ff) [request_packet TFTP_WRQ name ''octet''] a pt s = Ret t"
  shows "writing (\<lambda>_. fat_writes ff content) content a pt (content f) [] t"
proof -
  let ?s = "s\<lparr>last_pkt := timer s, retries := 0, timers := timers s + 1, handle := Some (), files := f,
    blknum := 1, addr := a, port := pt, mode_write := 1\<rparr>"
  have h: "handle s = None" using s by (simp add: idle_def)
  have "t = send_ack l 0 ?s"
    using r open_ok(1) h recv_request_parsed [OF l name, of "''octet''" "s\<lparr>last_pkt := timer s, retries := 0\<rparr>"]
    by (simp add: recv_request_idle [OF s(1)] text_arg_def ctxt_def tftp_sdcard_open_def Let_def)
  then show ?thesis using s(2) open_ok(2) by (simp add: writing_def)
qed

section \<open>Whole transfers\<close>

text \<open>A run over the acknowledgements of the blocks \<open>k + 1, \<dots>, k + n\<close>, all of them full.\<close>

definition ack_event :: "u32 \<Rightarrow> u16 \<Rightarrow> nat \<Rightarrow> tftp_event" where
  "ack_event a pt k = Datagram [ack_packet (of_nat k)] a pt"

lemma sbuf_ack [simp]: "sbuf [ack_packet n] 0 = Ret TFTP_ACK" "sbuf [ack_packet n] 1 = Ret n" "sbuf [ack_packet n] (Suc 0) = Ret n"
  using of_be16_be16 [of n "[]"] by (simp_all add: sbuf_def ack_packet_def)

lemma length_block: "length (block F k) = (if 512 * (k + 1) \<le> length F then 512 else length F - 512 * k)"
  by (simp add: block_def)

lemma ack_full:
  assumes l: "lwip_doc l" "buffers_free l" and s: "reading (\<lambda>_. fat_reads ff) a pt F k s" and k: "512 * (k + 1) \<le> length F"
  shows "\<exists>t. tftp_step l (ctxt ff) (ack_event a pt (k + 1)) s = Ret t \<and> reading (\<lambda>_. fat_reads ff) a pt F (k + 1) t
    \<and> sent t = sent s @ [(a, pt, block_packet F (k + 1))]"
proof -
  let ?s = "s\<lparr>last_pkt := timer s, retries := 0, blknum := of_nat (k + 2)\<rparr>"
  have ad: "addr s = a" "port s = pt" "mode_write s = 0" "blknum s = of_nat (k + 1)" "last_data s = Some (block_packet F k)"
    and h: "handle s = Some ()" "fat_reads ff (drop (512 * (k + 1)) F) (files s)"
    using s by (auto simp: reading_def)
  have len: "length (block_packet F k) = 516" using k by (simp add: length_block_packet length_block)
  have "of_nat (k + 1) + 1 = (of_nat (k + 2) :: u16)" by simp
  then have "tftp_step l (ctxt ff) (ack_event a pt (k + 1)) s = Ret (send_data l (ctxt ff) () ?s)"
    using ad h(1) len by (simp add: tftp_step_def ack_event_def recv_def other_peer_def recv_ack_def Let_def)
  then show ?thesis using sd.send_data_reads [OF l, of ?s "()" ff "k + 1" F] h ad by simp
qed

lemma acks_full:
  assumes l: "lwip_doc l" "buffers_free l" and s: "reading (\<lambda>_. fat_reads ff) a pt F 0 s" and n: "512 * n \<le> length F"
  shows "\<exists>t. run_fold (tftp_step l (ctxt ff)) (map (ack_event a pt) [1..<n + 1]) s = Ret t
    \<and> reading (\<lambda>_. fat_reads ff) a pt F n t \<and> sent t = sent s @ map (\<lambda>k. (a, pt, block_packet F k)) [1..<n + 1]"
  using n
proof (induction n)
  case 0
  then show ?case using s by simp
next
  case (Suc n)
  then obtain t where t: "run_fold (tftp_step l (ctxt ff)) (map (ack_event a pt) [1..<n + 1]) s = Ret t"
    "reading (\<lambda>_. fat_reads ff) a pt F n t" "sent t = sent s @ map (\<lambda>k. (a, pt, block_packet F k)) [1..<n + 1]" by auto
  obtain u where u: "tftp_step l (ctxt ff) (ack_event a pt (n + 1)) t = Ret u" "reading (\<lambda>_. fat_reads ff) a pt F (n + 1) u"
    "sent u = sent t @ [(a, pt, block_packet F (n + 1))]" using ack_full [OF l t(2)] Suc.prems by auto
  have up: "[1..<Suc n + 1] = [1..<n + 1] @ [n + 1]" by simp
  show ?case unfolding up map_append run_fold_append t(1) using u t(3) by simp
qed

lemma ack_last:
  assumes s: "reading (\<lambda>_. fat_reads ff) a pt F k s" and k: "length F < 512 * (k + 1)"
  shows "tftp_step l (ctxt ff) (ack_event a pt (k + 1)) s = Ret (close_handle (ctxt ff) (s\<lparr>last_pkt := timer s, retries := 0\<rparr>))"
proof -
  have ad: "addr s = a" "port s = pt" "mode_write s = 0" "blknum s = of_nat (k + 1)" "last_data s = Some (block_packet F k)"
    and h: "handle s = Some ()" using s by (auto simp: reading_def)
  have "length (block_packet F k) \<noteq> 516" using k by (simp add: length_block_packet length_block)
  then show ?thesis
    using ad h by (simp add: tftp_step_def ack_event_def recv_def other_peer_def recv_ack_def Let_def)
qed

lemma concat_blocks: "concat (map (block F) [0..<n]) = take (512 * n) F"
  by (induction n) (simp_all add: block_def take_add [symmetric] add.commute)

lemma download_runs:
  fixes F :: "u8 list"
  defines "n \<equiv> length F div 512"
  assumes l: "lwip_doc l" "buffers_free l" and s: "idle s" and name: "text_arg name" "length name \<le> 20"
    and o: "f_open ff name FA_OPEN_EXISTING_READ (files s) = (0, f)" "fat_reads ff F f"
  shows "\<exists>t. run_fold (tftp_step l (ctxt ff))
      (Datagram [request_packet TFTP_RRQ name ''octet''] a pt # map (ack_event a pt) [1..<n + 2]) s = Ret t \<and>
    handle t = None \<and> sent t = sent s @ map (\<lambda>k. (a, pt, block_packet F k)) [0..<n + 1] \<and>
    concat (map (block F) [0..<n + 1]) = F"
proof -
  let ?R = "[request_packet TFTP_RRQ name ''octet'']"
  obtain t0 where r: "recv l (ctxt ff) ?R a pt s = Ret t0" using recv_request_idle [OF s, of TFTP_RRQ] by simp
  have t0: "reading (\<lambda>_. fat_reads ff) a pt F 0 t0" "sent t0 = sent s @ [(a, pt, block_packet F 0)]"
    using download_opens [OF l s name o r] by simp_all
  have n: "512 * n \<le> length F" "length F < 512 * (n + 1)" by (simp_all add: n_def)
  obtain t1 where t1: "run_fold (tftp_step l (ctxt ff)) (map (ack_event a pt) [1..<n + 1]) t0 = Ret t1"
    "reading (\<lambda>_. fat_reads ff) a pt F n t1" "sent t1 = sent t0 @ map (\<lambda>k. (a, pt, block_packet F k)) [1..<n + 1]"
    using acks_full [OF l t0(1) n(1)] by blast
  have up: "[1..<n + 2] = [1..<n + 1] @ [n + 1]" "[0..<Suc n] = 0 # [Suc 0..<Suc n]" by (simp_all add: upt_conv_Cons)
  have "concat (map (block F) [0..<n + 1]) = F" using n(2) by (simp only: concat_blocks) simp
  then show ?thesis
    unfolding up(1) map_append run_fold.simps run_fold_append
    using r t0(2) t1 ack_last [OF t1(2) n(2)] by (simp add: tftp_step_def up(2) del: upt_Suc)
qed

section \<open>A silent peer\<close>

definition silent :: "u8 list \<Rightarrow> u32 \<Rightarrow> u16 \<Rightarrow> nat \<Rightarrow> u8 \<Rightarrow> ('h, 'f) tftp \<Rightarrow> bool" where
  "silent d a pt m r s \<longleftrightarrow> handle s \<noteq> None \<and> last_data s = Some d \<and> addr s = a \<and> port s = pt
     \<and> timer s = last_pkt s + of_nat m \<and> retries s = r"

lemma sint_small: "n < 100 \<Longrightarrow> sint (of_nat n :: s32) = int n"
  by (simp add: signed_of_nat signed_take_bit_int_eq_self)

lemma silent_waits:
  "silent d a pt m r s \<Longrightarrow> m < 10 \<Longrightarrow> silent d a pt (m + 1) r (tftp_tmr l c s) \<and> sent (tftp_tmr l c s) = sent s"
  using sint_small [of "m + 1"] by (auto simp: silent_def tftp_tmr_def Let_def ac_simps)

lemma silent_repeats:
  assumes l: "lwip_doc l" "buffers_free l"
  shows "silent d a pt m r s \<Longrightarrow> 10 \<le> m \<Longrightarrow> m < 90 \<Longrightarrow> r < 5 \<Longrightarrow>
    silent d a pt (m + 1) (r + 1) (tftp_tmr l c s) \<and> sent (tftp_tmr l c s) = sent s @ [(a, pt, d)]"
  using sint_small [of "m + 1"] l
  by (auto simp: silent_def tftp_tmr_def Let_def ac_simps resend_data_def with_pbuf_free udp_sendto_def lwip_doc_def)

lemma silent_closes:
  "silent d a pt m 5 s \<Longrightarrow> 10 \<le> m \<Longrightarrow> m < 90 \<Longrightarrow> handle (tftp_tmr l c s) = None \<and> sent (tftp_tmr l c s) = sent s"
  using sint_small [of "m + 1"] by (auto simp: silent_def tftp_tmr_def Let_def ac_simps)

lemma silent_run:
  assumes l: "lwip_doc l" "buffers_free l" and s: "silent d a pt 0 0 s"
  shows "n \<le> 10 \<Longrightarrow> silent d a pt n 0 ((tftp_tmr l c ^^ n) s) \<and> sent ((tftp_tmr l c ^^ n) s) = sent s"
    and "k \<le> 5 \<Longrightarrow> silent d a pt (10 + k) (of_nat k) ((tftp_tmr l c ^^ (10 + k)) s)
      \<and> sent ((tftp_tmr l c ^^ (10 + k)) s) = sent s @ replicate k (a, pt, d)"
proof -
  show *: "silent d a pt n 0 ((tftp_tmr l c ^^ n) s) \<and> sent ((tftp_tmr l c ^^ n) s) = sent s" if "n \<le> 10" for n
    using that
  proof (induction n)
    case 0
    then show ?case using s by simp
  next
    case (Suc n)
    then show ?case using silent_waits [of d a pt n 0 "(tftp_tmr l c ^^ n) s" l c] by simp
  qed
  show "silent d a pt (10 + k) (of_nat k) ((tftp_tmr l c ^^ (10 + k)) s)
      \<and> sent ((tftp_tmr l c ^^ (10 + k)) s) = sent s @ replicate k (a, pt, d)" if "k \<le> 5"
    using that
  proof (induction k)
    case 0
    then show ?case using * [of 10] by (simp del: funpow.simps)
  next
    case (Suc k)
    then have "(of_nat k :: u8) < 5" by (simp add: word_less_nat_alt unsigned_of_nat take_bit_nat_eq_self)
    moreover have "10 + Suc k = Suc (10 + k)" by simp
    then have "(tftp_tmr l c ^^ (10 + Suc k)) s = tftp_tmr l c ((tftp_tmr l c ^^ (10 + k)) s)"
      by (simp only: funpow.simps o_apply)
    moreover have "replicate (Suc k) x = replicate k x @ [x]" for x :: "u32 \<times> u16 \<times> u8 list"
      by (simp add: replicate_append_same)
    ultimately show ?case
      using Suc silent_repeats [OF l, of d a pt "10 + k" "of_nat k" "(tftp_tmr l c ^^ (10 + k)) s" c]
      by (simp add: ac_simps)
  qed
qed

lemma silent_time:
  assumes l: "lwip_doc l" "buffers_free l" and s: "silent d a pt 0 0 s" and n: "n \<le> 16"
  shows "(handle ((tftp_tmr l c ^^ n) s) = None \<longleftrightarrow> n = 16)
    \<and> sent ((tftp_tmr l c ^^ n) s) = sent s @ replicate (min 5 (n - 10)) (a, pt, d)"
proof -
  consider "n \<le> 10" | "10 \<le> n" "n \<le> 15" | "n = 16" using n by linarith
  then show ?thesis
  proof cases
    case 1
    then show ?thesis using silent_run(1) [OF l s, of n c] by (simp add: silent_def del: funpow.simps)
  next
    case 2
    then have "10 + (n - 10) = n" "n - 10 \<le> 5" by simp_all
    then show ?thesis using 2 silent_run(2) [OF l s, of "n - 10" c] by (simp add: silent_def min_def del: funpow.simps)
  next
    case 3
    have "(of_nat 5 :: u8) = 5" by simp
    then have "silent d a pt (10 + 5) 5 ((tftp_tmr l c ^^ (10 + 5)) s)"
      "sent ((tftp_tmr l c ^^ (10 + 5)) s) = sent s @ replicate 5 (a, pt, d)"
      using silent_run(2) [OF l s, of 5 c] by (simp_all only: order_refl simp_thms)
    then show ?thesis
      using silent_closes [of d a pt "10 + 5" "(tftp_tmr l c ^^ (10 + 5)) s" l c]
      using 3 funpow.simps(2) [of "10 + 5" "tftp_tmr l c"] by (simp add: o_def del: funpow.simps)
  qed
qed

section \<open>An instance of the parameters\<close>

text \<open>lwIP as documented, with buffers always free; a card whose one file is a byte list with an offset.\<close>

definition lwip_ref :: lwip where
  "lwip_ref = \<lparr>pbuf_alloc = \<lambda>_. True, pbuf_memfind = \<lambda>p b off. find_byte (concat p) b (unat off),
     pbuf_copy_partial = \<lambda>p n off. take (unat n) (drop (unat off) (concat p)),
     pbuf_remove_header = \<lambda>p n. (case p of [] \<Rightarrow> [] | q # p \<Rightarrow> drop n q # p), pbuf_copy = Some\<rparr>"

definition mem_fat :: "(u8 list \<times> nat) fatfs" where
  "mem_fat = \<lparr>f_open = \<lambda>_ _ f. (0, fst f, 0), f_close = \<lambda>f. (0, f),
     f_read = \<lambda>n f. (0, take n (drop (snd f) (fst f)), fst f, snd f + n),
     f_write = \<lambda>bs f. (0, length bs, overwrite (snd f) bs (fst f), snd f + length bs)\<rparr>"

definition tftp_zero :: "'f \<Rightarrow> (unit, 'f) tftp" where
  "tftp_zero f = \<lparr>handle = None, last_data = None, upcb = Some 1, addr = 0, port = 0, timer = 0, last_pkt = 0,
     blknum = 0, retries = 0, mode_write = 0, files = f, sent = [], timers = 0, nalloc = 0\<rparr>"

lemma lwip_ref_ok: "lwip_doc lwip_ref" "buffers_free lwip_ref"
  by (simp_all add: lwip_doc_def lwip_ref_def buffers_free_def)

lemma mem_fat_reads: "fat_reads mem_fat (drop n xs) (xs, n)"
proof -
  have "\<exists>n xs. ys = drop n xs \<and> f = (xs, n) \<Longrightarrow> fat_reads mem_fat ys f" for ys f
  proof (coinduction arbitrary: ys f)
    case fat_reads
    then show ?case by (auto simp: mem_fat_def ac_simps)
  qed
  then show ?thesis by blast
qed

lemma mem_fat_writes: "n \<le> length xs \<Longrightarrow> fat_writes mem_fat fst n (xs, n)"
proof -
  have "\<exists>xs. f = (xs, n) \<and> n \<le> length xs \<Longrightarrow> fat_writes mem_fat fst n f" for n f
  proof (coinduction arbitrary: n f)
    case fat_writes
    then show ?case by (auto simp: mem_fat_def length_overwrite)
  qed
  then show "n \<le> length xs \<Longrightarrow> fat_writes mem_fat fst n (xs, n)" by blast
qed

lemma tftp_zero_simps [simp]: "idle (tftp_zero f)" "files (tftp_zero f) = f" "last_data (tftp_zero f) = None" "sent (tftp_zero f) = []"
  by (simp_all add: tftp_zero_def idle_def)

lemma mem_fat_open [simp]: "f_open mem_fat name m (xs, n) = (0, xs, 0)"
  by (simp add: mem_fat_def)

text \<open>A second that passes within the time limit keeps a connection open.\<close>

lemma second_connected:
  assumes "handle t = Some h" "sint (timer t + 1 - last_pkt t) \<le> 10"
  shows "connected l c t [Second] (tftp_tmr l c t)"
  using connected.step [OF connected.start, of t l c Second "tftp_tmr l c t"] assms
  by (simp add: tftp_step_def tftp_tmr_def Let_def)

section \<open>Properties\<close>

text \<open>
  C16. A file that is read over TFTP arrives in order: whatever datagrams come from wherever and however
  often time passes while the connection of the peer stays open, the data packets the server sends are
  the blocks of the file, to the peer only, in order and without a gap from the first to the one after
  those it has acknowledged in order, each with its block number. Blocks may be repeated, never skipped.
\<close>

theorem tftp_download_in_order:
  assumes l: "lwip_doc l" "buffers_free l" and a: "a \<noteq> 0" "pt \<noteq> 0"
    and s: "idle s" and name: "text_arg name" "length name \<le> 20"
    and o: "f_open ff name FA_OPEN_EXISTING_READ (files s) = (0, f)" "fat_reads ff F f"
    and r: "recv l (ctxt ff) [request_packet TFTP_RRQ name ''octet''] a pt s = Ret t"
    and c: "connected l (ctxt ff) t es u"
  shows "\<exists>ks. filter is_data (sent u) = filter is_data (sent s) @ map (\<lambda>k. (a, pt, block_packet F k)) ks
    \<and> sorted ks \<and> set ks = {0..acked a pt es}"
proof -
  note t = download_opens [OF l s name o r]
  obtain ks where "filter is_data (sent u) = filter is_data (sent t) @ map (\<lambda>k. (a, pt, block_packet F k)) ks"
    "sorted (0 # ks)" "set (0 # ks) = {0..acked a pt es}"
    using sd.reading_run [OF l a t(1) c] by blast
  then show ?thesis by (intro exI [of _ "0 # ks"]) (simp add: t(2))
qed

theorem tftp_download_in_order_witness:
  "\<exists>t es u. recv lwip_ref (ctxt mem_fat) [request_packet TFTP_RRQ ''a.bin'' ''octet''] 0xA000001 69 (tftp_zero ([1, 2, 3], 0)) = Ret t
    \<and> connected lwip_ref (ctxt mem_fat) t es u
    \<and> (\<exists>ks. filter is_data (sent u) = map (\<lambda>k. (0xA000001, 69, block_packet [1, 2, 3] k)) ks \<and> sorted ks \<and> set ks = {0..acked 0xA000001 69 es})"
proof -
  let ?s = "tftp_zero ([1, 2, 3] :: u8 list, 0 :: nat)"
  obtain t where t: "recv lwip_ref (ctxt mem_fat) [request_packet TFTP_RRQ ''a.bin'' ''octet''] 0xA000001 69 ?s = Ret t"
    by (simp add: recv_request_idle)
  have o: "f_open mem_fat ''a.bin'' FA_OPEN_EXISTING_READ (files ?s) = (0, [1, 2, 3], 0)" "fat_reads mem_fat [1, 2, 3] ([1, 2, 3], 0)"
    using mem_fat_reads [of 0 "[1, 2, 3]"] by simp_all
  have n: "text_arg ''a.bin''" by (simp add: text_arg_def)
  have "handle t \<noteq> None"
    using download_opens [OF lwip_ref_ok, of ?s "''a.bin''", OF _ n _ o t] by (auto simp: reading_def)
  then have c: "connected lwip_ref (ctxt mem_fat) t [] t" by (rule connected.start)
  show ?thesis
    using t c tftp_download_in_order [OF lwip_ref_ok, of "0xA000001" 69 ?s "''a.bin''", OF _ _ _ n _ o t c]
    by - (rule exI [of _ t], rule exI [of _ "[]"], rule exI [of _ t], simp)
qed

text \<open>
  C18. A whole file is read: a peer that acknowledges every block gets all blocks of the file once and in
  order, the last one short, and their contents put together are the file; then the connection is closed.
  This holds for files of any length, the 16-bit block numbers just wrap.
\<close>

theorem tftp_download_complete:
  assumes "lwip_doc l" "buffers_free l" "idle s" "text_arg name" "length name \<le> 20"
    and "f_open ff name FA_OPEN_EXISTING_READ (files s) = (0, f)" "fat_reads ff F f"
  shows "\<exists>t. run_fold (tftp_step l (ctxt ff))
      (Datagram [request_packet TFTP_RRQ name ''octet''] a pt # map (ack_event a pt) [1..<length F div 512 + 2]) s = Ret t \<and>
    handle t = None \<and> sent t = sent s @ map (\<lambda>k. (a, pt, block_packet F k)) [0..<length F div 512 + 1] \<and>
    concat (map (block F) [0..<length F div 512 + 1]) = F"
  by (rule download_runs [OF assms])

theorem tftp_download_complete_witness:
  "\<exists>t. run_fold (tftp_step lwip_ref (ctxt mem_fat))
      [Datagram [request_packet TFTP_RRQ ''a'' ''octet''] 1 2, ack_event 1 2 1, ack_event 1 2 2] (tftp_zero (replicate 600 7, 0)) = Ret t \<and>
    handle t = None \<and> sent t = [(1, 2, block_packet (replicate 600 7) 0), (1, 2, block_packet (replicate 600 7) 1)]"
proof -
  have u: "[1..<600 div 512 + 2] = [1, 2 :: nat]" "[0..<600 div 512 + 1] = [0, 1 :: nat]" by (simp_all add: upt_rec)
  show ?thesis
    using tftp_download_complete [OF lwip_ref_ok, of "tftp_zero (replicate 600 7, 0)" "''a''" mem_fat _ "replicate 600 7" 1 2]
      mem_fat_reads [of 0 "replicate 600 7"]
    unfolding length_replicate u by (auto simp: text_arg_def simp del: run_fold.simps)
qed

text \<open>
  C17. A file that is written over TFTP is stored in order: whatever arrives while the connection of the
  peer stays open, what has been stored are the blocks the peer sent with the number that was next, each
  once however often it is repeated; and a short block ends the transfer. They are stored over what the
  file held before, so of a longer old file the rest stays behind the new contents.
\<close>

theorem tftp_upload_in_order:
  assumes l: "lwip_doc l" and a: "a \<noteq> 0" "pt \<noteq> 0"
    and s: "idle s" "last_data s = None" and name: "text_arg name" "length name \<le> 20"
    and o: "f_open ff name FA_OPEN_ALWAYS_WRITE (files s) = (0, f)" "fat_writes ff content 0 f"
    and r: "recv l (ctxt ff) [request_packet TFTP_WRQ name ''octet''] a pt s = Ret t"
    and c: "connected l (ctxt ff) t es u"
    and p: "sbuf p 0 = Ret TFTP_DATA" "sbuf p 1 = Ret (of_nat (length (accepted a pt es) + 1))" "length (drop 4 (concat p)) < 512"
  shows "\<exists>v. content (files u) = overwrite 0 (concat (accepted a pt es)) (content f) \<and>
    tftp_step l (ctxt ff) (Datagram p a pt) u = Ret v \<and> handle v = None \<and>
    content (files v) = overwrite 0 (concat (accepted a pt es @ [drop 4 (concat p)])) (content f)"
proof -
  note w = sd.writing_run [OF l a upload_opens [OF l s name o r] c]
  then show ?thesis using sd.writing_last [OF l w p] by (auto simp: writing_def)
qed

theorem tftp_upload_in_order_witness:
  "\<exists>t v. recv lwip_ref (ctxt mem_fat) [request_packet TFTP_WRQ ''a'' ''octet''] 1 2 (tftp_zero ([9, 8, 7, 6, 5], 0)) = Ret t
    \<and> tftp_step lwip_ref (ctxt mem_fat) (Datagram [data_packet 1 [1, 2, 3]] 1 2) t = Ret v
    \<and> handle v = None \<and> fst (files v) = [1, 2, 3, 6, 5]"
proof -
  let ?s = "tftp_zero ([9, 8, 7, 6, 5] :: u8 list, 0 :: nat)"
  obtain t where t: "recv lwip_ref (ctxt mem_fat) [request_packet TFTP_WRQ ''a'' ''octet''] 1 2 ?s = Ret t"
    by (simp add: recv_request_idle)
  have o: "f_open mem_fat ''a'' FA_OPEN_ALWAYS_WRITE (files ?s) = (0, [9, 8, 7, 6, 5], 0)" "fat_writes mem_fat fst 0 ([9, 8, 7, 6, 5], 0)"
    using mem_fat_writes [of 0 "[9, 8, 7, 6, 5]"] by simp_all
  have n: "text_arg ''a''" by (simp add: text_arg_def)
  have "handle t \<noteq> None"
    using upload_opens [OF lwip_ref_ok(1), of ?s "''a''", OF _ _ n _ o t] by (auto simp: writing_def)
  then have c: "connected lwip_ref (ctxt mem_fat) t [] t" by (rule connected.start)
  have p: "sbuf [data_packet 1 [1, 2, 3]] 0 = Ret TFTP_DATA" "sbuf [data_packet 1 [1, 2, 3]] 1 = Ret (of_nat (length (accepted 1 2 []) + 1))"
    "length (drop 4 (concat [data_packet 1 [1, 2, 3]])) < 512" "drop 4 (concat [data_packet 1 [1, 2, 3]]) = [1, 2, 3]"
    by (simp_all add: data_packet_def)
  show ?thesis
    using t tftp_upload_in_order [OF lwip_ref_ok(1), of 1 2 ?s "''a''", OF _ _ _ _ n _ o t c p(1-3)] unfolding p(4)
    by (auto simp: overwrite_def)
qed

text \<open>
  C25. A connection to a peer that has gone ends: with one timer running, the block in flight is repeated
  in each of the seconds 11 to 15 after the last datagram, five times, and in second 16 the connection is
  closed and the server free for the next peer.
\<close>

theorem tftp_silent_peer:
  assumes "lwip_doc l" "buffers_free l" "handle s \<noteq> None" "last_data s = Some d" "last_pkt s = timer s" "retries s = 0"
    and "n \<le> 16"
  shows "(handle ((tftp_tmr l c ^^ n) s) = None \<longleftrightarrow> n = 16)
    \<and> sent ((tftp_tmr l c ^^ n) s) = sent s @ replicate (min 5 (n - 10)) (addr s, port s, d)"
  using silent_time [OF assms(1,2), of d "addr s" "port s" s n c] assms(3-7) by (simp add: silent_def)

theorem tftp_silent_peer_witness:
  "let s = (tftp_zero ([], 0))\<lparr>handle := Some (), last_data := Some [0, 3, 0, 1], addr := 1, port := 2\<rparr>
   in handle ((tftp_tmr lwip_ref (ctxt mem_fat) ^^ 15) s) \<noteq> None \<and> handle ((tftp_tmr lwip_ref (ctxt mem_fat) ^^ 16) s) = None"
  using tftp_silent_peer [OF lwip_ref_ok, of "(tftp_zero ([], 0))\<lparr>handle := Some (), last_data := Some [0, 3, 0, 1], addr := 1, port := 2\<rparr>" "[0, 3, 0, 1]" 15 "ctxt mem_fat"]
    tftp_silent_peer [OF lwip_ref_ok, of "(tftp_zero ([], 0))\<lparr>handle := Some (), last_data := Some [0, 3, 0, 1], addr := 1, port := 2\<rparr>" "[0, 3, 0, 1]" 16 "ctxt mem_fat"]
  by (simp add: Let_def tftp_zero_def del: funpow.simps)

end
