(* ===== verification/Sdcard.thy ===== *)
theory Sdcard
  imports Netconf
begin

text \<open>
  sdcard.c: what is done with the SD card at start-up: it is mounted, the configuration file is read
  (theory Netconf), and the files EEPROM.NEW and EEPROM.DAT are processed.

  FatFs is a parameter. Every call gives its \<open>FRESULT\<close>, 0 for \<open>FR_OK\<close>; the state includes the file
  that is open, there is never more than one. \<open>MUST\<close> prints a failure and is \<open>res \<noteq> 0\<close>.
\<close>

section \<open>The file system\<close>

datatype access = EXISTING_READ | ALWAYS_READ_WRITE

record 'f card_fs =
  fs_mount :: "string \<Rightarrow> 'f \<Rightarrow> nat \<times> 'f"
  fs_chdir :: "string \<Rightarrow> 'f \<Rightarrow> nat \<times> 'f"
  fs_unmount :: "string \<Rightarrow> 'f \<Rightarrow> nat \<times> 'f"
  fs_open :: "string \<Rightarrow> access \<Rightarrow> 'f \<Rightarrow> nat \<times> 'f"
  fs_close :: "'f \<Rightarrow> nat \<times> 'f"
  fs_read :: "nat \<Rightarrow> 'f \<Rightarrow> nat \<times> u8 list \<times> 'f"
  fs_lseek :: "nat \<Rightarrow> 'f \<Rightarrow> nat \<times> 'f"
  fs_truncate :: "'f \<Rightarrow> nat \<times> 'f"
  fs_write :: "u8 list \<Rightarrow> 'f \<Rightarrow> nat \<times> nat \<times> 'f"
  fs_sync :: "'f \<Rightarrow> nat \<times> 'f"
  fs_unlink :: "string \<Rightarrow> 'f \<Rightarrow> nat \<times> 'f"

abbreviation (input) EE_SIZE :: nat where "EE_SIZE \<equiv> 256"

section \<open>EEPROM files\<close>

text \<open>
  \<open>ee\<close> is what the block from \<open>malloc\<close> holds: the calls that would read the EEPROM into it, and write
  it from the file, are commented out. A call after a failed one in the chain of the update is not made.
\<close>

definition sdcard_sync_eeprom :: "'f card_fs \<Rightarrow> u8 list \<Rightarrow> bool \<Rightarrow> 'f \<Rightarrow> 'f" where
  "sdcard_sync_eeprom c ee eewrite fs =
     (case fs_read c EE_SIZE fs of (res, file, fs) \<Rightarrow>
        if res \<noteq> 0 then fs
        else
          let match = (length file = EE_SIZE \<and> take EE_SIZE ee = file)
          in if match then fs
             else if eewrite then fs
             else case fs_lseek c 0 fs of (res, fs) \<Rightarrow>
               if res \<noteq> 0 then fs
               else case fs_truncate c fs of (res, fs) \<Rightarrow>
                 if res \<noteq> 0 then fs
                 else case fs_write c (take EE_SIZE ee) fs of (res, w, fs) \<Rightarrow>
                   if res \<noteq> 0 \<or> w \<noteq> EE_SIZE then fs else snd (fs_sync c fs))"

section \<open>The files in turn\<close>

text \<open>The open file after all of its lines have been read.\<close>

partial_function (option) lines_read :: "'f libs \<Rightarrow> 'f \<Rightarrow> 'f option" where
  "lines_read l fs = (case f_gets l 64 fs of None \<Rightarrow> Some fs | Some (_, fs) \<Rightarrow> lines_read l fs)"

definition process_netconf ::
    "'f libs \<Rightarrow> 'f card_fs \<Rightarrow> board \<Rightarrow> iic_driver \<Rightarrow> conf_state \<times> 'f \<Rightarrow> (conf_state \<times> 'f) run" where
  "process_netconf l c b d sf =
     (case sf of (st, fs) \<Rightarrow> case fs_open c ''NET.CNF'' EXISTING_READ fs of (res, fs) \<Rightarrow>
        if res \<noteq> 0 then Ret (st, fs)
        else run_bind (or_hang (sdcard_netconf l b d fs st)) (\<lambda>r.
             run_bind r (\<lambda>st.
             run_bind (or_hang (lines_read l fs)) (\<lambda>fs. Ret (st, snd (fs_close c fs))))))"

definition process_new :: "'f card_fs \<Rightarrow> u8 list \<Rightarrow> 'f \<Rightarrow> 'f" where
  "process_new c ee fs =
     (case fs_open c ''EEPROM.NEW'' EXISTING_READ fs of (res, fs) \<Rightarrow>
        if res \<noteq> 0 then fs
        else snd (fs_unlink c ''EEPROM.NEW'' (snd (fs_close c (sdcard_sync_eeprom c ee True fs)))))"

definition process_dat :: "'f card_fs \<Rightarrow> u8 list \<Rightarrow> 'f \<Rightarrow> 'f" where
  "process_dat c ee fs =
     (case fs_open c ''EEPROM.DAT'' ALWAYS_READ_WRITE fs of (res, fs) \<Rightarrow>
        if res \<noteq> 0 then fs else snd (fs_close c (sdcard_sync_eeprom c ee False fs)))"

text \<open>\<open>ee\<close>: what the two calls of \<open>sdcard_sync_eeprom\<close> get from \<open>malloc\<close>.\<close>

definition sdcard_process ::
    "'f libs \<Rightarrow> 'f card_fs \<Rightarrow> board \<Rightarrow> iic_driver \<Rightarrow> (bool \<Rightarrow> u8 list) \<Rightarrow> conf_state \<times> 'f \<Rightarrow> (conf_state \<times> 'f) run" where
  "sdcard_process l c b d ee sf =
     run_bind (process_netconf l c b d sf) (\<lambda>(st, fs).
       Ret (st, process_dat c (ee False) (process_new c (ee True) fs)))"

section \<open>Mounting\<close>

text \<open>\<open>True\<close> where the code returns 1: this was not the card.\<close>

definition sdcard_trypart ::
    "'f libs \<Rightarrow> 'f card_fs \<Rightarrow> board \<Rightarrow> iic_driver \<Rightarrow> (bool \<Rightarrow> u8 list) \<Rightarrow> string \<Rightarrow> conf_state \<times> 'f \<Rightarrow> (bool \<times> conf_state \<times> 'f) run" where
  "sdcard_trypart l c b d ee drive sf =
     (case sf of (st, fs) \<Rightarrow> case fs_mount c drive fs of (res, fs) \<Rightarrow>
        if res \<noteq> 0 then Ret (True, st, fs)
        else case fs_chdir c drive fs of (res, fs) \<Rightarrow>
          if res \<noteq> 0 then Ret (True, st, snd (fs_unmount c drive fs))
          else run_bind (sdcard_process l c b d ee (st, fs)) (\<lambda>sf. Ret (False, sf)))"

definition sdcard_handle ::
    "'f libs \<Rightarrow> 'f card_fs \<Rightarrow> board \<Rightarrow> iic_driver \<Rightarrow> (bool \<Rightarrow> u8 list) \<Rightarrow> conf_state \<times> 'f \<Rightarrow> (conf_state \<times> 'f) run" where
  "sdcard_handle l c b d ee sf =
     run_bind (sdcard_trypart l c b d ee ''0:/'' sf) (\<lambda>(failed, sf).
       if failed then run_bind (sdcard_trypart l c b d ee ''1:/'' sf) (\<lambda>(_, sf). Ret sf) else Ret sf)"

end
