(* ===== verification/Start_Up.thy ===== *)
theory Start_Up
  imports App_Main Sdcard Tftp_Sdcard
begin

text \<open>
  How the program starts and the services beside the server: main.c (\<open>main\<close>, \<open>realmain\<close>,
  \<open>on_startup\<close>), net_setup.c, discover.c and lstats.c, and the initialisation of i2c.c and
  qspi_flash.c.

  What is asked of the operating system, lwIP and the vendor's drivers is the list of these calls in
  their order (\<open>sys_op\<close>); what they answer is a parameter. A thread is named by the string it is
  created with; its body is modelled where the task is (theories Listener, Monitor, Snapshot_Task,
  Console). Messages on the serial port are not modelled.
\<close>

datatype sys_op =
    I2c_Init nat | I2c_SClk nat nat | Qspi_Init | Qspi_Options | Qspi_Prescaler | Qspi_Select
  | Lwip_Init | Xemac_Add u32 u32 u32 "u8 list" | Netif_Set_Default | Netif_Set_Up
  | Dhcp_Start | Dhcp_Fine_Tmr | Dhcp_Coarse_Tmr | Tcpip_Callback string
  | SysMon_Init | SysMon_Set string | Thread string | Psc_Run u16 | Scheduler

section \<open>Drivers\<close>

text \<open>
  \<open>init_i2c\<close>: \<open>found i\<close> says whether the configuration of bus \<open>i\<close> is found. If not the code
  goes on and reads through the null pointer. The status of the initialisation is only printed.
\<close>

definition init_i2c_bus :: "(nat \<Rightarrow> bool) \<Rightarrow> nat \<Rightarrow> sys_op list \<Rightarrow> sys_op list run" where
  "init_i2c_bus found i ops = (if found i then Ret (ops @ [I2c_Init i]) else Undef Out_Of_Bounds)"

definition init_i2c :: "(nat \<Rightarrow> bool) \<Rightarrow> sys_op list \<Rightarrow> sys_op list run" where
  "init_i2c found ops =
     run_bind (init_i2c_bus found 0 ops) (\<lambda>ops.
     run_bind (init_i2c_bus found 1 ops) (\<lambda>ops. Ret (ops @ [I2c_SClk 0 100000, I2c_SClk 1 100000])))"

text \<open>\<open>QspiFlashInit\<close>: the result is 0 for \<open>XST_SUCCESS\<close> and 1 for \<open>XST_FAILURE\<close>.\<close>

definition QspiFlashInit :: "bool \<Rightarrow> nat \<Rightarrow> sys_op list \<Rightarrow> nat \<times> sys_op list" where
  "QspiFlashInit found status ops =
     (if \<not> found then (1, ops)
      else let ops = ops @ [Qspi_Init]
           in if status \<noteq> 0 then (1, ops) else (0, ops @ [Qspi_Options, Qspi_Prescaler, Qspi_Select]))"

section \<open>The network\<close>

text \<open>\<open>added\<close>: what \<open>xemac_add\<close> answers; \<open>dhcp_err\<close>: the error of \<open>dhcp_start\<close>, 0 for none.\<close>

definition net_setup :: "bool \<Rightarrow> int \<Rightarrow> net_config \<Rightarrow> sys_op list \<Rightarrow> sys_op list" where
  "net_setup added dhcp_err conf ops =
     (let ops = ops @ [Lwip_Init, Xemac_Add (net_config.addr conf) (mask conf) (gw conf) (hwaddr conf)]
      in if \<not> added then ops
         else
           let ops = ops @ [Netif_Set_Default, Netif_Set_Up, Thread ''NIC'']
           in if use_static conf = 0
              then let ops = ops @ [Dhcp_Start] in if dhcp_err = 0 then ops @ [Thread ''dhcpcd''] else ops
              else ops)"

text \<open>
  A turn of \<open>dhcp_client\<close>, with the milliseconds counted so far; \<open>fine\<close> and \<open>coarse\<close> are lwIP's
  \<open>DHCP_FINE_TIMER_MSECS\<close> and \<open>DHCP_COARSE_TIMER_SECS\<close>.
\<close>

definition dhcp_turn :: "int \<Rightarrow> int \<Rightarrow> int \<times> sys_op list \<Rightarrow> int \<times> sys_op list" where
  "dhcp_turn fine coarse s =
     (case s of (mscnt, ops) \<Rightarrow>
        let ops = ops @ [Dhcp_Fine_Tmr];
            mscnt = mscnt + fine
        in if mscnt \<ge> coarse * 1000 then (0, ops @ [Dhcp_Coarse_Tmr]) else (mscnt, ops))"

section \<open>Discovery\<close>

text \<open>
  A datagram on port 3000 is a message with a header. \<open>rx_held\<close>: the received buffers that have not
  been given back to lwIP.
\<close>

record disco =
  rx_held :: "pbuf list"
  replies :: "(u32 \<times> u16 \<times> u8 list) list"
  buffers :: nat

text \<open>The static reply, with its padding.\<close>

definition disco_reply :: "u32 \<Rightarrow> u8 list" where
  "disco_reply git_hash = [0x50, 0x53] @ be16 1234 @ be32 8 @ be32 git_hash @ be16 0 @ [0, 0]"

definition disco_recv :: "lwip \<Rightarrow> u32 \<Rightarrow> pbuf \<Rightarrow> u32 \<Rightarrow> u16 \<Rightarrow> disco \<Rightarrow> disco" where
  "disco_recv l git_hash p a pt s =
     (let s = s\<lparr>rx_held := rx_held s @ [p]\<rparr>;
          msg = pbuf_copy_partial l p 12 0;
          n = length msg
      in if n < 8 \<or> msg ! 0 \<noteq> 0x50 \<or> msg ! 1 \<noteq> 0x53 then s
         else
           let msgid = of_be16 (drop 2 msg); msglen = of_be32 (drop 4 msg)
           in if of_nat n - 8 < msglen then s
              else if msgid \<noteq> 1234 then s
              else
                let ok = pbuf_alloc l (buffers s); s = s\<lparr>buffers := buffers s + 1\<rparr>
                in if ok then s\<lparr>replies := replies s @ [(a, pt, disco_reply git_hash)]\<rparr> else s)"

text \<open>
  \<open>discover_prep\<close>: whether the callback is registered. An error of \<open>udp_bind\<close> is only printed.
\<close>

definition discover_prep :: "bool \<Rightarrow> int \<Rightarrow> bool \<Rightarrow> bool" where
  "discover_prep pcb bind_err reply_buf = (pcb \<and> reply_buf)"

section \<open>Statistics\<close>

record os_stats =
  ticks :: u32
  tick_rate :: u32
  ntasks :: u32
  lwip_link :: "u32 list"    \<comment> \<open>xmit, recv, drop, chkerr, memerr, proterr, err\<close>
  lwip_mem :: "u32 list"     \<comment> \<open>err, avail, used, max, illegal\<close>
  sysmon :: "f32 list option"       \<comment> \<open>temperature, VCCINT and VCCAUX, when the monitor is ready\<close>
  heap_avail :: u32
  heap_largest :: u32
  heap_lowest :: u32
  heap_allocs :: u32
  heap_frees :: u32

text \<open>\<open>LINK_STATS\<close> and \<open>MEM_STATS\<close> are options of lwIP; without them the words stay 0.\<close>

definition lstats_words :: "bool \<Rightarrow> bool \<Rightarrow> os_stats \<Rightarrow> u32 list" where
  "lstats_words link_stats mem_stats o_s =
     [f32_div (f32_mul (f32_of_int (uint (ticks o_s))) (f32_of_int 1)) (f32_of_int (uint (tick_rate o_s))), ntasks o_s]
     @ (if link_stats then take 7 (lwip_link o_s) else replicate 7 0)
     @ (if mem_stats then take 5 (lwip_mem o_s) else replicate 5 0)
     @ (case sysmon o_s of None \<Rightarrow> replicate 3 0 | Some v \<Rightarrow> take 3 v)
     @ [heap_avail o_s, heap_largest o_s, heap_lowest o_s, heap_allocs o_s - heap_frees o_s]"

text \<open>One turn of \<open>lstats_push\<close>: every word is stored through \<open>htonl\<close> or \<open>htonf\<close>.\<close>

definition lstats_turn ::
    "'w net \<Rightarrow> bool \<Rightarrow> bool \<Rightarrow> os_stats \<Rightarrow> psc_key option \<times> 'w \<Rightarrow> psc_key option \<times> 'w" where
  "lstats_turn n link_stats mem_stats o_s net =
     psc_send n 101 (mem_words (map htonl (lstats_words link_stats mem_stats o_s))) net"

definition lstats_setup :: "bool \<Rightarrow> sys_op list \<Rightarrow> sys_op list" where
  "lstats_setup found ops =
     ops @ (if found
       then [SysMon_Init, SysMon_Set ''SEQ_MODE_SAFE'', SysMon_Set ''AVG_256_SAMPLES'', SysMon_Set ''SEQ_AVG_TEMP'',
         SysMon_Set ''SEQ_CH_TEMP'', SysMon_Set ''ADC_CLK_DIVISOR 32'', SysMon_Set ''SEQ_MODE_CONTINPASS'']
       else []) @ [Thread ''lstats'']"

section \<open>The start of the tasks\<close>

definition sadata_setup :: "sys_op list \<Rightarrow> sys_op list" where
  "sadata_setup ops = ops @ [Thread ''sadata'']"

definition snapshot_setup :: "sys_op list \<Rightarrow> sys_op list" where
  "snapshot_setup ops = ops @ [Thread ''snapshot'']"

definition console_setup :: "sys_op list \<Rightarrow> sys_op list" where
  "console_setup ops = ops @ [Thread ''console'']"

definition on_startup :: "bool \<Rightarrow> sys_op list \<Rightarrow> sys_op list" where
  "on_startup found ops = console_setup (snapshot_setup (sadata_setup (lstats_setup found ops)))"

definition discover_setup :: "sys_op list \<Rightarrow> sys_op list" where
  "discover_setup ops = ops @ [Tcpip_Callback ''discover_prep'']"

text \<open>
  \<open>realmain\<close> up to the server loop of \<open>psc_run\<close>. \<open>stack\<close> is the page buffer of
  \<open>InitSettingsfromQspi\<close>, \<open>ee\<close> what the EEPROM files' blocks hold.
\<close>

record 'f machine =
  psc_of :: psc
  iic_of :: "iic_op list"
  card :: 'f
  ops :: "sys_op list"

record 'f boot_env =
  blibs :: "'f libs"
  bcard :: "'f card_fs"
  bboard :: board
  bdrv :: iic_driver
  ee_junk :: "bool \<Rightarrow> u8 list"
  page_junk :: "u8 list"
  i2c_found :: "nat \<Rightarrow> bool"
  qspi_found :: bool
  qspi_status :: nat
  xemac_added :: bool
  dhcp_error :: int

definition realmain :: "'f boot_env \<Rightarrow> 'f machine \<Rightarrow> 'f machine run" where
  "realmain e m =
     run_bind (sdcard_handle (blibs e) (bcard e) (bboard e) (bdrv e) (ee_junk e) ((zero_conf, psc_of m, iic_of m), card m))
       (\<lambda>((conf, s, h), fs).
     run_bind (InitSettingsfromQspi (bboard e) (page_junk e) s) (\<lambda>s.
       let os = net_setup (xemac_added e) (dhcp_error e) conf (ops m)
       in Ret (m\<lparr>psc_of := s, iic_of := h, card := fs, ops := discover_setup os @ [Psc_Run 3000]\<rparr>)))"

text \<open>\<open>main\<close> up to the scheduler, which runs \<open>realmain\<close> as the first thread.\<close>

definition main :: "'f boot_env \<Rightarrow> 'f machine \<Rightarrow> 'f machine run" where
  "main e m =
     run_bind (init_i2c (i2c_found e) (ops m)) (\<lambda>os.
     run_bind (prog_si570 (bdrv e) (iic_of m)) (\<lambda>h.
       let (_, os) = QspiFlashInit (qspi_found e) (qspi_status e) os
       in Ret (m\<lparr>psc_of := main_writes (bboard e) (psc_of m), iic_of := h, ops := os @ [Thread ''main'', Scheduler]\<rparr>)))"

end
