(* ===== verification/Boot_Ok.thy ===== *)
theory Boot_Ok
  imports Start_Up Setpoint
begin

text \<open>
  What holds of the start of the program as a whole: without a readable card, and for the EEPROM.
\<close>

section \<open>The settings at start-up\<close>

definition same_factors :: "psc \<Rightarrow> psc \<Rightarrow> bool" where
  "same_factors s s' \<longleftrightarrow> CONVVOLTSTODACBITS s' = CONVVOLTSTODACBITS s \<and> CONVDACBITSTOVOLTS s' = CONVDACBITSTOVOLTS s"

text \<open>Reading and dispersing the four pages always ends and leaves the conversion factors alone.\<close>

lemma fold_out_sel:
  "scalefactors (fold (\<lambda>(r, v). Xil_Out32 (f r) v) ws s) = scalefactors s"
  "CONVVOLTSTODACBITS (fold (\<lambda>(r, v). Xil_Out32 (f r) v) ws s) = CONVVOLTSTODACBITS s"
  "CONVDACBITSTOVOLTS (fold (\<lambda>(r, v). Xil_Out32 (f r) v) ws s) = CONVDACBITSTOVOLTS s"
  by (induction ws arbitrary: s) auto

lemma init_chan_Ret:
  assumes "c \<in> {1, 2, 3, 4}" "length (scalefactors s) = 4"
  shows "\<exists>buf' s'. init_chan b c (buf, s) = Ret (buf', s') \<and> length (scalefactors s') = 4
    \<and> same_factors s s'"
proof -
  obtain buf1 t where t: "QspiFlashRead b (c * FLASH_SECTOR_SIZE) FLASH_PAGE_SIZE buf s = (buf1, t)"
    by (cases "QspiFlashRead b (c * FLASH_SECTOR_SIZE) FLASH_PAGE_SIZE buf s")
  then have "length (scalefactors t) = 4" "same_factors s t"
    using assms(2) by (auto simp: same_factors_def QspiFlashRead_def XQspiPs_PolledTransfer_def Let_def)
  moreover have "unat (c - 1) < 4" using assms(1) by auto
  ultimately show ?thesis
    by (simp add: init_chan_def t QspiDisperseData_def Let_def sf_update_def fold_out_sel same_factors_def)
qed

lemma init_chans_Ret:
  assumes "set cs \<subseteq> {1, 2, 3, 4}" "length (scalefactors s) = 4"
  shows "\<exists>buf' s'. run_fold (init_chan b) cs (buf, s) = Ret (buf', s') \<and> length (scalefactors s') = 4
    \<and> same_factors s s'"
  using assms
proof (induction cs arbitrary: buf s)
  case (Cons c cs)
  obtain buf1 s1 where 1: "init_chan b c (buf, s) = Ret (buf1, s1)" "length (scalefactors s1) = 4"
    "same_factors s s1" using init_chan_Ret [of c s b buf] Cons.prems by auto
  then show ?case using Cons.IH [of s1 buf1] Cons.prems by (auto simp: same_factors_def)
qed (auto simp: same_factors_def)

lemma InitSettings_Ret:
  assumes "length (scalefactors s) = 4"
  shows "\<exists>s'. InitSettingsfromQspi b stack s = Ret s' \<and> same_factors s s'"
proof -
  let ?s = "Xil_Out32 (glob_reg b EVR_PM_EVENTNUM_REG) 10 (Xil_Out32 (glob_reg b EVR_INJ_EVENTNUM_REG) 10 s)"
  obtain buf' s' where "run_fold (init_chan b) [1, 2, 3, 4] (stack, ?s) = Ret (buf', s')"
    "same_factors ?s s'"
    using init_chans_Ret [of "[1, 2, 3, 4]" ?s b stack] assms by auto
  then show ?thesis unfolding InitSettingsfromQspi_def Let_def by (simp add: same_factors_def del: run_fold.simps)
qed

section \<open>Conversion with a factor of zero\<close>

lemma zero_bits:
  assumes "fin32 A" "fin32 D" "val32 D \<noteq> 0"
  shows "s32_of_f32 (f32_div (f32_mul A 0) D) = Ret 0"
proof -
  obtain s m e where A: "dec32 A = FFin s m e" using assms(1) unfolding fin32_def by (metis fv_finiteE)
  obtain t k f where D: "dec32 D = FFin t k f" "k \<noteq> 0"
    using assms(2,3) unfolding fin32_def val32_def by (cases "dec32 D") auto
  have z: "dec32 0 = FFin False 0 (- 149)" by (simp add: dec32_def decode_def single_def emin_def Let_def)
  have "dec32 (f32_mul A 0) = FFin s 0 (- 149)"
    using zero_float(1) [of s] by (simp add: f32_mul_def A z fround_def single_consts)
  then have "dec32 (f32_div (f32_mul A 0) D) = FFin (s \<noteq> t) 0 (- 149)"
    using zero_float(1) [of "s \<noteq> t"] D by (simp add: f32_div_def fround_def single_consts)
  then show ?thesis by (simp add: s32_of_f32_def s32_of_fv_def)
qed

lemma Set_dac_factor_zero:
  assumes sf: "sf_at chan s = Ret sf" "sane_scale (dac_dccts sf)" and a: "dec32 amps \<noteq> FNaN"
    and z: "CONVVOLTSTODACBITS s = 0" and mode: "reg_answer b (bus s) (chan_reg b chan DAC_OPMODE_REG) = JUMP"
  shows "Set_dac b chan amps s = Ret (s\<lparr>bus := bus s @ [Rd (chan_reg b chan DAC_OPMODE_REG), Wr (chan_reg b chan DAC_SETPT_REG) 0]\<rparr>)"
proof -
  have D: "fin32 (dac_dccts sf)" "val32 (dac_dccts sf) \<noteq> 0"
    using sf(2) by (auto simp: sane_scale_def)
  have "s32_of_f32 (f32_div (f32_mul (clamp_amps (dac_dccts sf) amps) 0) (dac_dccts sf)) = Ret 0"
    using zero_bits [OF _ D] clamp_bounds [OF sf(2) a] by blast
  moreover have "sf_at chan (s\<lparr>bus := x\<rparr>) = Ret sf" for x using sf(1) by (simp add: sf_at_def split: if_splits)
  ultimately show ?thesis using z mode
    by (simp add: Set_dac_def Xil_In32_def dac_bits_def chan_out_def Xil_Out32_def)
qed

section \<open>A start without a card\<close>

definition no_card :: "'f card_fs \<Rightarrow> bool" where
  "no_card c \<longleftrightarrow> (\<forall>r fs. fst (fs_mount c r fs) \<noteq> 0)"

lemma sdcard_handle_no_card: "no_card c \<Longrightarrow> \<exists>fs'. sdcard_handle l c b d ee (st, fs) = Ret (st, fs')"
  by (auto simp: sdcard_handle_def sdcard_trypart_def no_card_def split_beta)

lemma realmain_no_card:
  assumes "no_card (bcard e)" "length (scalefactors (psc_of m)) = 4"
  shows "\<exists>m'. realmain e m = Ret m' \<and> CONVVOLTSTODACBITS (psc_of m') = CONVVOLTSTODACBITS (psc_of m)
    \<and> iic_of m' = iic_of m \<and> ops m' = discover_setup (net_setup (xemac_added e) (dhcp_error e) zero_conf (ops m)) @ [Psc_Run 3000]"
proof -
  obtain fs where fs: "sdcard_handle (blibs e) (bcard e) (bboard e) (bdrv e) (ee_junk e) ((zero_conf, psc_of m, iic_of m), card m) =
      Ret ((zero_conf, psc_of m, iic_of m), fs)" using sdcard_handle_no_card [OF assms(1)] by blast
  obtain s where "InitSettingsfromQspi (bboard e) (page_junk e) (psc_of m) = Ret s" "CONVVOLTSTODACBITS s = CONVVOLTSTODACBITS (psc_of m)"
    using InitSettings_Ret [OF assms(2)] by (auto simp: same_factors_def)
  then show ?thesis by (simp add: realmain_def fs Let_def)
qed

section \<open>The EEPROM at start-up\<close>

text \<open>From \<open>h\<close> to \<open>h'\<close> no message of more than one byte was sent: nothing was written.\<close>

definition only_read :: "iic_op list \<Rightarrow> iic_op list \<Rightarrow> bool" where
  "only_read h h' \<longleftrightarrow> (\<exists>es. h' = h @ es \<and> (\<forall>i bs a. MasterSend i bs a \<in> set es \<longrightarrow> length bs \<le> 1))"

lemma only_read_refl: "only_read h h"
  by (simp add: only_read_def)

lemma only_read_trans: "only_read h h1 \<Longrightarrow> only_read h1 h2 \<Longrightarrow> only_read h h2"
  unfolding only_read_def by (metis append.assoc set_append Un_iff)

lemma wait_only_reads: "or_hang (wait_idle d i h) = Ret h' \<Longrightarrow> only_read h h'"
  using wait_idle_polls [of d i h h'] by (auto simp: only_read_def)

lemma only_read_snoc:
  "length bs \<le> 1 \<Longrightarrow> only_read h h' \<Longrightarrow> only_read h (h' @ [MasterSend i bs a])"
  "only_read h h' \<Longrightarrow> only_read h (h' @ [MasterRecv i n a])"
  by (fastforce simp: only_read_def)+

lemma get_mac_only_reads:
  assumes "i2c_get_mac_address d mac h = Ret (mac', h')"
  shows "only_read h h'"
proof -
  obtain st h1 where w: "i2c1_write d [IIC_MAC_REG, 0, 0, 0, 0, 0] 1 IIC_EEPROM_ADDR h = Ret (st, h1)"
    and r: "\<exists>st2 mac2. i2c1_read d mac 6 IIC_EEPROM_ADDR h1 = Ret (st2, mac2, h')"
    using assms by (auto simp: i2c_get_mac_address_def)
  obtain h2 where "or_hang (wait_idle d 1 h) = Ret h2" "h1 = h2 @ [MasterSend 1 [IIC_MAC_REG] IIC_EEPROM_ADDR]"
    using w by (auto simp: i2c1_write_def i2c_write_def Let_def)
  then have 1: "only_read h h1" using only_read_snoc(1) [OF _ wait_only_reads] by simp
  obtain h3 where "or_hang (wait_idle d 1 h1) = Ret h3" "h' = h3 @ [MasterRecv 1 6 IIC_EEPROM_ADDR]"
    using r by (auto simp: i2c1_read_def i2c_read_def Let_def split_beta)
  then have "only_read h1 h'" using only_read_snoc(2) [OF wait_only_reads] by simp
  then show ?thesis using 1 only_read_trans by blast
qed

definition reads_iic :: "iic_op list \<Rightarrow> conf_state run \<Rightarrow> bool" where
  "reads_iic h r \<longleftrightarrow> (\<forall>conf s h'. r = Ret (conf, s, h') \<longrightarrow> only_read h h')"

lemma reads_iic_rules:
  "only_read h h' \<Longrightarrow> reads_iic h (Ret (conf, s, h'))"
  "reads_iic h q \<Longrightarrow> reads_iic h r \<Longrightarrow> reads_iic h (if c then q else r)"
  "reads_iic h (Ret x) \<Longrightarrow> reads_iic h (Ret y) \<Longrightarrow> reads_iic h (Ret (if c then x else y))"
  "reads_iic h q \<Longrightarrow> (\<And>x. reads_iic h (f x)) \<Longrightarrow> reads_iic h (case z of None \<Rightarrow> q | Some x \<Rightarrow> f x)"
  by (auto simp: reads_iic_def split: option.split)

lemma reads_iic_mac: "reads_iic h (run_bind (i2c_get_mac_address d mac h) (\<lambda>(mac, h). Ret (f mac, s, h)))"
  using get_mac_only_reads by (auto simp: reads_iic_def)

lemma netconf_cmd_reads: "reads_iic h (netconf_cmd l b d cmd arg (conf, s, h))"
  unfolding netconf_cmd_def prod.case
  by (intro reads_iic_rules reads_iic_mac only_read_refl)

lemma netconf_line_reads: "reads_iic h (netconf_line l b d line (conf, s, h))"
  unfolding netconf_line_def split_beta
  by (intro reads_iic_rules netconf_cmd_reads only_read_refl)

lemma sdcard_netconf_reads:
  assumes "sdcard_netconf l b d fd st = Some r"
  shows "reads_iic (snd (snd st)) r"
proof (rule sdcard_netconf.raw_induct [where P = "\<lambda>l b d fd st r. reads_iic (snd (snd st)) r", OF _ assms])
  fix f :: "'a libs \<Rightarrow> board \<Rightarrow> iic_driver \<Rightarrow> 'a \<Rightarrow> conf_state \<Rightarrow> conf_state run option" and l b d fd st r
  assume IH: "\<And>l b d fd st r. f l b d fd st = Some r \<Longrightarrow> reads_iic (snd (snd st)) r"
    and e: "(case f_gets l 64 fd of None \<Rightarrow> Some (Ret st)
      | Some (line, fd) \<Rightarrow> (case netconf_line l b d line st of
          Ret st \<Rightarrow> f l b d fd st | Undef u \<Rightarrow> Some (Undef u) | Hang \<Rightarrow> Some Hang)) = Some r"
  obtain conf s h where st: "st = (conf, s, h)" by (cases st)
  show "reads_iic (snd (snd st)) r"
  proof (cases "f_gets l 64 fd")
    case None
    then have "r = Ret st" using e by simp
    then show ?thesis by (simp add: st reads_iic_def only_read_refl)
  next
    case (Some x)
    obtain line fd' where x: "x = (line, fd')" by (cases x)
    show ?thesis
    proof (cases "netconf_line l b d line st")
      case (Ret st1)
      obtain conf1 s1 h1 where st1: "st1 = (conf1, s1, h1)" by (cases st1)
      have "f l b d fd' st1 = Some r" using e Some x Ret by simp
      from IH [OF this] have "reads_iic h1 r" by (simp add: st1)
      moreover have "only_read h h1" using netconf_line_reads [of h l b d line conf s] Ret by (simp add: st st1 reads_iic_def)
      ultimately show ?thesis unfolding reads_iic_def st by (auto intro: only_read_trans)
    next
      case (Undef u)
      then have "r = Undef u" using e Some x by simp
      then show ?thesis by (simp add: reads_iic_def)
    next
      case Hang
      then have "r = Hang" using e Some x by simp
      then show ?thesis by (simp add: reads_iic_def)
    qed
  qed
qed

lemma process_reads:
  assumes "sdcard_process l c b d ee ((conf, s, h), fs) = Ret ((conf', s', h'), fs')"
  shows "only_read h h'"
proof -
  have p: "\<exists>fs1. process_netconf l c b d ((conf, s, h), fs) = Ret ((conf', s', h'), fs1)"
    using assms by (auto simp: sdcard_process_def)
  show ?thesis
  proof (cases "fst (fs_open c ''NET.CNF'' EXISTING_READ fs) = 0")
    case False
    then show ?thesis using p by (auto simp: process_netconf_def split_beta only_read_refl)
  next
    case True
    then obtain r where "sdcard_netconf l b d (snd (fs_open c ''NET.CNF'' EXISTING_READ fs)) (conf, s, h) = Some r"
      "r = Ret (conf', s', h')"
      using p by (auto simp: process_netconf_def split_beta or_hang_def split: option.splits)
    with sdcard_netconf_reads [OF this(1)] show ?thesis by (simp add: reads_iic_def)
  qed
qed

lemma handle_reads:
  assumes "sdcard_handle l c b d ee ((conf, s, h), fs) = Ret ((conf', s', h'), fs')"
  shows "only_read h h'"
proof -
  have t: "only_read h h1" if "sdcard_trypart l c b d ee r ((conf, s, h), fs) = Ret (x, (conf1, s1, h1), fs1)"
    for r conf s h fs x conf1 s1 h1 fs1
    using that by (auto simp: sdcard_trypart_def split_beta only_read_refl process_reads split: if_splits)
  obtain x conf1 s1 h1 fs1 where 1: "sdcard_trypart l c b d ee ''0:/'' ((conf, s, h), fs) = Ret (x, (conf1, s1, h1), fs1)"
    using assms by (auto simp: sdcard_handle_def)
  show ?thesis
  proof (cases x)
    case False
    then show ?thesis using assms 1 t [OF 1] by (simp add: sdcard_handle_def)
  next
    case True
    then obtain y where "sdcard_trypart l c b d ee ''1:/'' ((conf1, s1, h1), fs1) = Ret (y, (conf', s', h'), fs')"
      using assms 1 by (auto simp: sdcard_handle_def)
    from t [OF this] t [OF 1] show ?thesis using only_read_trans by blast
  qed
qed

section \<open>Discovery\<close>

lemma disco_msg:
  assumes "lwip_doc l"
  shows "pbuf_copy_partial l p 12 0 = take 12 (concat p)"
  using assms by (simp add: lwip_doc_def)

lemma disco_recv_frame:
  assumes l: "lwip_doc l" "buffers_free l" and p: "concat p = psc_header (mid, len) @ body"
  shows "disco_recv l git_hash p a pt s =
    (if mid = 1234 \<and> unat len \<le> min 4 (length body)
     then s\<lparr>rx_held := rx_held s @ [p], buffers := buffers s + 1, replies := replies s @ [(a, pt, disco_reply git_hash)]\<rparr>
     else s\<lparr>rx_held := rx_held s @ [p]\<rparr>)"
proof -
  let ?m = "psc_header (mid, len) @ take 4 body"
  have m: "pbuf_copy_partial l p 12 0 = ?m" using disco_msg [OF l(1), of p] by (simp add: p)
  have n: "length ?m = 8 + min 4 (length body)" by simp
  have h: "of_be16 (drop 2 ?m) = mid" "of_be32 (drop 4 ?m) = len" "?m ! 0 = 0x50" "?m ! 1 = 0x53"
    by (simp_all add: psc_header_def be16_def of_be16_def be32_def of_be32_def)
  have "(of_nat (length ?m) - 8 :: u32) = of_nat (min 4 (length body))" unfolding n by simp
  then have lt: "of_nat (length ?m) - 8 < len \<longleftrightarrow> \<not> unat len \<le> min 4 (length body)"
    by (auto simp: word_less_nat_alt not_le min_less_iff_disj simp del: of_nat_min)
  have "\<not> length ?m < 8" by simp
  then show ?thesis using l(2)
    unfolding disco_recv_def Let_def m h lt by (auto simp: buffers_free_def)
qed

text \<open>Any other datagram is too short or has another magic, and is dropped.\<close>

lemma header_split:
  assumes "8 \<le> length bs" "bs ! 0 = 0x50" "bs ! 1 = 0x53"
  shows "bs = psc_header (of_psc_header (take 8 bs)) @ drop 8 bs"
proof -
  have "take 8 bs = [0x50, 0x53] @ take 2 (drop 2 (take 8 bs)) @ drop 4 (take 8 bs)"
    using assms by (intro nth_equalityI) (auto simp: nth_append nth_Cons numeral_eq_Suc less_Suc_eq split: nat.splits)
  also have "\<dots> = psc_header (of_psc_header (take 8 bs))"
    using assms(1) by (simp add: psc_header_def of_psc_header_def be16.enc_dec be32.enc_dec)
  finally show ?thesis using append_take_drop_id [of 8 bs] by simp
qed

lemma disco_recv_other:
  assumes l: "lwip_doc l" and p: "\<nexists>h body. concat p = psc_header h @ body"
  shows "disco_recv l git_hash p a pt s = s\<lparr>rx_held := rx_held s @ [p]\<rparr>"
proof -
  let ?m = "take 12 (concat p)"
  have "length ?m < 8 \<or> ?m ! 0 \<noteq> 0x50 \<or> ?m ! 1 \<noteq> 0x53"
  proof (rule ccontr)
    assume "\<not> ?thesis"
    then have "8 \<le> length (concat p)" "concat p ! 0 = 0x50" "concat p ! 1 = 0x53" by auto
    from header_split [OF this] p show False by blast
  qed
  then show ?thesis unfolding disco_recv_def Let_def disco_msg [OF l] by simp
qed

lemma disco_reply_frame: "disco_reply git_hash = frame (1234, be32 git_hash @ [0, 0, 0, 0])"
  by (simp add: disco_reply_def frame_def psc_header_def be32.length_enc be16_def)

section \<open>Statistics and DHCP\<close>

text \<open>The statistics are 21 words in network order, at the offsets lstats.c notes for them.\<close>

lemma lstats_message:
  assumes "length (lwip_link o_s) = 7" "length (lwip_mem o_s) = 5" "case sysmon o_s of None \<Rightarrow> True | Some v \<Rightarrow> length v = 3"
  shows "length (mem_words (map htonl (lstats_words k m o_s))) = 84
    \<and> mem_words (map htonl (lstats_words k m o_s)) = concat (map be32 (lstats_words k m o_s))
    \<and> lstats_words k m o_s ! (68 div 4) = heap_avail o_s \<and> lstats_words k m o_s ! (80 div 4) = heap_allocs o_s - heap_frees o_s"
proof -
  have "length (lstats_words k m o_s) = 21" "lstats_words k m o_s ! 17 = heap_avail o_s"
    "lstats_words k m o_s ! 20 = heap_allocs o_s - heap_frees o_s"
    using assms by (auto simp: lstats_words_def nth_append split: option.splits)
  then show ?thesis by (simp add: mem_words_def comp_def le32_htonl be32.length_concat_enc)
qed

text \<open>With lwIP's times the coarse timer runs once in every 120 turns, a minute.\<close>

lemma dhcp_minute:
  "n < 120 \<Longrightarrow> (dhcp_turn 500 60 ^^ n) (0, os) = (500 * int n, os @ replicate n Dhcp_Fine_Tmr)"
  "(dhcp_turn 500 60 ^^ 120) (0, os) = (0, os @ replicate 120 Dhcp_Fine_Tmr @ [Dhcp_Coarse_Tmr])"
proof -
  have r: "replicate n x @ [x] = replicate (Suc n) x" for n and x :: sys_op by (simp add: replicate_append_same)
  show *: "(dhcp_turn 500 60 ^^ n) (0, os) = (500 * int n, os @ replicate n Dhcp_Fine_Tmr)" if "n < 120" for n
    using that
  proof (induction n)
    case (Suc n)
    then show ?case by (simp add: dhcp_turn_def Let_def replicate_append_same)
  qed simp
  have "(dhcp_turn 500 60 ^^ Suc 119) (0, os) = dhcp_turn 500 60 ((dhcp_turn 500 60 ^^ 119) (0, os))"
    unfolding funpow.simps o_apply ..
  also have "\<dots> = (0, os @ (replicate 119 Dhcp_Fine_Tmr @ [Dhcp_Fine_Tmr]) @ [Dhcp_Coarse_Tmr])"
    using * [of 119] by (simp add: dhcp_turn_def Let_def)
  finally show "(dhcp_turn 500 60 ^^ 120) (0, os) = (0, os @ replicate 120 Dhcp_Fine_Tmr @ [Dhcp_Coarse_Tmr])"
    unfolding r by simp
qed

section \<open>Properties\<close>

text \<open>
  C19. A board that starts without a readable SD card comes up, but dead: no resolution is chosen, so the
  conversion factor from amps to DAC counts stays zero, and from then on every setpoint of every channel
  that is accepted in jump mode is written as zero; its network starts with hardware address zero and DHCP.
\<close>

theorem boot_without_card:
  assumes "no_card (bcard e)" "length (scalefactors (psc_of m)) = 4" "CONVVOLTSTODACBITS (psc_of m) = 0"
  shows "\<exists>m'. realmain e m = Ret m' \<and>
    (\<exists>xs. ops m' = ops m @ [Lwip_Init, Xemac_Add 0 0 0 [0, 0, 0, 0, 0, 0]] @ xs) \<and>
    (\<forall>s chan sf amps. CONVVOLTSTODACBITS s = CONVVOLTSTODACBITS (psc_of m') \<and> sf_at chan s = Ret sf \<and> sane_scale (dac_dccts sf)
       \<and> dec32 amps \<noteq> FNaN \<and> reg_answer (bboard e) (bus s) (chan_reg (bboard e) chan DAC_OPMODE_REG) = JUMP \<longrightarrow>
     Set_dac (bboard e) chan amps s =
       Ret (s\<lparr>bus := bus s @ [Rd (chan_reg (bboard e) chan DAC_OPMODE_REG), Wr (chan_reg (bboard e) chan DAC_SETPT_REG) 0]\<rparr>))"
proof -
  obtain m' where m': "realmain e m = Ret m'" "CONVVOLTSTODACBITS (psc_of m') = CONVVOLTSTODACBITS (psc_of m)"
    "ops m' = discover_setup (net_setup (xemac_added e) (dhcp_error e) zero_conf (ops m)) @ [Psc_Run 3000]"
    using realmain_no_card [OF assms(1,2)] by blast
  have "\<exists>xs. ops m' = ops m @ [Lwip_Init, Xemac_Add 0 0 0 [0, 0, 0, 0, 0, 0]] @ xs"
    by (auto simp: m'(3) discover_setup_def net_setup_def zero_conf_def eval_nat_numeral Let_def)
  with m'(1,2) assms(3) Set_dac_factor_zero show ?thesis by auto
qed

definition empty_slot :: "unit card_fs" where
  "empty_slot = \<lparr>fs_mount = \<lambda>_ f. (3, f), fs_chdir = \<lambda>_ f. (0, f), fs_unmount = \<lambda>_ f. (0, f), fs_open = \<lambda>_ _ f. (4, f),
     fs_close = \<lambda>f. (0, f), fs_read = \<lambda>_ f. (0, [], f), fs_lseek = \<lambda>_ f. (0, f), fs_truncate = \<lambda>f. (0, f),
     fs_write = \<lambda>_ f. (0, 0, f), fs_sync = \<lambda>f. (0, f), fs_unlink = \<lambda>_ f. (0, f)\<rparr>"

definition bare_env :: "unit boot_env" where
  "bare_env = \<lparr>blibs = \<lparr>f_gets = \<lambda>_ _. None, inet_aton = \<lambda>_. None, lwip_isspace = \<lambda>_. False\<rparr>, bcard = empty_slot,
     bboard = sim_board, bdrv = idle_driver, ee_junk = \<lambda>_. replicate 256 0, page_junk = replicate 256 0, i2c_found = \<lambda>_. True,
     qspi_found = True, qspi_status = 0, xemac_added = True, dhcp_error = 0\<rparr>"

definition bare_machine :: "unit machine" where
  "bare_machine = \<lparr>psc_of = \<lparr>bus = [], scalefactors = replicate 4 some_sf, CONVVOLTSTODACBITS = 0, CONVDACBITSTOVOLTS = 0\<rparr>,
     iic_of = [], card = (), ops = []\<rparr>"

theorem boot_without_card_witness:
  "\<exists>m'. realmain bare_env bare_machine = Ret m' \<and> hd (ops m') = Lwip_Init \<and>
    Set_dac sim_board 2 0x41200000 (jump_psc\<lparr>CONVVOLTSTODACBITS := CONVVOLTSTODACBITS (psc_of m')\<rparr>) =
      Ret (jump_psc\<lparr>CONVVOLTSTODACBITS := CONVVOLTSTODACBITS (psc_of m'),
        bus := bus jump_psc @ [Rd (chan_reg sim_board 2 DAC_OPMODE_REG), Wr (chan_reg sim_board 2 DAC_SETPT_REG) 0]\<rparr>)"
proof -
  have "no_card (bcard bare_env)" "length (scalefactors (psc_of bare_machine)) = 4" "CONVVOLTSTODACBITS (psc_of bare_machine) = 0"
    by (simp_all add: no_card_def bare_env_def empty_slot_def bare_machine_def)
  from boot_without_card [OF this] obtain m' where m': "realmain bare_env bare_machine = Ret m'"
    "\<exists>xs. ops m' = [Lwip_Init, Xemac_Add 0 0 0 [0, 0, 0, 0, 0, 0]] @ xs"
    and d: "\<forall>s chan sf amps. CONVVOLTSTODACBITS s = CONVVOLTSTODACBITS (psc_of m') \<and> sf_at chan s = Ret sf \<and> sane_scale (dac_dccts sf)
       \<and> dec32 amps \<noteq> FNaN \<and> reg_answer sim_board (bus s) (chan_reg sim_board chan DAC_OPMODE_REG) = JUMP \<longrightarrow>
     Set_dac sim_board chan amps s =
       Ret (s\<lparr>bus := bus s @ [Rd (chan_reg sim_board chan DAC_OPMODE_REG), Wr (chan_reg sim_board chan DAC_SETPT_REG) 0]\<rparr>)"
    by (auto simp: bare_env_def bare_machine_def)
  have a: "dec32 0x41200000 \<noteq> FNaN" by (simp add: dec32_def decode_def single_def Let_def)
  have "sf_at 2 (jump_psc\<lparr>CONVVOLTSTODACBITS := x\<rparr>) = Ret some_sf" for x
    using jump_psc_facts(1) by (auto simp: sf_at_def split: if_splits)
  then show ?thesis
    using m' d [rule_format, of "jump_psc\<lparr>CONVVOLTSTODACBITS := CONVVOLTSTODACBITS (psc_of m')\<rparr>" 2 some_sf "0x41200000"] a jump_psc_facts(2,5)
    by auto
qed

text \<open>
  C23. The SD card never reaches the EEPROM: whatever files are on the card, among them EEPROM.NEW, which is
  deleted afterwards, no message sent on the I2C buses while the card is handled carries data to be
  written; all there is are reads of the hardware address.
\<close>

theorem card_never_writes_eeprom:
  assumes "sdcard_handle l c b d ee ((conf, s, h), fs) = Ret ((conf', s', h'), fs')"
  shows "\<exists>es. h' = h @ es \<and> (\<forall>i bs a. MasterSend i bs a \<in> set es \<longrightarrow> length bs \<le> 1)"
  using handle_reads [OF assms] by (simp add: only_read_def)

text \<open>A card with EEPROM.NEW only: the state is the files it has.\<close>

definition new_card :: "string set card_fs" where
  "new_card = \<lparr>fs_mount = \<lambda>_ f. (0, f), fs_chdir = \<lambda>_ f. (0, f), fs_unmount = \<lambda>_ f. (0, f),
     fs_open = \<lambda>n _ f. (if n \<in> f then 0 else 4, f),
     fs_close = \<lambda>f. (0, f), fs_read = \<lambda>_ f. (0, replicate 256 1, f), fs_lseek = \<lambda>_ f. (0, f), fs_truncate = \<lambda>f. (0, f),
     fs_write = \<lambda>bs f. (0, length bs, f), fs_sync = \<lambda>f. (0, f), fs_unlink = \<lambda>n f. (0, f - {n})\<rparr>"

theorem card_never_writes_eeprom_witness:
  "\<exists>l st h'. sdcard_handle l new_card sim_board idle_driver (\<lambda>_. replicate 256 0) ((zero_conf, some_psc0, []), {''EEPROM.NEW''}) =
      Ret ((zero_conf, some_psc0, h'), {}) \<and> (\<forall>i bs a. MasterSend i bs a \<in> set h' \<longrightarrow> length bs \<le> 1)"
proof -
  let ?l = "\<lparr>f_gets = \<lambda>_ _. None, inet_aton = \<lambda>_. None, lwip_isspace = \<lambda>_. False\<rparr> :: string set libs"
  have "sdcard_handle ?l new_card sim_board idle_driver (\<lambda>_. replicate 256 0) ((zero_conf, some_psc0, []), {''EEPROM.NEW''}) =
      Ret ((zero_conf, some_psc0, []), {})"
    by (simp add: sdcard_handle_def sdcard_trypart_def sdcard_process_def process_netconf_def process_new_def process_dat_def
        sdcard_sync_eeprom_def new_card_def Let_def)
  with card_never_writes_eeprom [OF this] show ?thesis by blast
qed

text \<open>
  C26. Exactly the discovery requests are answered, among all datagrams of any length and content. A
  datagram gets one reply to its sender if it starts with the eight bytes of a header, the magic
  "PS" and the id 1234 among them, whose length says no more than the bytes that follow and no more
  than four. Any other gets none: one that is too short, has another magic, another id, or a length
  that is too large. The reply is itself a message of the protocol. The buffer of every
  datagram, answered or not, is kept for ever.
\<close>

theorem discovery_answers:
  assumes "lwip_doc l" "buffers_free l"
  shows "replies (disco_recv l git_hash p a pt s) = replies s @
      (if \<exists>len body. concat p = psc_header (1234, len) @ body \<and> unat len \<le> min 4 (length body)
       then [(a, pt, frame (1234, be32 git_hash @ [0, 0, 0, 0]))] else [])
    \<and> rx_held (disco_recv l git_hash p a pt s) = rx_held s @ [p]"
proof (cases "\<exists>h body. concat p = psc_header h @ body")
  case True
  then obtain mid len body where p: "concat p = psc_header (mid, len) @ body" by auto
  then have "(\<exists>len body. concat p = psc_header (1234, len) @ body \<and> unat len \<le> min 4 (length body)) \<longleftrightarrow>
      mid = 1234 \<and> unat len \<le> min 4 (length body)"
    by (auto simp: psc_header.enc_append_eq)
  then show ?thesis using disco_recv_frame [OF assms p, of git_hash a pt s] by (simp add: disco_reply_frame)
next
  case False
  with disco_recv_other [OF assms(1) False, of git_hash a pt s] show ?thesis by auto
qed

text \<open>A request, one whose length is too large, one with another magic, and one of three bytes.\<close>

definition no_datagrams :: disco where
  "no_datagrams = \<lparr>rx_held = [], replies = [], buffers = 0\<rparr>"

theorem discovery_answers_witness:
  "replies (disco_recv lwip_ref 7 [psc_header (1234, 0)] 0xC0A80001 5000 no_datagrams) =
      [(0xC0A80001, 5000, frame (1234, be32 7 @ [0, 0, 0, 0]))]
    \<and> replies (disco_recv lwip_ref 7 [psc_header (1234, 5), [1, 2, 3, 4, 5]] 0xC0A80001 5000 no_datagrams) = []
    \<and> replies (disco_recv lwip_ref 7 [0x50 # 0x54 # drop 2 (psc_header (1234, 0))] 0xC0A80001 5000 no_datagrams) = []
    \<and> replies (disco_recv lwip_ref 7 [[0x50, 0x53, 0x04]] 0xC0A80001 5000 no_datagrams) = []"
proof -
  note d = discovery_answers [OF lwip_ref_ok, of 7 _ "0xC0A80001" 5000 no_datagrams]
  have e: "replies no_datagrams = []" by (simp add: no_datagrams_def)
  have 1: "\<exists>len body. concat [psc_header (1234, 0)] = psc_header (1234, len) @ body \<and> unat len \<le> min 4 (length body)"
    by (intro exI [of _ 0] exI [of _ "[]"]) simp
  have 2: "\<not> (\<exists>len body. concat [psc_header (1234, 5), [1, 2, 3, 4, 5]] = psc_header (1234, len) @ body \<and> unat len \<le> min 4 (length body))"
    by (auto simp: psc_header.enc_append_eq)
  have 3: "\<not> (\<exists>len body. concat [0x50 # 0x54 # drop 2 (psc_header (1234, 0))] = psc_header (1234, len) @ body \<and> unat len \<le> min 4 (length body))"
    by (simp add: psc_header_def)
  have 4: "\<not> (\<exists>len body. concat [[0x50, 0x53, 0x04]] = psc_header (1234, len) @ body \<and> unat len \<le> min 4 (length body))"
    by (auto simp: psc_header_def be16_def)
  show ?thesis using d [of "[psc_header (1234, 0)]"] d [of "[psc_header (1234, 5), [1, 2, 3, 4, 5]]"]
      d [of "[0x50 # 0x54 # drop 2 (psc_header (1234, 0))]"] d [of "[[0x50, 0x53, 0x04]]"]
    by (simp only: 1 2 3 4 e if_True if_False append_Nil append_Nil2 simp_thms)
qed

end
