(* ===== verification/Boot_Card.thy ===== *)
theory Boot_Card
  imports Boot_Ok
begin

text \<open>
  The start with an SD card: what comes from the file NET.CNF and what from the flash, and that both
  are in force when the server starts.
\<close>

section \<open>The files of the card\<close>

lemma lines_read_ends:
  assumes "reads_lines l lines"
  shows "\<exists>fs'. lines_read l fs = Some fs'"
proof (induction "lines fs" arbitrary: fs)
  case Nil
  have "f_gets l 64 fs = None" using assms [unfolded reads_lines_def, rule_format, of fs] Nil [symmetric] by simp
  then show ?case by (subst lines_read.simps) simp
next
  case (Cons x xs)
  obtain fs' where "f_gets l 64 fs = Some (x, fs')" "lines fs' = xs"
    using assms [unfolded reads_lines_def, rule_format, of fs] Cons.hyps(2) [symmetric] by auto
  then show ?case using Cons.hyps(1) by (subst lines_read.simps) simp
qed

lemma process_netconf_lines:
  assumes "fs_open c ''NET.CNF'' EXISTING_READ fs = (0, f)" "reads_lines l lines" "frees d 1"
  shows "\<exists>st' fs'. run_fold (netconf_line l b d) (lines f) st = Ret st'
    \<and> process_netconf l c b d (st, fs) = Ret (st', fs')"
proof -
  obtain st' where "run_fold (netconf_line l b d) (lines f) st = Ret st'" using netconf_lines_Ret [OF assms(3)] by blast
  moreover obtain fs' where "lines_read l f = Some fs'" using lines_read_ends [OF assms(2)] by blast
  ultimately show ?thesis
    by (cases st') (simp add: process_netconf_def assms(1) sdcard_netconf_fold [OF assms(2)] or_hang_def)
qed

lemma sdcard_handle_card:
  assumes "fs_mount c ''0:/'' fs = (0, f1)" "fs_chdir c ''0:/'' f1 = (0, f2)"
    and "fs_open c ''NET.CNF'' EXISTING_READ f2 = (0, f3)" "reads_lines l lines" "frees d 1"
  shows "\<exists>st' fs'. run_fold (netconf_line l b d) (lines f3) st = Ret st'
    \<and> sdcard_handle l c b d ee (st, fs) = Ret (st', fs')"
proof -
  obtain st' fs' where "run_fold (netconf_line l b d) (lines f3) st = Ret st'" "process_netconf l c b d (st, f2) = Ret (st', fs')"
    using process_netconf_lines [OF assms(3-5), of b st] by blast
  then show ?thesis by (cases st') (simp add: sdcard_handle_def sdcard_trypart_def sdcard_process_def assms(1,2))
qed

section \<open>Properties\<close>

text \<open>
  C20. A board that starts with a card in the first drive comes up as it was configured and saved:
  \<open>realmain\<close> returns; the effect of NET.CNF is that of its lines one by one; afterwards the conversion
  factors agree with the last resolution the file has written to the board, the scale factors of the
  four channels are those of their pages in flash, whose values were written to the channels' registers
  after everything the card did, and the network was added with the addresses the lines give before
  the server was started.
\<close>

theorem boot_with_card:
  assumes card: "fs_mount (bcard e) ''0:/'' (card m) = (0, f1)" "fs_chdir (bcard e) ''0:/'' f1 = (0, f2)"
      "fs_open (bcard e) ''NET.CNF'' EXISTING_READ f2 = (0, f3)" "reads_lines (blibs e) lines" "frees (bdrv e) 1"
    and flash: "flash_ok (bboard e) mem" "length (page_junk e) = 256" "length (scalefactors (psc_of m)) = 4"
  shows "\<exists>conf s h m'.
    run_fold (netconf_line (blibs e) (bboard e) (bdrv e)) (lines f3) (zero_conf, psc_of m, iic_of m) = Ret (conf, s, h)
    \<and> realmain e m = Ret m'
    \<and> configured (bboard e) (psc_of m) s \<and> same_factors s (psc_of m')
    \<and> scalefactors (psc_of m') = map (\<lambda>c. page_sf (page_words (mem (bus s)) c)) [1, 2, 3, 4]
    \<and> bus (psc_of m') = bus s @ [Wr (glob_reg (bboard e) EVR_INJ_EVENTNUM_REG) 10, Wr (glob_reg (bboard e) EVR_PM_EVENTNUM_REG) 10]
        @ concat (map (boot_chan (bboard e) (mem (bus s))) [1, 2, 3, 4])
    \<and> (\<exists>xs. ops m' = ops m @ [Lwip_Init, Xemac_Add (net_config.addr conf) (mask conf) (gw conf) (hwaddr conf)] @ xs @ [Psc_Run 3000])"
proof -
  obtain conf s h fs where n: "run_fold (netconf_line (blibs e) (bboard e) (bdrv e)) (lines f3) (zero_conf, psc_of m, iic_of m) = Ret (conf, s, h)"
    and r: "sdcard_handle (blibs e) (bcard e) (bboard e) (bdrv e) (ee_junk e) ((zero_conf, psc_of m, iic_of m), card m) = Ret ((conf, s, h), fs)"
    using sdcard_handle_card [OF card, of "bboard e" "(zero_conf, psc_of m, iic_of m)"] by (metis prod_cases3)
  have c: "configured (bboard e) (psc_of m) s" by (rule netconf_lines_configured [OF n])
  then have len: "length (scalefactors s) = 4" using flash(3) by (auto simp: configured_def)
  obtain s' where i: "InitSettingsfromQspi (bboard e) (page_junk e) s = Ret s'"
      "scalefactors s' = map (\<lambda>c. page_sf (page_words (mem (bus s)) c)) [1, 2, 3, 4]"
      "bus s' = bus s @ [Wr (glob_reg (bboard e) EVR_INJ_EVENTNUM_REG) 10, Wr (glob_reg (bboard e) EVR_PM_EVENTNUM_REG) 10]
        @ concat (map (boot_chan (bboard e) (mem (bus s))) [1, 2, 3, 4])"
    using InitSettings_all [OF flash(1,2) len] by blast
  have f: "same_factors s s'" using InitSettings_Ret [OF len, of "bboard e" "page_junk e"] i(1) by auto
  have "\<exists>xs. discover_setup (net_setup (xemac_added e) (dhcp_error e) conf (ops m)) @ [Psc_Run 3000] =
      ops m @ [Lwip_Init, Xemac_Add (net_config.addr conf) (mask conf) (gw conf) (hwaddr conf)] @ xs @ [Psc_Run 3000]"
    by (auto simp: discover_setup_def net_setup_def Let_def)
  then show ?thesis
    using n c f i by (intro exI [of _ conf] exI [of _ s] exI [of _ h]) (simp add: realmain_def r)
qed

text \<open>A card with NET.CNF only; its state is the lines that have not been read.\<close>

definition conf_card :: "string list card_fs" where
  "conf_card = \<lparr>fs_mount = \<lambda>_ f. (0, f), fs_chdir = \<lambda>_ f. (0, f), fs_unmount = \<lambda>_ f. (0, f),
     fs_open = \<lambda>n _ f. (if n = ''NET.CNF'' then 0 else 4, f),
     fs_close = \<lambda>f. (0, f), fs_read = \<lambda>_ f. (0, [], f), fs_lseek = \<lambda>_ f. (0, f), fs_truncate = \<lambda>f. (0, f),
     fs_write = \<lambda>bs f. (0, length bs, f), fs_sync = \<lambda>f. (0, f), fs_unlink = \<lambda>_ f. (0, f)\<rparr>"

definition card_env :: "string list boot_env" where
  "card_env = \<lparr>blibs = list_libs, bcard = conf_card, bboard = sim_board, bdrv = idle_driver, ee_junk = \<lambda>_. replicate 256 0,
     page_junk = replicate 256 0, i2c_found = \<lambda>_. True, qspi_found = True, qspi_status = 0, xemac_added = True, dhcp_error = 0\<rparr>"

definition card_machine :: "string list machine" where
  "card_machine = \<lparr>psc_of = \<lparr>bus = [], scalefactors = replicate 4 some_sf, CONVVOLTSTODACBITS = 0, CONVDACBITSTOVOLTS = 0\<rparr>,
     iic_of = [], card = [''resolution HS''], ops = []\<rparr>"

theorem boot_with_card_witness:
  "\<exists>conf s h m'.
    run_fold (netconf_line list_libs sim_board idle_driver) [''resolution HS''] (zero_conf, psc_of card_machine, []) = Ret (conf, s, h)
    \<and> realmain card_env card_machine = Ret m' \<and> configured sim_board (psc_of card_machine) s \<and> same_factors s (psc_of m')
    \<and> hd (ops m') = Lwip_Init"
proof -
  have *: "bcard card_env = conf_card" "card card_machine = [''resolution HS'']" "blibs card_env = list_libs" "bdrv card_env = idle_driver"
    "bboard card_env = sim_board" "iic_of card_machine = []" "ops card_machine = []"
    by (simp_all add: card_env_def card_machine_def)
  have c: "fs_mount conf_card ''0:/'' [''resolution HS''] = (0, [''resolution HS''])"
    "fs_chdir conf_card ''0:/'' [''resolution HS''] = (0, [''resolution HS''])"
    "fs_open conf_card ''NET.CNF'' EXISTING_READ [''resolution HS''] = (0, [''resolution HS''])" by (simp_all add: conf_card_def)
  have f: "length (page_junk card_env) = 256" "length (scalefactors (psc_of card_machine)) = 4"
    by (simp_all add: card_env_def card_machine_def)
  show ?thesis
    using boot_with_card [of card_env card_machine _ _ _ "\<lambda>ls. ls", unfolded *, OF c list_libs_reads idle_driver_frees sim_board_flash f]
    by (auto simp: Let_def)
qed

end
