(* ===== verification/Channels.thy ===== *)
theory Channels
  imports Monitor
begin

text \<open>
  The four channels are independent: what the messages for a channel do to it does not depend on what
  any client does to the others, in whatever order the messages of all clients come.
\<close>

section \<open>What belongs to a channel\<close>

definition writes_to :: "u32 set \<Rightarrow> io list \<Rightarrow> io list" where
  "writes_to A = filter (\<lambda>e. case e of Wr a v \<Rightarrow> a \<in> A | _ \<Rightarrow> False)"

lemma writes_to_simps [simp]:
  "writes_to A [] = []"
  "writes_to A (Rd a # h) = writes_to A h"
  "writes_to A (Spi bs n # h) = writes_to A h"
  "writes_to A (Wr a v # h) = (if a \<in> A then Wr a v # writes_to A h else writes_to A h)"
  "writes_to A (h @ h') = writes_to A h @ writes_to A h'"
  by (simp_all add: writes_to_def)

lemma writes_to_none: "(\<And>a v. Wr a v \<in> set h \<Longrightarrow> a \<notin> A) \<Longrightarrow> writes_to A h = []"
  by (auto simp: writes_to_def filter_empty_conv split: io.splits)

definition chan_area :: "board \<Rightarrow> u32 \<Rightarrow> u32 set" where
  "chan_area b c = insert (glob_reg b RESOLUTION_REG) (chan_block b c)"

text \<open>The writes to the channel, and what the program keeps in memory for it.\<close>

definition chan_view :: "board \<Rightarrow> u32 \<Rightarrow> psc \<Rightarrow> io list \<times> nat \<times> ScaleFactorType \<times> f32 \<times> f32" where
  "chan_view b c s = (writes_to (chan_area b c) (bus s), length (scalefactors s), scalefactors s ! unat (c - 1),
     CONVVOLTSTODACBITS s, CONVDACBITSTOVOLTS s)"

text \<open>
  Three registers have answers that decide what a message does. Two of them, the mode and the resolution, the
  gateware only reads, so their answers are determined by what was written to the channel.
\<close>

definition modes_by_channel :: "board \<Rightarrow> u32 \<Rightarrow> bool" where
  "modes_by_channel b c \<longleftrightarrow> (\<forall>h h' a. writes_to (chan_area b c) h = writes_to (chan_area b c) h' \<longrightarrow>
     a \<in> {chan_reg b c DAC_OPMODE_REG, glob_reg b RESOLUTION_REG} \<longrightarrow> reg_answer b h a = reg_answer b h' a)"

text \<open>
  The third is the present setpoint, which the gateware moves with every tick of 10 kHz. It is an input: a
  message reads it at most once, and \<open>moved b c x\<close> is the board at a moment when it is \<open>x\<close> for the channel.
\<close>

definition moved :: "board \<Rightarrow> u32 \<Rightarrow> u32 \<Rightarrow> board" where
  "moved b c x = b\<lparr>reg_answer := (\<lambda>h a. if a = chan_reg b c DAC_CURRSETPT_REG then x else reg_answer b h a)\<rparr>"

lemma moved_regs [simp]: "chan_reg (moved b c x) d r = chan_reg b d r" "glob_reg (moved b c x) r = glob_reg b r"
  by (simp_all add: moved_def chan_reg_def glob_reg_def)

text \<open>The answers of all three, at such a moment.\<close>

definition answers_by_channel :: "board \<Rightarrow> u32 \<Rightarrow> bool" where
  "answers_by_channel b c \<longleftrightarrow> (\<forall>h h' a. writes_to (chan_area b c) h = writes_to (chan_area b c) h' \<longrightarrow>
     a \<in> {chan_reg b c DAC_OPMODE_REG, chan_reg b c DAC_CURRSETPT_REG, glob_reg b RESOLUTION_REG} \<longrightarrow>
     reg_answer b h a = reg_answer b h' a)"

lemma moved_area [simp]: "chan_area (moved b c x) d = chan_area b d"
  by (simp add: chan_area_def chan_block_def)

lemma moved_answers:
  assumes "modes_by_channel b c" "c \<in> {1, 2, 3, 4}"
  shows "answers_by_channel (moved b c x) c"
proof -
  have "chan_reg b c DAC_OPMODE_REG \<noteq> chan_reg b c DAC_CURRSETPT_REG" by (simp add: chan_reg_def)
  moreover have "glob_reg b RESOLUTION_REG \<noteq> chan_reg b c DAC_CURRSETPT_REG"
    using chan_reg_eq_iff [of c 0 DAC_CURRSETPT_REG RESOLUTION_REG b] assms(2) by (auto simp: chan_reg_def glob_reg_def)
  ultimately have answer: "reg_answer (moved b c x) h a =
      (if a = chan_reg b c DAC_CURRSETPT_REG then x else reg_answer b h a)" "a = chan_reg b c DAC_CURRSETPT_REG
        \<or> a \<in> {chan_reg b c DAC_OPMODE_REG, glob_reg b RESOLUTION_REG} \<and> a \<noteq> chan_reg b c DAC_CURRSETPT_REG"
    if "a \<in> {chan_reg b c DAC_OPMODE_REG, chan_reg b c DAC_CURRSETPT_REG, glob_reg b RESOLUTION_REG}" for h a
    using that by (auto simp: moved_def)
  show ?thesis
    unfolding answers_by_channel_def moved_regs moved_area
  proof (intro allI impI)
    fix h h' a
    assume w: "writes_to (chan_area b c) h = writes_to (chan_area b c) h'"
      and a: "a \<in> {chan_reg b c DAC_OPMODE_REG, chan_reg b c DAC_CURRSETPT_REG, glob_reg b RESOLUTION_REG}"
    show "reg_answer (moved b c x) h a = reg_answer (moved b c x) h' a"
      using answer(2) [OF a] assms(1) w unfolding answer(1) [OF a] modes_by_channel_def by metis
  qed
qed

definition same_view :: "board \<Rightarrow> u32 \<Rightarrow> psc \<Rightarrow> psc \<Rightarrow> bool" where
  "same_view b c s t \<longleftrightarrow> chan_view b c s = chan_view b c t"

lemma moved_view [simp]: "same_view (moved b c x) d = same_view b d"
  by (intro ext) (simp add: same_view_def chan_view_def)

lemma same_view_refl [simp]: "same_view b c s s"
  by (simp add: same_view_def)

lemma same_view_trans: "same_view b c s t \<Longrightarrow> same_view b c t u \<Longrightarrow> same_view b c s u"
  by (simp add: same_view_def)

lemma same_view_sym: "same_view b c s t \<Longrightarrow> same_view b c t s"
  by (simp add: same_view_def)

section \<open>Operations that agree\<close>

named_theorems agreeing

definition agree :: "board \<Rightarrow> u32 \<Rightarrow> psc run \<Rightarrow> psc run \<Rightarrow> bool" where
  "agree b c r q \<longleftrightarrow> (case r of Ret s \<Rightarrow> (\<exists>t. q = Ret t \<and> same_view b c s t) | Undef u \<Rightarrow> q = Undef u | Hang \<Rightarrow> q = Hang)"

lemma agree_simps [simp]:
  "agree b c (Ret s) (Ret t) \<longleftrightarrow> same_view b c s t" "agree b c (Undef u) (Undef u)" "agree b c Hang Hang"
  by (simp_all add: agree_def)

lemma agree_RetD: "agree b c (Ret s) q \<Longrightarrow> \<exists>t. q = Ret t \<and> same_view b c s t"
  by (simp add: agree_def)

lemma agree_bind [agreeing]:
  "agree b c r q \<Longrightarrow> (\<And>s t. same_view b c s t \<Longrightarrow> agree b c (f s) (g t)) \<Longrightarrow> agree b c (run_bind r f) (run_bind q g)"
proof (cases r)
  case (Ret s)
  assume "agree b c r q" "\<And>s t. same_view b c s t \<Longrightarrow> agree b c (f s) (g t)"
  with Ret show ?thesis using agree_RetD by fastforce
qed (auto simp: agree_def)

lemma agree_read:
  "(\<And>x y u w. same_view b c u w \<Longrightarrow> agree b c (f x u) (g y w)) \<Longrightarrow> same_view b c s t \<Longrightarrow>
     agree b c (let (x, u) = Xil_In32 b a s in f x u) (let (y, w) = Xil_In32 b a' t in g y w)"
  by (simp add: Xil_In32_def same_view_def chan_view_def)

lemma agree_val: "(\<And>x. r = Ret x \<Longrightarrow> agree b c (f x) (g x)) \<Longrightarrow> agree b c (run_bind r f) (run_bind r g)"
  by (cases r) (auto simp: agree_def)

lemma agree_if: "(p \<Longrightarrow> agree b c x x') \<Longrightarrow> (\<not> p \<Longrightarrow> agree b c y y') \<Longrightarrow> agree b c (if p then x else y) (if p then x' else y')"
  by simp

lemma agree_fold:
  "same_view b c s t \<Longrightarrow> (\<And>x s t. x \<in> set xs \<Longrightarrow> same_view b c s t \<Longrightarrow> agree b c (f x s) (f x t)) \<Longrightarrow>
     agree b c (run_fold f xs s) (run_fold f xs t)"
proof (induction xs arbitrary: s t)
  case (Cons x xs)
  show ?case unfolding run_fold.simps by (rule agree_bind) (use Cons in \<open>auto intro: Cons.IH\<close>)
qed simp

text \<open>What the view determines.\<close>

lemma same_view_eqs:
  assumes "same_view b c s t"
  shows "sf_at c s = sf_at c t" "CONVVOLTSTODACBITS s = CONVVOLTSTODACBITS t" "dac_bits c f s = dac_bits c f t"
    "adc_bits c k f s = adc_bits c k f t"
proof -
  show 1: "sf_at c s = sf_at c t" "CONVVOLTSTODACBITS s = CONVVOLTSTODACBITS t"
    using assms by (auto simp: same_view_def chan_view_def sf_at_def)
  then show "dac_bits c f s = dac_bits c f t" "adc_bits c k f s = adc_bits c k f t" by (simp_all add: dac_bits_def adc_bits_def)
qed

lemma same_view_answer:
  assumes "answers_by_channel b c" "same_view b c s t"
  shows "reg_answer b (bus s) (chan_reg b c DAC_OPMODE_REG) = reg_answer b (bus t) (chan_reg b c DAC_OPMODE_REG)"
    "reg_answer b (bus s) (chan_reg b c DAC_CURRSETPT_REG) = reg_answer b (bus t) (chan_reg b c DAC_CURRSETPT_REG)"
    "reg_answer b (bus s) (glob_reg b RESOLUTION_REG) = reg_answer b (bus t) (glob_reg b RESOLUTION_REG)"
  using assms unfolding answers_by_channel_def same_view_def chan_view_def by blast+

lemma same_view_io:
  assumes "same_view b c s t"
  shows "same_view b c (Xil_Out32 a v s) (Xil_Out32 a v t)" "same_view b c (s\<lparr>bus := bus s @ [Rd a]\<rparr>) (t\<lparr>bus := bus t @ [Rd a']\<rparr>)"
    "same_view b c (snd (Xil_In32 b a s)) (snd (Xil_In32 b a' t))"
  using assms by (auto simp: same_view_def chan_view_def)

lemma agree_chan_out [agreeing]: "same_view b c s t \<Longrightarrow> agree b c (chan_out b c r v s) (chan_out b c r v t)"
  by (simp add: chan_out_def same_view_io)

lemma agree_sf_update [agreeing]: "same_view b c s t \<Longrightarrow> agree b c (sf_update c f s) (sf_update c f t)"
  by (auto simp: sf_update_def same_view_def chan_view_def)

lemma agree_conversions [agreeing]:
  assumes "same_view b c s t"
  shows "agree b c (set_gain b c r f s) (set_gain b c r f t)"
    "agree b c (set_dac_bits b c r f s) (set_dac_bits b c r f t)"
    "agree b c (set_adc_bits b c r k f s) (set_adc_bits b c r k f t)"
    "agree b c (set_thresh b c r k f s) (set_thresh b c r k f t)"
    "agree b c (set_cntlim b c r f s) (set_cntlim b c r f t)"
    "agree b c (set_pid b c r f s) (set_pid b c r f t)"
  unfolding set_gain_def set_dac_bits_def set_adc_bits_def set_thresh_def set_cntlim_def set_pid_def same_view_eqs [OF assms]
  by (intro agree_val agree_chan_out assms agree_bind; simp add: same_view_io)+

lemma agree_Calc_WriteSmooth:
  assumes "answers_by_channel b c" "same_view b c s t"
  shows "agree b c (Calc_WriteSmooth b c v s) (Calc_WriteSmooth b c v t)"
proof -
  let ?a = "chan_reg b c DAC_CURRSETPT_REG"
  let ?s = "s\<lparr>bus := bus s @ [Rd ?a]\<rparr>" and ?t = "t\<lparr>bus := bus t @ [Rd ?a]\<rparr>"
  have v: "same_view b c ?s ?t" using same_view_io(2) [OF assms(2)] .
  show ?thesis
    unfolding Calc_WriteSmooth_def Xil_In32_def prod.case Let_def same_view_answer(2) [OF assms] same_view_eqs [OF v]
    by (intro agree_val agree_if agree_bind agree_chan_out v agree_simps) simp_all
qed

text \<open>A mode change reads the mode, moves to zero where it has to, and writes the mode.\<close>

lemma agree_Set_dacOpmode:
  assumes "answers_by_channel b c" "same_view b c s t"
  shows "agree b c (Set_dacOpmode b c v s) (Set_dacOpmode b c v t)"
proof -
  let ?a = "chan_reg b c DAC_OPMODE_REG"
  have v: "same_view b c (s\<lparr>bus := bus s @ [Rd ?a]\<rparr>) (t\<lparr>bus := bus t @ [Rd ?a]\<rparr>)" using same_view_io(2) [OF assms(2)] .
  have zero: "agree b c (run_bind (Calc_WriteSmooth b c 0 s1) (\<lambda>s. run_bind (chan_out b c DAC_SETPT_REG 0 s) (chan_out b c DAC_OPMODE_REG m)))
      (run_bind (Calc_WriteSmooth b c 0 t1) (\<lambda>s. run_bind (chan_out b c DAC_SETPT_REG 0 s) (chan_out b c DAC_OPMODE_REG m)))"
    if "same_view b c s1 t1" for s1 t1 m
    by (intro agree_bind agree_Calc_WriteSmooth [OF assms(1) that] agree_chan_out)
  show ?thesis
    unfolding Set_dacOpmode_def Xil_In32_def prod.case Let_def same_view_answer(1) [OF assms]
    by (rule agree_bind; rule agree_if; simp add: zero v)
qed

lemma agree_Set_dac:
  assumes "answers_by_channel b c" "same_view b c s t"
  shows "agree b c (Set_dac b c a s) (Set_dac b c a t)"
proof -
  let ?a = "chan_reg b c DAC_OPMODE_REG"
  have v: "same_view b c (s\<lparr>bus := bus s @ [Rd ?a]\<rparr>) (t\<lparr>bus := bus t @ [Rd ?a]\<rparr>)" using same_view_io(2) [OF assms(2)] .
  show ?thesis
    unfolding Set_dac_def Xil_In32_def prod.case Let_def same_view_answer(1) [OF assms] same_view_eqs [OF v]
    by (intro agree_val agree_if agree_Calc_WriteSmooth [OF assms(1) v] agree_chan_out v) (simp add: v)
qed

lemma agree_ramp_point:
  assumes "same_view b c s t"
  shows "agree b c (ramp_point b c msg res i s) (ramp_point b c msg res i t)"
  unfolding ramp_point_def same_view_eqs [OF assms] by (intro agree_val agree_bind agree_chan_out assms)

lemma agree_write_ramptable:
  assumes "answers_by_channel b c" "same_view b c s t"
  shows "agree b c (write_ramptable b c msg msglen s) (write_ramptable b c msg msglen t)"
proof -
  let ?a = "glob_reg b RESOLUTION_REG"
  have k: "agree b c
      (let (res, u) = Xil_In32 b ?a u in run_bind (sf_at c u) (\<lambda>_. run_fold (ramp_point b c msg res) is u))
      (let (res, w) = Xil_In32 b ?a w in run_bind (sf_at c w) (\<lambda>_. run_fold (ramp_point b c msg res) is w))"
    if uw: "same_view b c u w" for u w "is"
  proof -
    have v: "same_view b c (u\<lparr>bus := bus u @ [Rd ?a]\<rparr>) (w\<lparr>bus := bus w @ [Rd ?a]\<rparr>)" using same_view_io(2) [OF uw] .
    show ?thesis
      unfolding Xil_In32_def prod.case Let_def same_view_answer(3) [OF assms(1) uw] same_view_eqs [OF v]
      by (intro agree_val agree_fold v agree_ramp_point)
  qed
  show ?thesis
    unfolding write_ramptable_def Let_def [of "unat msglen div 4"]
    by (intro agree_val agree_if agree_bind agree_chan_out assms(2) k) (simp add: assms(2))
qed

lemma same_view_ReadAccumSA: "same_view b c s t \<Longrightarrow> same_view b c (snd (ReadAccumSA b r m s)) (snd (ReadAccumSA b r' m' t))"
  by (simp add: ReadAccumSA_def Let_def case_prod_unfold same_view_io)

lemma agree_dump_adcs:
  assumes "same_view b c s t"
  shows "agree b c (dump_adcs b c s) (dump_adcs b c t)"
proof -
  have f: "same_view b c u w \<Longrightarrow>
      same_view b c (fold (\<lambda>r s. snd (ReadAccumSA b (chan_reg b c r) m s)) rs u) (fold (\<lambda>r s. snd (ReadAccumSA b (chan_reg b c r) m' s)) rs w)"
    for rs u w m m'
    by (induction rs arbitrary: u w) (simp_all add: same_view_ReadAccumSA)
  have k: "agree b c (run_bind (sf_at c u) (\<lambda>_. Ret u)) (run_bind (sf_at c w) (\<lambda>_. Ret w))" if "same_view b c u w" for u w
    unfolding same_view_eqs [OF that] by (rule agree_val) (simp add: that)
  show ?thesis
    unfolding dump_adcs_def Let_def [of "fold _ _ _"] by (intro agree_read k f assms)
qed

section \<open>The messages for a channel\<close>

definition opt_agree :: "board \<Rightarrow> u32 \<Rightarrow> psc run option \<Rightarrow> psc run option \<Rightarrow> bool" where
  "opt_agree b c = rel_option (agree b c)"

lemma opt_agree_rules:
  "opt_agree b c None None"
  "agree b c r q \<Longrightarrow> opt_agree b c (Some r) (Some q)"
  "opt_agree b c x x' \<Longrightarrow> opt_agree b c y y' \<Longrightarrow> opt_agree b c (if p then x else y) (if p then x' else y')"
  by (simp_all add: opt_agree_def)

lemma opt_agree_groups:
  assumes "answers_by_channel b c" "same_view b c s t" "i \<noteq> WRITE_QSPI_MSG" "i \<noteq> READ_QSPI_MSG"
  shows "opt_agree b c (chan_set_dac_adc b c i u s) (chan_set_dac_adc b c i u t)"
    "opt_agree b c (chan_set_limits b c i u s) (chan_set_limits b c i u t)"
    "opt_agree b c (chan_set_misc b h stack c i u s) (chan_set_misc b h' stack' c i u t)"
proof -
  note ops = opt_agree_rules agree_Set_dacOpmode [OF assms(1,2)] agree_Set_dac [OF assms(1,2)] agree_dump_adcs [OF assms(2)]
    agree_conversions [OF assms(2)] agree_chan_out [OF assms(2)] agree_sf_update [OF assms(2)] agree_val
  show "opt_agree b c (chan_set_dac_adc b c i u s) (chan_set_dac_adc b c i u t)"
    unfolding chan_set_dac_adc_def same_view_eqs(3) [OF assms(2)] by (intro ops)
  show "opt_agree b c (chan_set_limits b c i u s) (chan_set_limits b c i u t)"
    unfolding chan_set_limits_def by (intro ops)
  show "opt_agree b c (chan_set_misc b h stack c i u s) (chan_set_misc b h' stack' c i u t)"
    unfolding chan_set_misc_def if_not_P [OF assms(3)] if_not_P [OF assms(4)] by (intro ops)
qed

lemma agree_chan_set:
  assumes "answers_by_channel b c" "same_view b c s t" "i \<noteq> WRITE_QSPI_MSG" "i \<noteq> READ_QSPI_MSG"
  shows "agree b c (chan_set b h stack c i u s) (chan_set b h' stack' c i u t)"
  using opt_agree_groups(1,2) [OF assms, of u] opt_agree_groups(3) [OF assms, where u = u and h = h and stack = stack and h' = h' and stack' = stack'] assms(2)
  unfolding chan_set_def opt_agree_def by (auto elim!: option.rel_cases)

text \<open>Saving and loading go through the flash, which the channels share.\<close>

definition flash_msg :: "u16 \<times> u8 list \<Rightarrow> bool" where
  "flash_msg m \<longleftrightarrow> (case ld32 (snd m) 0 of Ret a \<Rightarrow> htonl a \<in> {WRITE_QSPI_MSG, READ_QSPI_MSG} | _ \<Rightarrow> False)"

lemma agree_chan_settings:
  assumes "answers_by_channel b c" "same_view b c s t" "\<not> flash_msg (mid, msg)"
  shows "agree b c (chan_settings b h stack c msg s) (chan_settings b h' stack' c msg t)"
  unfolding chan_settings_def
proof (intro agree_val)
  fix a d assume "ld32 msg 0 = Ret a"
  then show "agree b c (chan_set b h stack c (htonl a) (htonl d) s) (chan_set b h' stack' c (htonl a) (htonl d) t)"
    using assms(3) by (intro agree_chan_set [OF assms(1,2)]) (auto simp: flash_msg_def)
qed

abbreviation message :: "board \<Rightarrow> (psc \<Rightarrow> u32 \<times> u8 list) \<Rightarrow> u16 \<times> u8 list \<Rightarrow> psc \<Rightarrow> psc run" where
  "message b junk \<equiv> \<lambda>(mid, body). client_msg b junk mid (word_of_nat (length body)) body"

lemma msg_ids: "(mid :: u16) \<le> 4 \<Longrightarrow> mid \<in> {0, 1, 2, 3, 4}"
proof -
  assume "mid \<le> 4"
  then have "unat mid \<in> {0, 1, 2, 3, 4}" by (auto simp: word_le_nat_alt)
  then have "(of_nat (unat mid) :: u16) \<in> of_nat ` {0, 1, 2, 3, 4}" by (rule imageI)
  then show ?thesis by simp
qed

lemma message_agrees:
  assumes "answers_by_channel b c" "same_view b c s t" "msg_chan (fst m) = c" "c \<noteq> 0" "\<not> (fst m \<le> 4 \<and> flash_msg m)"
  shows "agree b c (message b junk m s) (message b junk m t)"
proof -
  obtain mid msg where m: "m = (mid, msg)" by (cases m)
  define s1 where "s1 = Xil_Out32 (glob_reg b IOC_ACCESS_REG) 0 (Xil_Out32 (glob_reg b IOC_ACCESS_REG) 1 s)"
  define t1 where "t1 = Xil_Out32 (glob_reg b IOC_ACCESS_REG) 0 (Xil_Out32 (glob_reg b IOC_ACCESS_REG) 1 t)"
  have v: "same_view b c s1 t1" unfolding s1_def t1_def by (intro same_view_io(1) assms(2))
  consider (settings) "mid \<in> {1, 2, 3, 4}" "ucast mid = c" | (ramp) "mid = 101" "c = 1"
    using assms(3,4) m msg_ids [of mid] by (auto simp: msg_chan_def split: if_splits)
  then show ?thesis
  proof cases
    case settings
    then have "mid \<noteq> 0" "mid \<le> 4" by auto
    then show ?thesis
      using agree_chan_settings [OF assms(1) v, of mid msg "fst (junk s1)" "snd (junk s1)" "fst (junk t1)" "snd (junk t1)"] assms(5) settings m
      by (auto simp: client_msg_def Let_def case_prod_unfold s1_def t1_def)
  next
    case ramp
    then show ?thesis
      using agree_write_ramptable [OF assms(1) v, of msg] m by (simp add: client_msg_def Let_def s1_def t1_def)
  qed
qed

section \<open>The messages for others\<close>

lemma touches_same_view:
  assumes "touches A d s s'" "A \<inter> chan_area b c = {}" "d \<noteq> c"
  shows "same_view b c s s'"
proof -
  obtain evs where "bus s' = bus s @ evs" "\<forall>a v. Wr a v \<in> set evs \<longrightarrow> a \<in> A" using assms(1) by (auto simp: touches_def)
  moreover from this have "writes_to (chan_area b c) evs = []" using assms(2) by (intro writes_to_none) blast
  ultimately have "writes_to (chan_area b c) (bus s') = writes_to (chan_area b c) (bus s)" by simp
  moreover have "unat (c - 1) \<noteq> unat (d - 1)" using assms(3) by (metis diff_add_cancel word_unat_eq_iff)
  ultimately show ?thesis using assms(1) by (simp add: same_view_def chan_view_def touches_def)
qed

text \<open>No message writes the resolution.\<close>

lemma glob_set_view: "1 \<le> c \<Longrightarrow> c \<le> 4 \<Longrightarrow> same_view b c s (glob_set b i u s)"
proof -
  assume c: "1 \<le> c" "c \<le> 4"
  let ?A = "glob_area b - {glob_reg b RESOLUTION_REG}"
  have two: "touches ?A 0 s (Xil_Out32 a 0 (Xil_Out32 a v s))" if "a \<in> ?A" for a v
    using that by (blast intro: touches_trans touches_Xil_Out32)
  have r: "glob_reg b r \<noteq> glob_reg b RESOLUTION_REG" if "r \<noteq> RESOLUTION_REG" for r using that by (simp add: glob_reg_def)
  have "touches ?A 0 s (glob_set b i u s)"
    unfolding glob_set_def soft_trig_def set_fpleds_def
    by (simp add: two touches_Xil_Out32 glob_reg_area r)
  moreover have "?A \<inter> chan_area b c = {}" using glob_area_disjoint [OF c, of b] by (auto simp: chan_area_def)
  moreover have "0 \<noteq> c" using c by auto
  ultimately show ?thesis by (rule touches_same_view)
qed

lemma led_view:
  assumes "1 \<le> c" "c \<le> 4"
  shows "same_view b c s (Xil_Out32 (glob_reg b IOC_ACCESS_REG) 0 (Xil_Out32 (glob_reg b IOC_ACCESS_REG) 1 s))"
proof -
  have "glob_reg b IOC_ACCESS_REG \<notin> chan_block b c"
    using glob_area_disjoint [OF assms, of b] glob_reg_area(1) [of IOC_ACCESS_REG b] by (auto simp: disjoint_iff)
  then show ?thesis by (simp add: same_view_def chan_view_def chan_area_def glob_reg_def)
qed

lemma block_elsewhere:
  assumes "c \<in> {1, 2, 3, 4}" "d \<in> {1, 2, 3, 4}" "d \<noteq> c"
  shows "chan_block b d \<inter> chan_area b c = {}"
proof -
  have "glob_reg b RESOLUTION_REG \<notin> chan_block b d"
    using glob_area_disjoint [of d b] glob_reg_area(1) [of RESOLUTION_REG b] assms(2) by (auto simp: disjoint_iff)
  moreover have "chan_block b d \<inter> chan_block b c = {}" using assms by (intro chan_block_disjoint) auto
  ultimately show ?thesis by (auto simp: chan_area_def)
qed

lemma message_elsewhere:
  assumes "c \<in> {1, 2, 3, 4}" "msg_chan (fst m) \<noteq> c" "message b junk m s = Ret s'"
  shows "same_view b c s s'"
proof -
  obtain mid msg where m: "m = (mid, msg)" by (cases m)
  define s1 where "s1 = Xil_Out32 (glob_reg b IOC_ACCESS_REG) 0 (Xil_Out32 (glob_reg b IOC_ACCESS_REG) 1 s)"
  have c: "1 \<le> c" "c \<le> 4" using assms(1) by auto
  have led: "same_view b c s s1" unfolding s1_def by (rule led_view [OF c])
  have chan: "same_view b c s1 s'" if "confined (chan_block b d) d s1 r" "r = Ret s'" "d \<in> {1, 2, 3, 4}" "d \<noteq> c" for d r
    using that block_elsewhere [OF assms(1) that(3,4)] by (auto simp: confined_def intro: touches_same_view)
  have r: "(if mid = 0 then glob_settings b msg s1
      else if mid = 1 \<or> mid = 2 \<or> mid = 3 \<or> mid = 4 then (case junk s1 of (h, st) \<Rightarrow> chan_settings b h st (ucast mid) msg s1)
      else if mid = 101 then write_ramptable b 1 msg (word_of_nat (length msg)) s1 else Ret s1) = Ret s'"
    using assms(3) unfolding m prod.case client_msg_def Let_def s1_def .
  have ids: "mid \<in> {1, 2, 3, 4} \<Longrightarrow> msg_chan mid = ucast mid \<and> ucast mid \<in> {1, 2, 3, 4 :: u32}" "mid = 101 \<Longrightarrow> msg_chan mid = 1"
    by (auto simp: msg_chan_def)
  consider "mid = 0" | "mid \<in> {1, 2, 3, 4}" | "mid = 101" | "mid \<notin> {0, 1, 2, 3, 4, 101}" by blast
  then have "same_view b c s1 s'"
  proof cases
    case 1
    then show ?thesis using r by (auto simp: glob_settings_def intro: glob_set_view [OF c])
  next
    case 2
    then have "chan_settings b (fst (junk s1)) (snd (junk s1)) (ucast mid) msg s1 = Ret s'" using r by (auto simp: case_prod_unfold)
    moreover have "ucast mid \<noteq> c" "ucast mid \<in> {1, 2, 3, 4 :: u32}" using ids(1) [OF 2] assms(2) m by auto
    ultimately show ?thesis using chan [OF confined_chan_settings] by blast
  next
    case 3
    then show ?thesis using r ids(2) assms(2) m chan [OF confined_write_ramptable, of 1] by simp
  next
    case 4
    then show ?thesis using r by simp
  qed
  with led show ?thesis by (rule same_view_trans)
qed

text \<open>The interface of the two laws: a step is a message, at a moment with some present setpoint.\<close>

interpretation chans: unwinding "\<lambda>(x :: u32, m). message (moved b c x) junk m" "\<lambda>(x, m). msg_chan (fst m) = c"
    "\<lambda>(x, m). \<not> (fst m \<le> 4 \<and> flash_msg m)" "\<lambda>s t. modes_by_channel b c \<and> c \<in> {1, 2, 3, 4} \<and> same_view b c s t" for b junk c
proof unfold_locales
  fix xm :: "u32 \<times> u16 \<times> u8 list" and s t s'
  obtain x m where xm: "xm = (x, m)" by (cases xm)
  let ?b = "moved b c x"
  assume v: "modes_by_channel b c \<and> c \<in> {1, 2, 3, 4} \<and> same_view b c s t" and "(case xm of (x, m) \<Rightarrow> message (moved b c x) junk m) s = Ret s'"
  then have r: "message ?b junk m s = Ret s'" by (simp add: xm)
  show "\<exists>t'. (case xm of (x, m) \<Rightarrow> message (moved b c x) junk m) t = Ret t' \<and> modes_by_channel b c \<and> c \<in> {1, 2, 3, 4} \<and> same_view b c s' t'"
    if "case xm of (x, m) \<Rightarrow> msg_chan (fst m) = c" "case xm of (x, m) \<Rightarrow> \<not> (fst m \<le> 4 \<and> flash_msg m)"
  proof -
    have "agree ?b c (message ?b junk m s) (message ?b junk m t)"
      using that v moved_answers xm by (intro message_agrees) auto
    then show ?thesis using agree_RetD [of ?b c s'] r v xm by auto
  qed
  show "modes_by_channel b c \<and> c \<in> {1, 2, 3, 4} \<and> same_view b c s' t" if "\<not> (case xm of (x, m) \<Rightarrow> msg_chan (fst m) = c)"
  proof -
    have "same_view ?b c s s'" using that v xm by (intro message_elsewhere [OF _ _ r]) simp_all
    then show ?thesis using v same_view_sym same_view_trans unfolding moved_view by blast
  qed
qed

section \<open>Properties\<close>

lemma writes_to_mono: "A \<subseteq> B \<Longrightarrow> writes_to A (writes_to B h) = writes_to A h"
  by (auto simp: writes_to_def intro!: filter_cong split: io.splits)

text \<open>
  C5. The clients cannot disturb each other's channels: let the messages of any number of clients be
  handled in any order, as long as all of them are handled, each at a moment with any present setpoint of
  the channel. Then what is written to the registers of the channel, and the scale factors it ends with,
  are those of the messages for this channel alone, handled with the same present setpoints, as if nobody
  had sent anything else. Of the messages for the channel, those that save to and load from the
  flash are excepted, which is shared; the others may do this as well.
\<close>

theorem channels_independent:
  assumes c: "c \<in> {1, 2, 3, 4}" and b: "modes_by_channel b c"
    and "\<forall>(x, m) \<in> set ms. msg_chan (fst m) = c \<longrightarrow> \<not> (fst m \<le> 4 \<and> flash_msg m)"
    and "run_fold (\<lambda>(x, mid, body). client_msg (moved b c x) junk mid (word_of_nat (length body)) body) ms s = Ret s'"
  shows "\<exists>t'. run_fold (\<lambda>(x, mid, body). client_msg (moved b c x) junk mid (word_of_nat (length body)) body)
      (filter (\<lambda>(x, m). msg_chan (fst m) = c) ms) s = Ret t'
    \<and> writes_to (chan_block b c) (bus t') = writes_to (chan_block b c) (bus s')
    \<and> scalefactors t' ! unat (c - 1) = scalefactors s' ! unat (c - 1)"
proof -
  have "\<forall>xm \<in> set ms. (case xm of (x, m) \<Rightarrow> msg_chan (fst m) = c) \<longrightarrow> (case xm of (x, m) \<Rightarrow> \<not> (fst m \<le> 4 \<and> flash_msg m))"
    using assms(3) by fastforce
  with c b have "\<exists>t'. run_fold (\<lambda>(x, m). message (moved b c x) junk m) (filter (\<lambda>(x, m). msg_chan (fst m) = c) ms) s = Ret t'
      \<and> modes_by_channel b c \<and> c \<in> {1, 2, 3, 4} \<and> same_view b c s' t'"
    by (intro chans.purged [where s = s, OF _ _ assms(4)]) simp_all
  then obtain t' where t': "run_fold (\<lambda>(x, m). message (moved b c x) junk m) (filter (\<lambda>(x, m). msg_chan (fst m) = c) ms) s = Ret t'" "same_view b c s' t'"
    by blast
  have sub: "chan_block b c \<subseteq> chan_area b c" by (auto simp: chan_area_def)
  have "writes_to (chan_area b c) (bus s') = writes_to (chan_area b c) (bus t')" using t'(2) by (simp add: same_view_def chan_view_def)
  from arg_cong [OF this, of "writes_to (chan_block b c)"]
  have "writes_to (chan_block b c) (bus t') = writes_to (chan_block b c) (bus s')" by (simp add: writes_to_mono [OF sub])
  with t' show ?thesis by (auto simp: same_view_def chan_view_def)
qed

text \<open>Registers that hold the last value written answer by what was written to them.\<close>

lemma last_write_area: "a \<in> A \<Longrightarrow> last_write (writes_to A h) a = last_write h a"
proof -
  assume a: "a \<in> A"
  have "fold (\<lambda>e v. case e of Wr a' w \<Rightarrow> if a' = a then w else v | _ \<Rightarrow> v) (writes_to A h) v =
      fold (\<lambda>e v. case e of Wr a' w \<Rightarrow> if a' = a then w else v | _ \<Rightarrow> v) h v" for v
  proof (induction h arbitrary: v)
    case (Cons e h)
    then show ?case using a by (cases e) auto
  qed simp
  then show ?thesis by (simp add: last_write_def)
qed

lemma sim_board_modes: "modes_by_channel sim_board c"
  unfolding modes_by_channel_def
proof (intro allI impI)
  fix h h' a
  assume w: "writes_to (chan_area sim_board c) h = writes_to (chan_area sim_board c) h'"
    and "a \<in> {chan_reg sim_board c DAC_OPMODE_REG, glob_reg sim_board RESOLUTION_REG}"
  then have "a \<in> chan_area sim_board c" by (auto simp: chan_area_def)
  from last_write_area [OF this, of h] last_write_area [OF this, of h'] w
  show "reg_answer sim_board h a = reg_answer sim_board h' a" by (simp add: sim_board_def)
qed

text \<open>
  Two clients, for channels 3 and 2, and one that turns the front panel's LEDs on, while the output of
  channel 3 moves from 100 to 104.
\<close>

definition mixed :: "(u32 \<times> u16 \<times> u8 list) list" where
  "mixed = [(100, 3, be32 FAULT_MASK_MSG @ be32 5), (101, 2, be32 DIGOUT_ON1_MSG @ be32 1), (102, 0, be32 FP_LED_MSG @ be32 7),
     (103, 3, be32 DIGOUT_ON1_MSG @ be32 1), (104, 2, be32 FAULT_MASK_MSG @ be32 9)]"

lemma mixed_Ret: "\<exists>s'. run_fold (\<lambda>(x, m). message (moved sim_board 3 x) (\<lambda>_. (0, [])) m) mixed some_psc = Ret s'"
proof -
  have raw: "\<exists>s'. client_msg b (\<lambda>_. (0, [])) c len (be32 mid @ be32 u) s = Ret s'"
    if "(mid, r, k) \<in> set raw_settings" "c \<in> {1, 2, 3, 4}" for mid r k c len u s b
    using client_msg_raw [OF raw_settings_store [OF that(1)] that(2), of b "\<lambda>_. (0, [])" len u "[]" s] by auto
  have glob: "\<exists>s'. client_msg b (\<lambda>_. (0, [])) 0 len (be32 mid @ be32 u) s = Ret s'" for mid len u s b
    by (simp add: client_msg_def Let_def glob_settings_def ld32_def be32.length_enc)
  have f: "(FAULT_MASK_MSG, FAULT_MASK_REG, 47) \<in> set raw_settings" "(DIGOUT_ON1_MSG, DIGOUT_ON1_REG, 48) \<in> set raw_settings"
    by (simp_all add: raw_settings_def)
  have step: "\<exists>s'. message (moved sim_board 3 x) (\<lambda>_. (0, [])) m s = Ret s'" if "(x, m) \<in> set mixed" for x m s
    using that raw [OF f(1)] raw [OF f(2)] glob unfolding mixed_def by auto
  have "set ms \<subseteq> set mixed \<Longrightarrow> \<exists>s'. run_fold (\<lambda>(x, m). message (moved sim_board 3 x) (\<lambda>_. (0, [])) m) ms s = Ret s'" for ms s
  proof (induction ms arbitrary: s)
    case (Cons xm ms)
    obtain x m where xm: "xm = (x, m)" by (cases xm)
    then obtain s1 where "message (moved sim_board 3 x) (\<lambda>_. (0, [])) m s = Ret s1" using step Cons.prems by fastforce
    then show ?case using Cons.IH [of s1] Cons.prems xm by simp
  qed simp
  then show ?thesis by blast
qed

theorem channels_independent_witness:
  "\<exists>s' t'. run_fold (\<lambda>(x, mid, body). client_msg (moved sim_board 3 x) (\<lambda>_. (0, [])) mid (word_of_nat (length body)) body) mixed some_psc = Ret s'
    \<and> run_fold (\<lambda>(x, mid, body). client_msg (moved sim_board 3 x) (\<lambda>_. (0, [])) mid (word_of_nat (length body)) body)
        [(100, 3, be32 FAULT_MASK_MSG @ be32 5), (103, 3, be32 DIGOUT_ON1_MSG @ be32 1)] some_psc = Ret t'
    \<and> writes_to (chan_block sim_board 3) (bus t') = writes_to (chan_block sim_board 3) (bus s')"
proof -
  obtain s' where s': "run_fold (\<lambda>(x, m). message (moved sim_board 3 x) (\<lambda>_. (0, [])) m) mixed some_psc = Ret s'" using mixed_Ret by blast
  have "\<forall>(x, m) \<in> set mixed. msg_chan (fst m) = 3 \<longrightarrow> \<not> (fst m \<le> 4 \<and> flash_msg m)"
    by (simp add: mixed_def flash_msg_def ld32_def be32.length_enc htonl_of_le32 be32.dec_enc)
  moreover have "filter (\<lambda>(x, m). msg_chan (fst m) = 3) mixed = [(100, 3, be32 FAULT_MASK_MSG @ be32 5), (103, 3, be32 DIGOUT_ON1_MSG @ be32 1)]"
    by (simp add: mixed_def msg_chan_def)
  ultimately show ?thesis
    using channels_independent [where b = sim_board and c = 3 and s = some_psc and ms = mixed and junk = "\<lambda>_. (0, [])", OF _ sim_board_modes _ s'] s' by auto
qed

end
