(* ===== verification/Precision.thy ===== *)
theory Precision
  imports Monitor Setpoint
begin

text \<open>
  How exactly amperes come back: a client sets a current, the code converts it to DAC counts, and the
  readback converts the counts to amperes again, each in single precision. What a client is told differs
  from what was set by at most 1.2 counts of the DAC.
\<close>

section \<open>Errors of the two conversions\<close>

lemma near_abs: "near p t y x \<Longrightarrow> \<bar>x\<bar> \<le> B \<Longrightarrow> \<bar>y - x\<bar> \<le> B / 2 ^ p + t"
proof -
  assume n: "near p t y x" and B: "\<bar>x\<bar> \<le> B"
  have "\<bar>x\<bar> / 2 ^ p \<le> B / 2 ^ p" using B by (simp add: divide_right_mono)
  with n show ?thesis by (simp add: near_def)
qed

lemma abs_prod: "\<bar>x\<bar> \<le> B \<Longrightarrow> \<bar>y\<bar> \<le> C \<Longrightarrow> \<bar>x * y\<bar> \<le> B * (C :: real)"
  unfolding abs_mult by (rule mult_mono) auto

lemma abs_step: "\<bar>x - y\<bar> \<le> A \<Longrightarrow> \<bar>y - z\<bar> \<le> B \<Longrightarrow> A + B = C \<Longrightarrow> \<bar>x - z\<bar> \<le> (C :: real)"
  by linarith

lemma trunc_error:
  assumes "fin32 x" "s32_of_f32 x = Ret v"
  shows "\<bar>real_of_int (sint v) - val32 x\<bar> \<le> 1"
proof -
  obtain i where i: "fv_trunc (dec32 x) = Some i" "0 \<le> val32 x \<Longrightarrow> i = \<lfloor>val32 x\<rfloor>" "val32 x \<le> 0 \<Longrightarrow> i = - \<lfloor>- val32 x\<rfloor>"
    using fv_trunc_real [of "dec32 x"] assms(1) unfolding fin32_def val32_def by metis
  have "\<bar>real_of_int i - val32 x\<bar> \<le> 1"
  proof (cases "0 \<le> val32 x")
    case True
    with i(2) show ?thesis by linarith
  next
    case False
    with i(3) show ?thesis by linarith
  qed
  moreover have "sint v = i" using assms(2) i(1) sint_s32 [of i] by (auto simp: s32_of_f32_def s32_of_fv_def split: if_splits)
  ultimately show ?thesis by simp
qed

text \<open>From amperes to counts, \<open>N\<close> of them for 10 V. \<open>a\<close> is the current in volts at the DAC.\<close>

lemma quotient_near:
  assumes D: "sane_scale D" and A: "fin32 A" "\<bar>val32 A\<bar> \<le> 10000001 / 1000000 * val32 D"
    and K: "fin32 K" "\<bar>val32 K - N / 10\<bar> \<le> N / 10 * (2 / 100000000)" and N: "1000 \<le> N" "N \<le> 524288"
  shows "fin32 (f32_div (f32_mul A K) D)"
    "\<bar>val32 (f32_div (f32_mul A K) D) - val32 A / val32 D * (N / 10)\<bar> \<le> N * (15 / 100000000)"
proof -
  define d where "d = val32 D"
  define k where "k = val32 K"
  define a where "a = val32 A / d"
  define p where "p = val32 (f32_mul A K)"
  define q where "q = val32 (f32_div (f32_mul A K) D)"
  have fD: "fin32 D" and d: "1 / 2 ^ 60 \<le> d" "d \<le> 2 ^ 60" using D by (simp_all add: sane_scale_def d_def)
  note tiny = tiny_bounds tiny_scaled [OF d(1)]
  have d0: "0 < d" using d(1) by (rule less_le_trans [rotated]) simp
  have a: "\<bar>a\<bar> \<le> 10000001 / 1000000" "val32 A = a * d" using A(2) d0 by (simp_all add: a_def d_def [symmetric] abs_divide pos_divide_le_eq)
  have k: "\<bar>k - N / 10\<bar> \<le> N / 10 * (2 / 100000000)" using K(2) by (simp add: k_def)
  then have k': "\<bar>k\<bar> \<le> N / 10 * (1 + 2 / 100000000)" using N unfolding abs_le_iff by (simp add: field_simps)
  have ak: "\<bar>a * k\<bar> \<le> N * (10001 / 10000)"
    using abs_prod [OF a(1) k'] N by (simp add: algebra_simps)
  have kN: "\<bar>a * k - a * (N / 10)\<bar> \<le> N * (21 / 1000000000)"
    using abs_prod [OF a(1) k] N by (simp add: algebra_simps)
  have Ak: "val32 A * k = (a * k) * d" by (simp add: a(2))
  have Ak': "\<bar>val32 A * k\<bar> \<le> N * (10001 / 10000) * d" unfolding Ak using ak d0 by (simp add: abs_mult mult_right_mono)
  have "N * (10001 / 10000) * d \<le> 524288 * (10001 / 10000) * 2 ^ 60" using N d d0 by (intro mult_mono) simp_all
  then have "\<bar>val32 A * k\<bar> < 2 ^ 127" using Ak' by simp
  note P = f32_mul_near [OF A(1) K(1), folded k_def t32_def p_def, OF this]
  have "\<bar>p - val32 A * k\<bar> \<le> N * (10001 / 10000) * d / 2 ^ 24 + t32" using near_abs [OF conjunct2 [OF P] Ak'] .
  also have "\<dots> \<le> (N * (10001 / 10000) / 2 ^ 24 + 1 / 2 ^ 80) * d" using tiny(5) by (simp add: algebra_simps)
  finally have pd: "\<bar>p / d - a * k\<bar> \<le> N * (10001 / 10000) / 2 ^ 24 + 1 / 2 ^ 80"
    unfolding Ak using d0 by (simp add: abs_le_iff field_simps)
  have r: "\<bar>p / d\<bar> \<le> N * (10002 / 10000)" using pd ak N unfolding pows by linarith
  have "N * (10002 / 10000) < 2 ^ 127" using N by simp
  with r have "\<bar>p / d\<bar> < 2 ^ 127" by (rule le_less_trans)
  note Q = f32_div_near [OF conjunct1 [OF P] fD, folded p_def d_def t32_def q_def, OF less_imp_neq [OF d0, symmetric] this]
  have "\<bar>q - p / d\<bar> \<le> N * (10002 / 10000) / 2 ^ 24 + t32" using near_abs [OF conjunct2 [OF Q] r] .
  then have "\<bar>q - a * (N / 10)\<bar> \<le> N * (15 / 100000000)" using pd kN N tiny(3) unfolding pows by linarith
  then show "\<bar>val32 (f32_div (f32_mul A K) D) - val32 A / val32 D * (N / 10)\<bar> \<le> N * (15 / 100000000)" by (simp add: q_def a_def d_def)
  show "fin32 (f32_div (f32_mul A K) D)" using Q by simp
qed

lemma to_counts:
  assumes "sane_scale D" "fin32 A" "\<bar>val32 A\<bar> \<le> 10000001 / 1000000 * val32 D"
    and "fin32 K" "\<bar>val32 K - N / 10\<bar> \<le> N / 10 * (2 / 100000000)" and "1000 \<le> N" "N \<le> 524288"
    and v: "s32_of_f32 (f32_div (f32_mul A K) D) = Ret v"
  shows "\<bar>real_of_int (sint v) - val32 A / val32 D * (N / 10)\<bar> \<le> 1 + N * (15 / 100000000)"
  using quotient_near(2) [OF assms(1-7)] trunc_error [OF quotient_near(1) [OF assms(1-7)] v] by linarith

text \<open>And back.\<close>

lemma from_counts:
  assumes D: "sane_scale D" and K: "fin32 K" "val32 K = 10 / N" and N: "1000 \<le> N" "N \<le> 524288"
    and i: "\<bar>real_of_int (sint w)\<bar> \<le> N * (101 / 100)"
  shows "\<bar>val32 (dac_amps K D w) - real_of_int (sint w) * (10 / N) * val32 D\<bar> \<le> 2 / 1000000 * val32 D"
proof -
  define d where "d = val32 D"
  define k where "k = 10 / N"
  define x where "x = real_of_int (sint w)"
  define f where "f = val32 (f32_of_int (sint w))"
  define g where "g = val32 (f32_mul (f32_of_int (sint w)) K)"
  define h where "h = val32 (dac_amps K D w)"
  have fD: "fin32 D" and d: "1 / 2 ^ 60 \<le> d" "d \<le> 2 ^ 60" using D by (simp_all add: sane_scale_def d_def)
  note tiny = tiny_bounds tiny_scaled [OF d(1)]
  have d0: "0 < d" using d(1) by (rule less_le_trans [rotated]) simp
  have k0: "0 < k" "k \<le> 1 / 100" "N * k = 10" using N by (simp_all add: k_def)
  have x: "\<bar>x\<bar> \<le> N * (101 / 100)" using i by (simp add: x_def)
  then have "\<bar>x\<bar> < 2 ^ 127" using N by simp
  note F = f32_of_int_near [of "sint w", folded x_def t32_def f_def, OF this]
  have fx: "\<bar>f - x\<bar> \<le> N * (101 / 100) / 2 ^ 24 + t32" using near_abs [OF conjunct2 [OF F] x] .
  then have fk: "\<bar>f * k - x * k\<bar> \<le> 1001 / 100 / 2 ^ 24 * (102 / 100)"
  proof -
    have "\<bar>f * k - x * k\<bar> = \<bar>f - x\<bar> * k" using k0 by (simp add: left_diff_distrib [symmetric] abs_mult)
    also have "\<dots> \<le> (N * (101 / 100) / 2 ^ 24 + t32) * k" using fx k0 by (simp add: mult_right_mono)
    also have "\<dots> = (N * k) * (101 / 100) / 2 ^ 24 + t32 * k" by (simp add: algebra_simps)
    also have "\<dots> \<le> 10 * (101 / 100) / 2 ^ 24 + t32 * (1 / 100)" using mult_left_mono [OF k0(2) tiny(1)] k0(3) by simp
    also have "\<dots> \<le> 1001 / 100 / 2 ^ 24 * (102 / 100)" using tiny(3) unfolding pows by simp
    finally show ?thesis .
  qed
  have xk: "\<bar>x * k\<bar> \<le> 101 / 10"
  proof -
    have "\<bar>x * k\<bar> \<le> N * (101 / 100) * k" using x k0 by (simp add: abs_mult mult_right_mono)
    also have "\<dots> = 101 / 10" using k0(3) by (simp add: mult.commute mult.left_commute)
    finally show ?thesis .
  qed
  then have fk': "\<bar>f * k\<bar> \<le> 102 / 10" using fk unfolding pows by linarith
  have kK: "val32 K = k" using K(2) by (simp add: k_def)
  have "\<bar>f * k\<bar> < 2 ^ 127" using fk' by simp
  note G = f32_mul_near [OF conjunct1 [OF F] K(1), folded f_def g_def t32_def, unfolded kK, OF this]
  have gk: "\<bar>g - f * k\<bar> \<le> 102 / 10 / 2 ^ 24 + t32" using near_abs [OF conjunct2 [OF G] fk'] .
  then have gx: "\<bar>g - x * k\<bar> \<le> 13 / 10000000" "\<bar>g\<bar> \<le> 103 / 10" using fk fk' tiny(3) unfolding pows by linarith+
  have gd: "\<bar>g * d\<bar> \<le> 103 / 10 * d" using gx(2) d0 by (simp add: abs_mult mult_right_mono)
  also have "\<dots> \<le> 103 / 10 * 2 ^ 60" using d by simp
  finally have "\<bar>g * d\<bar> < 2 ^ 127" by simp
  note H = f32_mul_near [OF conjunct1 [OF G] fD, folded g_def d_def t32_def, OF this]
  have "\<bar>h - g * d\<bar> \<le> 103 / 10 * d / 2 ^ 24 + t32"
    using near_abs [OF conjunct2 [OF H] gd] by (simp add: h_def dac_amps_def)
  moreover have "\<bar>g * d - x * k * d\<bar> \<le> 13 / 10000000 * d"
  proof -
    have "\<bar>g * d - x * k * d\<bar> = \<bar>g - x * k\<bar> * d" using d0 by (simp add: left_diff_distrib [symmetric] abs_mult)
    also have "\<dots> \<le> 13 / 10000000 * d" using gx(1) d0 by (intro mult_right_mono) simp_all
    finally show ?thesis .
  qed
  ultimately have "\<bar>h - x * k * d\<bar> \<le> 2 / 1000000 * d" using tiny(5) d0 unfolding pows by linarith
  then show ?thesis by (simp add: h_def x_def k_def d_def)
qed

text \<open>The factors of the conversions come in two pairs, set together at boot (\<open>mshsSelect\<close>).\<close>

definition dac_factors :: "psc \<Rightarrow> int \<Rightarrow> bool" where
  "dac_factors s n \<longleftrightarrow>
     CONVVOLTSTODACBITS s = f32_of_f64 CONVVOLTSTO20BITS \<and> CONVDACBITSTOVOLTS s = f32_of_f64 CONV20BITSTOVOLTS \<and> n = 2 ^ 19
     \<or> CONVVOLTSTODACBITS s = f32_of_f64 CONVVOLTSTO18BITS \<and> CONVDACBITSTOVOLTS s = f32_of_f64 CONV18BITSTOVOLTS \<and> n = 2 ^ 17"

lemma back_values:
  "f32_of_f64 CONV20BITSTOVOLTS = 0x37A00000" "f32_of_f64 CONV18BITSTOVOLTS = 0x38A00000"
proof -
  have "CONVVOLTSTO20BITS = 0x40E999999999999A" "CONVVOLTSTO18BITS = 0x40C999999999999A" "f64_of_int 1 = 0x3FF0000000000000"
    by (simp_all add: CONVVOLTSTO20BITS_def CONVVOLTSTO18BITS_def f64_of_int_def float_eval)
  moreover have "f64_div 0x3FF0000000000000 0x40E999999999999A = 0x3EF4000000000000"
    "f64_div 0x3FF0000000000000 0x40C999999999999A = 0x3F14000000000000"
    by (simp_all add: float_eval)
  ultimately have "CONV20BITSTOVOLTS = 0x3EF4000000000000" "CONV18BITSTOVOLTS = 0x3F14000000000000"
    by (simp_all only: CONV20BITSTOVOLTS_def CONV18BITSTOVOLTS_def)
  moreover have "f32_of_f64 0x3EF4000000000000 = 0x37A00000" "f32_of_f64 0x3F14000000000000 = 0x38A00000" by (simp_all add: float_eval)
  ultimately show "f32_of_f64 CONV20BITSTOVOLTS = 0x37A00000" "f32_of_f64 CONV18BITSTOVOLTS = 0x38A00000" by simp_all
qed

lemma factor_values:
  "fin32 0x37A00000" "val32 0x37A00000 = 10 / 524288" "fin32 0x38A00000" "val32 0x38A00000 = 10 / 131072"
  "\<bar>val32 0x474CCCCD - 524288 / 10\<bar> \<le> 524288 / 10 * (2 / 100000000)"
  "\<bar>val32 0x464CCCCD - 131072 / 10\<bar> \<le> 131072 / 10 * (2 / 100000000)"
  by (simp_all add: fin32_def val32_def dec32_def decode_def single_def emin_def Let_def power_int_minus)

lemma dac_factors_near:
  assumes "dac_factors s n"
  shows "131072 \<le> n" "n \<le> 524288" "fin32 (CONVVOLTSTODACBITS s)"
    "\<bar>val32 (CONVVOLTSTODACBITS s) - real_of_int n / 10\<bar> \<le> real_of_int n / 10 * (2 / 100000000)"
    "fin32 (CONVDACBITSTOVOLTS s)" "val32 (CONVDACBITSTOVOLTS s) = 10 / real_of_int n"
proof -
  consider "CONVVOLTSTODACBITS s = 0x474CCCCD" "CONVDACBITSTOVOLTS s = 0x37A00000" "n = 524288"
    | "CONVVOLTSTODACBITS s = 0x464CCCCD" "CONVDACBITSTOVOLTS s = 0x38A00000" "n = 131072"
    using assms unfolding dac_factors_def conv_values back_values by fastforce
  then have "131072 \<le> n \<and> n \<le> 524288 \<and> fin32 (CONVVOLTSTODACBITS s)
    \<and> \<bar>val32 (CONVVOLTSTODACBITS s) - real_of_int n / 10\<bar> \<le> real_of_int n / 10 * (2 / 100000000)
    \<and> fin32 (CONVDACBITSTOVOLTS s) \<and> val32 (CONVDACBITSTOVOLTS s) = 10 / real_of_int n"
  proof cases
    case 1
    then show ?thesis unfolding 1 using factor_values conv_bounds(1) by auto
  next
    case 2
    then show ?thesis unfolding 2 using factor_values conv_bounds(4) by auto
  qed
  then show "131072 \<le> n" "n \<le> 524288" "fin32 (CONVVOLTSTODACBITS s)"
    "\<bar>val32 (CONVVOLTSTODACBITS s) - real_of_int n / 10\<bar> \<le> real_of_int n / 10 * (2 / 100000000)"
    "fin32 (CONVDACBITSTOVOLTS s)" "val32 (CONVDACBITSTOVOLTS s) = 10 / real_of_int n" by blast+
qed

text \<open>There and back again, when the register is off by up to \<open>e\<close> counts.\<close>

lemma there_and_back:
  assumes D: "sane_scale D" and A: "fin32 A" "\<bar>val32 A\<bar> \<le> 10000001 / 1000000 * val32 D" and n: "dac_factors s n"
    and v: "s32_of_f32 (f32_div (f32_mul A (CONVVOLTSTODACBITS s)) D) = Ret v"
    and w: "\<bar>sint w - sint v\<bar> \<le> e" "e \<le> 1000"
  shows "\<bar>val32 (dac_amps (CONVDACBITSTOVOLTS s) D w) - val32 A\<bar> \<le> (real_of_int e + 6 / 5) * (10 / real_of_int n) * val32 D"
proof -
  define d where "d = val32 D"
  define a where "a = val32 A / d"
  define N where "N = real_of_int n"
  define x where "x = real_of_int (sint w)"
  define y where "y = real_of_int (sint v)"
  define h where "h = val32 (dac_amps (CONVDACBITSTOVOLTS s) D w)"
  have "1 / 2 ^ 60 \<le> d" using D by (simp add: sane_scale_def d_def)
  then have d0: "0 < d" by (rule less_le_trans [rotated]) simp
  note F = dac_factors_near [OF n, folded N_def]
  have N: "131072 \<le> N" "N \<le> 524288" using F(1,2) by (simp_all add: N_def)
  have N': "1000 \<le> N" using N by simp
  have a: "\<bar>a\<bar> \<le> 10000001 / 1000000" "val32 A = a * d" using A(2) d0 by (simp_all add: a_def d_def [symmetric] abs_divide pos_divide_le_eq)
  have vy: "\<bar>y - a * (N / 10)\<bar> \<le> 1 + N * (15 / 100000000)"
    using to_counts [OF D A F(3,4) N' N(2) v] by (simp add: y_def a_def d_def)
  have xy: "\<bar>x - y\<bar> \<le> real_of_int e" using w(1) unfolding x_def y_def by linarith
  have e: "real_of_int e \<le> 1000" using w(2) by simp
  have aN: "\<bar>a * (N / 10)\<bar> \<le> N * (10000001 / 10000000)" using abs_prod [OF a(1), of "N / 10" "N / 10"] N by simp
  then have "\<bar>x\<bar> \<le> N * (101 / 100)" using vy xy e N by linarith
  then have bk: "\<bar>h - x * (10 / N) * d\<bar> \<le> 2 / 1000000 * d"
    using from_counts [OF D F(5,6) N' N(2), of w] by (simp add: x_def h_def d_def)
  have k: "10 / 524288 \<le> 10 / N" "(10 / N) * N = 10" "0 < 10 / N" using N by (simp_all add: field_simps)
  have "\<bar>x - a * (N / 10)\<bar> * (10 / N) \<le> (real_of_int e + 1 + N * (15 / 100000000)) * (10 / N)"
    using xy vy k(3) by (intro mult_right_mono) linarith+
  moreover have "\<bar>x - a * (N / 10)\<bar> * (10 / N) = \<bar>x * (10 / N) - a\<bar>"
  proof -
    have "\<bar>x - a * (N / 10)\<bar> * (10 / N) = \<bar>(x - a * (N / 10)) * (10 / N)\<bar>" using k(3) by (simp only: abs_mult abs_of_pos)
    also have "(x - a * (N / 10)) * (10 / N) = x * (10 / N) - a" using N by (simp add: field_simps)
    finally show ?thesis .
  qed
  moreover have "(real_of_int e + 1 + N * (15 / 100000000)) * (10 / N) = (real_of_int e + 1) * (10 / N) + 15 / 10000000"
    using N by (simp add: field_simps)
  ultimately have "\<bar>x * (10 / N) - a\<bar> \<le> (real_of_int e + 1) * (10 / N) + 15 / 10000000" by simp
  then have "\<bar>x * (10 / N) - a\<bar> * d \<le> ((real_of_int e + 1) * (10 / N) + 15 / 10000000) * d"
    using d0 by (intro mult_right_mono) simp_all
  moreover have "\<bar>x * (10 / N) - a\<bar> * d = \<bar>x * (10 / N) * d - a * d\<bar>" 
  proof -
    have "\<bar>x * (10 / N) - a\<bar> * d = \<bar>(x * (10 / N) - a) * d\<bar>" using d0 by (simp only: abs_mult abs_of_pos)
    then show ?thesis by (simp only: left_diff_distrib)
  qed
  moreover have "2 / 1000000 * d + ((real_of_int e + 1) * (10 / N) + 15 / 10000000) * d = ((real_of_int e + 1) * (10 / N) + 35 / 10000000) * d"
    by (simp add: algebra_simps)
  ultimately have "\<bar>h - a * d\<bar> \<le> ((real_of_int e + 1) * (10 / N) + 35 / 10000000) * d"
    by (intro abs_step [OF bk]) simp_all
  also have "\<dots> \<le> (real_of_int e + 6 / 5) * (10 / N) * d"
  proof (rule mult_right_mono)
    have "(real_of_int e + 6 / 5) * (10 / N) = (real_of_int e + 1) * (10 / N) + 1 / 5 * (10 / N)" using N by (simp add: field_simps)
    then show "(real_of_int e + 1) * (10 / N) + 35 / 10000000 \<le> (real_of_int e + 6 / 5) * (10 / N)" using k(1) by linarith
  qed (use d0 in simp)
  finally show ?thesis by (simp add: h_def a(2) d_def N_def)
qed

lemma counts_defined:
  assumes D: "sane_scale D" and A: "fin32 A" "\<bar>val32 A\<bar> \<le> 10000001 / 1000000 * val32 D" and n: "dac_factors s n"
  shows "\<exists>v. s32_of_f32 (f32_div (f32_mul A (CONVVOLTSTODACBITS s)) D) = Ret v"
proof -
  let ?q = "f32_div (f32_mul A (CONVVOLTSTODACBITS s)) D"
  define N where "N = real_of_int n"
  define a where "a = val32 A / val32 D"
  note F = dac_factors_near [OF n, folded N_def]
  have N: "1000 \<le> N" "N \<le> 524288" using F(1,2) by (simp_all add: N_def)
  have "0 < val32 D" using D by (auto simp: sane_scale_def intro: less_le_trans [rotated])
  then have "\<bar>a\<bar> \<le> 10000001 / 1000000" using A(2) by (simp add: a_def abs_divide pos_divide_le_eq)
  from abs_prod [OF this, of "N / 10" "N / 10"] N have "\<bar>a * (N / 10)\<bar> \<le> N * (10000001 / 10000000)" by simp
  moreover note q = quotient_near [OF D A F(3,4) N, folded a_def]
  ultimately have r: "- (600000 + 1) < val32 ?q" "val32 ?q < 600000" using N by linarith+
  have "(600000 :: real) = real_of_int 600000" "(0 :: real) < 600000" "(600000 :: real) \<le> 2 ^ 31" by simp_all
  from s32_of_f32_range [OF q(1) r this(2,3,1)] show ?thesis by blast
qed

section \<open>A setpoint, as the clients see it\<close>

text \<open>
  The present setpoint moves by itself: the gateware takes the setpoint register over with the next 10 kHz
  tick, and applies gain, offset and perhaps the digital regulator (dac_chan.vhd). It has settled to \<open>e\<close>
  counts, at the time of a turn of the readback, when all that the turn reads of it is within \<open>e\<close> counts of
  the last value written to the setpoint register.
\<close>

definition settled :: "board \<Rightarrow> u32 \<Rightarrow> int \<Rightarrow> io list \<Rightarrow> bool" where
  "settled b c e h \<longleftrightarrow> (\<forall>es. reads_only es \<longrightarrow>
     \<bar>sint (reg_answer b (h @ [Wr (glob_reg b TENHZ_DATASEND_REG) 1, Wr (glob_reg b TENHZ_DATASEND_REG) 0] @ es) (chan_reg b c DAC_CURRSETPT_REG))
       - sint (last_val h (chan_reg b c DAC_SETPT_REG))\<bar> \<le> e)"

text \<open>What the message that sets a current does, and what it does in jump mode if it is defined at all.\<close>

lemma client_msg_setpt:
  assumes "c \<in> {1, 2, 3, 4}"
  shows "client_msg b junk c len (be32 DAC_SETPT_MSG @ be32 u @ rest) s =
    (let s = s\<lparr>bus := bus s @ led_on_off b\<rparr> in run_bind (dac_bits (ucast c) u s) (\<lambda>_. Set_dac b (ucast c) u s))"
  unfolding client_msg_chan [OF assms] by (simp add: chan_set_def chan_set_dac_adc_def)

lemma client_msg_jump:
  assumes "client_msg b junk c len (be32 DAC_SETPT_MSG @ be32 u @ rest) s = Ret s1" "c \<in> {1, 2, 3, 4}"
    and "reg_answer b (bus s @ led_on_off b) (chan_reg b (ucast c) DAC_OPMODE_REG) = JUMP"
    and "sf_at (ucast c) s = Ret sf"
  shows "\<exists>v. s32_of_f32 (f32_div (f32_mul (clamp_amps (dac_dccts sf) u) (CONVVOLTSTODACBITS s)) (dac_dccts sf)) = Ret v
    \<and> s1 = s\<lparr>bus := (bus s @ led_on_off b)
        @ [Rd (chan_reg b (ucast c) DAC_OPMODE_REG), Wr (chan_reg b (ucast c) DAC_SETPT_REG) v]\<rparr>"
proof -
  have "sf_at (ucast c) (s\<lparr>bus := x\<rparr>) = Ret sf" for x using assms(4) by (simp add: sf_at_def split: if_splits)
  with assms(1,3) show ?thesis
    unfolding client_msg_setpt [OF assms(2)] by (auto simp: Let_def Set_dac_def Xil_In32_def dac_bits_def chan_out_def Xil_Out32_def)
qed

section \<open>Properties\<close>

text \<open>
  C6. The current that clients are told is the one that was set. After a setpoint message for a channel in
  jump mode, whose counts always fit the 20 bits of the setpoint register, and any operations that do not
  write that register again, a turn of the readback that comes when the output has settled to \<open>e\<close> counts
  reports a present setpoint that differs from the current that was asked for, clamped to the range of the
  DAC, by at most \<open>e + 1.2\<close> counts (\<open>n\<close> counts are 10 V); up to 99.9 per cent of the range nothing is clamped.
  All of it is computed in single precision, as the code does.
\<close>

theorem setpoint_read_back:
  assumes c: "c \<in> {1, 2, 3, 4}" and D: "sf_at (ucast c) s = Ret sf" "sane_scale (dac_dccts sf)" and n: "dac_factors s n"
    and u: "dec32 u \<noteq> FNaN"
    and mode: "reg_answer b (bus s @ led_on_off b) (chan_reg b (ucast c) DAC_OPMODE_REG) = JUMP"
    and msg: "client_msg b junk c len (be32 DAC_SETPT_MSG @ be32 u @ rest) s = Ret s1"
    and s2: "s2 = s1\<lparr>bus := bus s1 @ es\<rparr>" "\<forall>w. Wr (chan_reg b (ucast c) DAC_SETPT_REG) w \<notin> set es" "sadata_ok msg m s2"
    and b: "settled b (ucast c) e (bus s2)" "e \<le> 1000"
  shows "\<exists>v msg' m' s'. s1 = s\<lparr>bus := bus s @ led_on_off b
        @ [Rd (chan_reg b (ucast c) DAC_OPMODE_REG), Wr (chan_reg b (ucast c) DAC_SETPT_REG) v]\<rparr> \<and> - (2 ^ 19) \<le> sint v \<and> sint v < 2 ^ 19
    \<and> sadata_turn k b (msg, m, s2, net) = Ret (msg', m', s', psc_send k 31 msg' net)
    \<and> \<bar>val32 (client_word (ucast c) 24 msg') - val32 (clamp_amps (dac_dccts sf) u)\<bar> \<le> (real_of_int e + 6 / 5) * (10 / real_of_int n) * val32 (dac_dccts sf)
    \<and> (fin32 u \<and> \<bar>val32 u\<bar> \<le> 999 / 100 * val32 (dac_dccts sf) \<longrightarrow> clamp_amps (dac_dccts sf) u = u)"
proof -
  let ?c = "ucast c :: u32" and ?D = "dac_dccts sf" and ?led = "[Wr (glob_reg b TENHZ_DATASEND_REG) 1, Wr (glob_reg b TENHZ_DATASEND_REG) 0]"
  have c': "?c \<in> {1, 2, 3, 4}" using c by auto
  obtain v where v: "s32_of_f32 (f32_div (f32_mul (clamp_amps ?D u) (CONVVOLTSTODACBITS s)) ?D) = Ret v"
    "s1 = s\<lparr>bus := (bus s @ led_on_off b) @ [Rd (chan_reg b ?c DAC_OPMODE_REG), Wr (chan_reg b ?c DAC_SETPT_REG) v]\<rparr>"
    using client_msg_jump [OF msg c mode D(1)] by blast
  have "\<exists>w. s32_of_f32 (f32_div (f32_mul (clamp_amps ?D u) (CONVVOLTSTODACBITS s)) ?D) = Ret w \<and> - n \<le> sint w \<and> sint w < n"
    using n by (intro setpt_bits [OF D(2) u]) (auto simp: dac_factors_def)
  then have fits: "- (2 ^ 19) \<le> sint v" "sint v < 2 ^ 19" using v(1) dac_factors_near(2) [OF n] by auto
  obtain msg' m' s' where t: "sadata_turn k b (msg, m, s2, net) = Ret (msg', m', s', psc_send k 31 msg' net)" "sadata_ok msg' m' s'"
    "msg' = concat (map be32 (sadata_words m')) @ drop 1300 msg"
    "amps_image b ?c (CONVDACBITSTOVOLTS s2) (scalefactors s2 ! unat (?c - 1)) (bus s2 @ ?led) (ps m' ! unat (?c - 1))"
    using sadata_turn_Ret [OF s2(3), of k b net] c' unfolding chan_image_def by blast
  have sf: "scalefactors s2 ! unat (?c - 1) = sf" "CONVDACBITSTOVOLTS s2 = CONVDACBITSTOVOLTS s"
    using D(1) s2(1) v(2) by (auto simp: sf_at_def split: if_splits)
  obtain es2 where es2: "reads_only es2" "chan_words (ps m' ! unat (?c - 1)) ! 24 =
      dac_amps (CONVDACBITSTOVOLTS s) ?D (reg_answer b ((bus s2 @ ?led) @ es2) (chan_reg b ?c DAC_CURRSETPT_REG))"
    using t(4) unfolding sf by (auto simp: amps_image_def amps_fields_def)
  have "last_val (bus s2) (chan_reg b ?c DAC_SETPT_REG) = v"
    using last_val_kept [OF s2(2), of "bus s @ led_on_off b @ [Rd (chan_reg b ?c DAC_OPMODE_REG)]" v] s2(1) v(2) by simp
  then have w: "\<bar>sint (reg_answer b ((bus s2 @ ?led) @ es2) (chan_reg b ?c DAC_CURRSETPT_REG)) - sint v\<bar> \<le> e"
    using b(1) es2(1) unfolding settled_def by (simp only: append_assoc)
  note A = clamp_bounds [OF D(2) u]
  have "0 < val32 ?D" using D(2) by (auto simp: sane_scale_def intro: less_le_trans [rotated])
  then have A': "\<bar>val32 (clamp_amps ?D u)\<bar> \<le> 10000001 / 1000000 * val32 ?D" using A by linarith
  have "client_word ?c 24 msg' = dac_amps (CONVDACBITSTOVOLTS s) ?D (reg_answer b ((bus s2 @ ?led) @ es2) (chan_reg b ?c DAC_CURRSETPT_REG))"
    using client_word_sent [OF t(2) c', of 24] es2(2) t(3) by simp
  then have near: "\<bar>val32 (client_word ?c 24 msg') - val32 (clamp_amps ?D u)\<bar> \<le> (real_of_int e + 6 / 5) * (10 / real_of_int n) * val32 ?D"
    using there_and_back [OF D(2) conjunct1 [OF A] A' n v(1) w b(2)] by simp
  have "s1 = s\<lparr>bus := bus s @ led_on_off b @ [Rd (chan_reg b ?c DAC_OPMODE_REG), Wr (chan_reg b ?c DAC_SETPT_REG) v]\<rparr>" using v(2) by simp
  then show ?thesis using fits near t(1) clamp_inside [OF D(2)] by blast
qed

text \<open>
  A board as in dac_gainoffset.vhd, with the offset 0 and the gain 1048575 that the code writes for 1: the
  present setpoint of channel 2 is the product with the 20 bit setpoint, divided by \<open>2 ^ 20\<close>.
\<close>

definition dac_board :: board where
  "dac_board = mem_board\<lparr>
     reg_answer := (\<lambda>h a. if a = chan_reg mem_board 2 DAC_CURRSETPT_REG
       then word_of_int (signed_take_bit 19 (sint (last_val h (chan_reg mem_board 2 DAC_SETPT_REG))) * 1048575 div 1048576)
       else reg_answer mem_board h a)\<rparr>"

lemma dac_board_regs: "chan_reg dac_board c r = chan_reg mem_board c r" "glob_reg dac_board r = glob_reg mem_board r"
  by (simp_all add: dac_board_def chan_reg_def glob_reg_def)

lemma dac_board_settled:
  assumes "- (2 ^ 19) \<le> sint (last_val h (chan_reg mem_board 2 DAC_SETPT_REG))" "sint (last_val h (chan_reg mem_board 2 DAC_SETPT_REG)) < 2 ^ 19"
  shows "settled dac_board 2 1 h"
proof -
  define x where "x = sint (last_val h (chan_reg mem_board 2 DAC_SETPT_REG))"
  have x: "- 524288 \<le> x" "x < 524288" using assms by (simp_all add: x_def)
  then have "signed_take_bit 19 x = x" by (intro signed_take_bit_int_eq_self) simp_all
  moreover have y: "\<bar>x * 1048575 div 1048576 - x\<bar> \<le> 1"
  proof -
    have "x * 1048575 div 1048576 = (- x + x * 1048576) div 1048576" by simp
    also have "\<dots> = x + - x div 1048576" by (rule div_mult_self1) simp
    finally have "x * 1048575 div 1048576 - x = - x div 1048576" by simp
    moreover have "- x div 1048576 \<le> 0" "- 1 \<le> - x div 1048576"
      using x zdiv_mono1 [of "- x" 1048575 1048576] zdiv_mono1 [of "- 1048576" "- x" 1048576] by simp_all
    ultimately show ?thesis by linarith
  qed
  moreover have "sint (word_of_int z :: s32) = z" if "\<bar>z - x\<bar> \<le> 1" for z
  proof -
    have "- 600000 \<le> z" "z < 600000" using x that by linarith+
    then show ?thesis by (intro sint_s32) simp_all
  qed
  then have "sint (word_of_int (x * 1048575 div 1048576) :: s32) = x * 1048575 div 1048576" using y by blast
  moreover have "last_val (h @ [Wr (glob_reg mem_board TENHZ_DATASEND_REG) 1, Wr (glob_reg mem_board TENHZ_DATASEND_REG) 0] @ es)
      (chan_reg mem_board 2 DAC_SETPT_REG) = last_val h (chan_reg mem_board 2 DAC_SETPT_REG)" if "reads_only es" for es
  proof -
    have "fold (\<lambda>e v. case e of Wr a' w \<Rightarrow> if a' = a then w else v | _ \<Rightarrow> v) es v = v" for a v
      using that by (induction es arbitrary: v) (auto split: io.splits)
    then show ?thesis by (simp add: last_val_def led_elsewhere [symmetric])
  qed
  ultimately show ?thesis unfolding settled_def dac_board_regs by (simp add: dac_board_def x_def)
qed

text \<open>10 A on a channel of 10 A per volt, told to all clients to within 0.0005 A.\<close>

theorem setpoint_read_back_witness:
  "\<exists>s1 msg' m' s'. client_msg dac_board (\<lambda>_. (0, [])) 2 8 (be32 DAC_SETPT_MSG @ be32 0x41200000 @ []) jump_psc = Ret s1
    \<and> sadata_turn (log_net {6}) dac_board (replicate 1400 0, blank_sadata, s1\<lparr>bus := bus s1 @ [Rd 0]\<rparr>, (Some two_clients, \<lambda>_. [])) =
      Ret (msg', m', s', psc_send (log_net {6}) 31 msg' (Some two_clients, \<lambda>_. []))
    \<and> \<bar>val32 (client_word (ucast (2 :: u16)) 24 msg') - 10\<bar> \<le> 5 / 10000"
proof -
  let ?u = "0x41200000 :: f32" and ?c = "2 :: u16" and ?D = "dac_dccts some_sf"
  let ?s = "jump_psc\<lparr>bus := bus jump_psc @ led_on_off dac_board\<rparr>"
  have vals: "?D = 0x41200000" "fin32 ?u" "val32 ?u = 10" "dec32 ?u \<noteq> FNaN"
    by (simp_all add: some_sf_def fin32_def val32_def dec32_def decode_def single_def emin_def Let_def power_int_minus)
  have c: "?c \<in> {1, 2, 3, 4}" by simp
  have cc: "(ucast ?c :: u32) = 2" by simp
  have n: "dac_factors jump_psc (2 ^ 19)"
    unfolding dac_factors_def back_values conv_values by (simp add: jump_psc_def some_psc_def)
  have mode: "reg_answer dac_board (bus ?s) (chan_reg dac_board 2 DAC_OPMODE_REG) = JUMP"
    by (simp add: dac_board_def mem_board_def jump_psc_def chan_reg_def glob_reg_def sim_board_def last_val_def reg_width_def)
  have sf: "sf_at 2 (jump_psc\<lparr>bus := x\<rparr>) = Ret some_sf" for x using jump_psc_facts(1) by (simp add: sf_at_def split: if_splits)
  have cl: "clamp_amps ?D ?u = ?u" using vals by (intro clamp_inside jump_psc_facts(2)) (simp_all add: vals(1))
  obtain v where v: "s32_of_f32 (f32_div (f32_mul ?u (CONVVOLTSTODACBITS jump_psc)) ?D) = Ret v" "- (2 ^ 19) \<le> sint v" "sint v < 2 ^ 19"
    using setpt_bits [OF jump_psc_facts(2) vals(4), of "CONVVOLTSTODACBITS jump_psc" "2 ^ 19"] jump_psc_facts(4) cl by auto
  define h where "h = bus jump_psc @ led_on_off dac_board @ [Rd (chan_reg dac_board 2 DAC_OPMODE_REG), Wr (chan_reg dac_board 2 DAC_SETPT_REG) v]"
  have h: "client_msg dac_board (\<lambda>_. (0, [])) ?c 8 (be32 DAC_SETPT_MSG @ be32 ?u @ []) jump_psc = Ret (jump_psc\<lparr>bus := h\<rparr>)"
    unfolding client_msg_setpt [OF c] Let_def cc using cl mode v(1)
    by (simp add: sf dac_bits_def Set_dac_def Xil_In32_def chan_out_def Xil_Out32_def h_def)
  have ok: "sadata_ok (replicate 1400 0) blank_sadata (jump_psc\<lparr>bus := h @ [Rd 0]\<rparr>)"
    using blank_ok [of h] by (simp add: sadata_ok_def jump_psc_def some_psc_def)
  have "last_val (h @ [Rd 0]) (chan_reg mem_board 2 DAC_SETPT_REG) = v"
    using last_val_kept [of "chan_reg mem_board 2 DAC_SETPT_REG" "[Rd 0]" "bus jump_psc @ led_on_off dac_board @ [Rd (chan_reg dac_board 2 DAC_OPMODE_REG)]" v]
    by (simp add: h_def dac_board_regs)
  then have st: "settled dac_board 2 1 (h @ [Rd 0])" using v(2,3) by (intro dac_board_settled) simp_all
  obtain msg' m' s' where t: "sadata_turn (log_net {6}) dac_board (replicate 1400 0, blank_sadata, jump_psc\<lparr>bus := h @ [Rd 0]\<rparr>, (Some two_clients, \<lambda>_. [])) =
      Ret (msg', m', s', psc_send (log_net {6}) 31 msg' (Some two_clients, \<lambda>_. []))"
    "\<bar>val32 (client_word (ucast ?c) 24 msg') - val32 (clamp_amps ?D ?u)\<bar> \<le> (real_of_int 1 + 6 / 5) * (10 / real_of_int (2 ^ 19)) * val32 ?D"
    using setpoint_read_back [of ?c jump_psc some_sf "2 ^ 19" ?u dac_board "\<lambda>_. (0, [])" 8 "[]" "jump_psc\<lparr>bus := h\<rparr>" "jump_psc\<lparr>bus := h @ [Rd 0]\<rparr>" "[Rd 0]"
        "replicate 1400 0" blank_sadata 1 "log_net {6}" "(Some two_clients, \<lambda>_. [])"] jump_psc_facts(1,2) n vals(4) mode h ok st
    unfolding cc by auto
  from t(2) have "\<bar>val32 (client_word (ucast ?c) 24 msg') - 10\<bar> \<le> 5 / 10000" unfolding cl unfolding vals(1,3) by simp
  with t(1) h show ?thesis by (intro exI [of _ "jump_psc\<lparr>bus := h\<rparr>"] exI [of _ msg'] exI [of _ m'] exI [of _ s']) simp
qed

text \<open>
  The other currents that are stored in counts, where nothing is clamped: id, register and position of the
  offsets of the DCCTs and of the thresholds for an overcurrent.
\<close>

definition amps_settings :: "(u32 \<times> u32 \<times> nat) list" where
  "amps_settings = [(DCCT1_OFFSET_MSG, DCCT1_OFFSET_REG, 1), (DCCT2_OFFSET_MSG, DCCT2_OFFSET_REG, 4),
     (OVC1_THRESH_MSG, OVC1_THRESH_REG, 28), (OVC2_THRESH_MSG, OVC2_THRESH_REG, 29)]"

lemma client_msg_amps:
  assumes "(mid, r, k) \<in> set amps_settings" "c \<in> {1, 2, 3, 4}"
  shows "client_msg b junk c len (be32 mid @ be32 u @ rest) s =
    set_dac_bits b (ucast c) r u (s\<lparr>bus := bus s @ led_on_off b\<rparr>)"
  unfolding client_msg_chan [OF assms(2)] using assms(1)
  by (auto simp: Let_def amps_settings_def chan_set_def chan_set_dac_adc_def chan_set_limits_def)

lemma amps_settings_fields: "(mid, r, k) \<in> set amps_settings \<Longrightarrow> (r, k) \<in> set amps_fields \<and> k < 75 \<and> r < CHBASEADDR"
  by (auto simp: amps_settings_def amps_fields_def)

text \<open>The counts of a current that is not negative are not negative, and those of a threshold fit 20 bits.\<close>

lemma counts_fit:
  assumes f: "(mid, r, k) \<in> set amps_settings" and D: "sane_scale D" and u: "fin32 u" "\<bar>val32 u\<bar> \<le> 10000001 / 1000000 * val32 D"
    and n: "dac_factors s n" and v: "s32_of_f32 (f32_div (f32_mul u (CONVVOLTSTODACBITS s)) D) = Ret v"
    and pos: "reg_width r = 20 \<longrightarrow> 0 \<le> val32 u"
  shows "take_bit (reg_width r) v = v"
proof (cases "reg_width r = 20")
  case True
  define N where "N = real_of_int n"
  define a where "a = val32 u / val32 D"
  define q where "q = val32 (f32_div (f32_mul u (CONVVOLTSTODACBITS s)) D)"
  note F = dac_factors_near [OF n, folded N_def]
  have N: "1000 \<le> N" "N \<le> 524288" using F(1,2) by (simp_all add: N_def)
  note Q = quotient_near [OF D u F(3,4) N, folded a_def q_def]
  have D0: "0 < val32 D" using D by (auto simp: sane_scale_def intro: less_le_trans [rotated])
  have "0 \<le> val32 u" using True pos by simp
  then have a: "0 \<le> a" "a \<le> 10000001 / 1000000" using D0 u(2) by (simp_all add: a_def pos_divide_le_eq)
  then have "0 \<le> a * (N / 10)" "a * (N / 10) \<le> 10000001 / 1000000 * (N / 10)" using N by (simp, intro mult_right_mono) simp_all
  then have "- (0 + 1) < q" "q < 600000" using Q(2) N by linarith+
  moreover obtain i where i: "fv_trunc (dec32 (f32_div (f32_mul u (CONVVOLTSTODACBITS s)) D)) = Some i"
      "0 \<le> q \<Longrightarrow> i = \<lfloor>q\<rfloor>" "q \<le> 0 \<Longrightarrow> i = - \<lfloor>- q\<rfloor>"
    using fv_trunc_real [of "dec32 (f32_div (f32_mul u (CONVVOLTSTODACBITS s)) D)"] Q(1) unfolding fin32_def val32_def q_def by metis
  ultimately have "0 \<le> i" "i < 600000" by (cases "0 \<le> q"; linarith)+
  moreover have "v = word_of_int i" using v i(1) by (auto simp: s32_of_f32_def s32_of_fv_def split: if_splits)
  ultimately have "uint v = i" by (simp add: uint_word_of_int_eq take_bit_int_eq_self)
  then have "take_bit 20 (uint v) = uint v" using \<open>0 \<le> i\<close> \<open>i < 600000\<close> by (intro take_bit_int_eq_self) simp_all
  then have "take_bit 20 v = v" by (simp add: word_uint_eq_iff unsigned_take_bit_eq)
  with True show ?thesis by simp
next
  case False
  with f have "reg_width r = 32" by (auto simp: amps_settings_def reg_width_def)
  then show ?thesis by (simp add: take_bit_word_eq_self)
qed

text \<open>
  C11. Every current that is stored in counts comes back as it went: after the message that sets the
  offset of a DCCT, or the threshold for an overcurrent, which is not to be negative, to \<open>u\<close> amperes within
  the range of the DAC, the setting is made, nothing in it is undefined, and after any operations that do
  not write the register again the next message of the readback gives at the offset of its field a current
  within 1.2 counts of \<open>u\<close>. The registers of the offsets have 32 bits, those of the thresholds 20, which
  read back without a sign.
\<close>

theorem amps_read_back:
  assumes f: "(mid, r, k) \<in> set amps_settings" and c: "c \<in> {1, 2, 3, 4}"
    and D: "sf_at (ucast c) s = Ret sf" "sane_scale (dac_dccts sf)" and n: "dac_factors s n"
    and u: "fin32 u" "\<bar>val32 u\<bar> \<le> 10 * val32 (dac_dccts sf)" and pos: "reg_width r = 20 \<longrightarrow> 0 \<le> val32 u"
    and b: "keeps b (chan_reg b (ucast c) r) (reg_width r)"
    and ok: "sadata_ok msg m s" and es: "\<forall>w. Wr (chan_reg b (ucast c) r) w \<notin> set es"
  shows "\<exists>h. client_msg b junk c len (be32 mid @ be32 u @ rest) s = Ret (s\<lparr>bus := h\<rparr>)
    \<and> (\<exists>msg' m' s'. sadata_turn q b (msg, m, s\<lparr>bus := h @ es\<rparr>, net) = Ret (msg', m', s', psc_send q 31 msg' net)
    \<and> \<bar>val32 (client_word (ucast c) k msg') - val32 u\<bar> \<le> 6 / 5 * (10 / real_of_int n) * val32 (dac_dccts sf))"
proof -
  let ?c = "ucast c :: u32" and ?D = "dac_dccts sf" and ?led = "[Wr (glob_reg b TENHZ_DATASEND_REG) 1, Wr (glob_reg b TENHZ_DATASEND_REG) 0]"
  have c': "?c \<in> {1, 2, 3, 4}" using c by auto
  note F = amps_settings_fields [OF f]
  have D0: "0 < val32 ?D" using D(2) by (auto simp: sane_scale_def intro: less_le_trans [rotated])
  have U: "\<bar>val32 u\<bar> \<le> 10000001 / 1000000 * val32 ?D" using u(2) D0 by linarith
  obtain v where v: "s32_of_f32 (f32_div (f32_mul u (CONVVOLTSTODACBITS s)) ?D) = Ret v"
    using counts_defined [OF D(2) u(1) U n] by blast
  have fits: "take_bit (reg_width r) v = v" using counts_fit [OF f D(2) u(1) U n v pos] .
  define h where "h = (bus s @ led_on_off b) @ [Wr (chan_reg b ?c r) v]"
  have "sf_at ?c (s\<lparr>bus := x\<rparr>) = Ret sf" for x using D(1) by (simp add: sf_at_def split: if_splits)
  with v have set: "client_msg b junk c len (be32 mid @ be32 u @ rest) s = Ret (s\<lparr>bus := h\<rparr>)"
    unfolding client_msg_amps [OF f c] by (simp add: set_dac_bits_def dac_bits_def chan_out_def Xil_Out32_def h_def)
  let ?s2 = "s\<lparr>bus := h @ es\<rparr>"
  have "sadata_ok msg m ?s2" using ok by (simp add: sadata_ok_def)
  from sadata_turn_Ret [OF this, of q b net] obtain msg' m' s' where t: "sadata_turn q b (msg, m, ?s2, net) = Ret (msg', m', s', psc_send q 31 msg' net)"
    "sadata_ok msg' m' s'" "msg' = concat (map be32 (sadata_words m')) @ drop 1300 msg"
    "amps_image b ?c (CONVDACBITSTOVOLTS s) (scalefactors s ! unat (?c - 1)) ((h @ es) @ ?led) (ps m' ! unat (?c - 1))"
    using c' unfolding chan_image_def by auto
  have sf: "scalefactors s ! unat (?c - 1) = sf" using D(1) by (auto simp: sf_at_def split: if_splits)
  obtain es2 where es2: "reads_only es2" "chan_words (ps m' ! unat (?c - 1)) ! k =
      dac_amps (CONVDACBITSTOVOLTS s) ?D (reg_answer b (((h @ es) @ ?led) @ es2) (chan_reg b ?c r))"
    using t(4) F unfolding sf amps_image_def by auto
  have "Wr (chan_reg b ?c r) w \<notin> set (es @ ?led @ es2)" for w
    using es es2(1) led_elsewhere [OF _ c', of r b] F by auto
  from keepsD [OF b this, of "bus s @ led_on_off b" v]
  have w: "reg_answer b (((h @ es) @ ?led) @ es2) (chan_reg b ?c r) = v" by (simp add: h_def fits)
  have "client_word ?c k msg' = dac_amps (CONVDACBITSTOVOLTS s) ?D v"
    using client_word_sent [OF t(2) c', of k] F es2(2) t(3) w by simp
  then have "\<bar>val32 (client_word ?c k msg') - val32 u\<bar> \<le> 6 / 5 * (10 / real_of_int n) * val32 ?D"
    using there_and_back [OF D(2) u(1) U n v, of v 0] by simp
  with set t(1) show ?thesis by blast
qed

theorem amps_read_back_witness:
  "\<exists>h msg' m' s'. client_msg mem_board (\<lambda>_. (0, [])) 2 8 (be32 OVC1_THRESH_MSG @ be32 0x41200000 @ []) some_psc = Ret (some_psc\<lparr>bus := h\<rparr>)
    \<and> sadata_turn (log_net {6}) mem_board (replicate 1400 0, blank_sadata, some_psc\<lparr>bus := h @ [Rd 0]\<rparr>, (Some two_clients, \<lambda>_. [])) =
      Ret (msg', m', s', psc_send (log_net {6}) 31 msg' (Some two_clients, \<lambda>_. []))
    \<and> \<bar>val32 (client_word (ucast (2 :: u16)) 28 msg') - 10\<bar> \<le> 3 / 10000"
proof -
  let ?u = "0x41200000 :: f32" and ?c = "2 :: u16"
  have f: "(OVC1_THRESH_MSG, OVC1_THRESH_REG, 28) \<in> set amps_settings" by (simp add: amps_settings_def)
  have sf: "sf_at (ucast ?c) some_psc = Ret some_sf" using some_psc_sf by simp
  have u: "dac_dccts some_sf = ?u" "fin32 ?u" "val32 ?u = 10"
    by (simp_all add: some_sf_def fin32_def val32_def dec32_def decode_def single_def emin_def Let_def power_int_minus)
  have n: "dac_factors some_psc (2 ^ 19)" unfolding dac_factors_def back_values conv_values by (simp add: some_psc_def)
  have ok: "sadata_ok (replicate 1400 0) blank_sadata some_psc"
    using blank_ok [of "[]"] by (simp add: sadata_ok_def some_psc_def)
  have keep: "keeps mem_board (chan_reg mem_board (ucast ?c) OVC1_THRESH_REG) (reg_width OVC1_THRESH_REG)"
    by (rule mem_board_keeps) (simp add: chan_reg_def mem_board_def)
  from amps_read_back [OF f _ sf jump_psc_facts(2) n u(2) _ _ keep ok, of "[Rd 0]" "\<lambda>_. (0, [])" 8 "[]" "log_net {6}" "(Some two_clients, \<lambda>_. [])"]
  obtain h msg' m' s' where t: "client_msg mem_board (\<lambda>_. (0, [])) ?c 8 (be32 OVC1_THRESH_MSG @ be32 ?u @ []) some_psc = Ret (some_psc\<lparr>bus := h\<rparr>)"
    "sadata_turn (log_net {6}) mem_board (replicate 1400 0, blank_sadata, some_psc\<lparr>bus := h @ [Rd 0]\<rparr>, (Some two_clients, \<lambda>_. [])) =
      Ret (msg', m', s', psc_send (log_net {6}) 31 msg' (Some two_clients, \<lambda>_. []))"
    "\<bar>val32 (client_word (ucast ?c) 28 msg') - val32 ?u\<bar> \<le> 6 / 5 * (10 / real_of_int (2 ^ 19)) * val32 (dac_dccts some_sf)"
    using u(1,3) by auto
  from t(3) have "\<bar>val32 (client_word (ucast ?c) 28 msg') - 10\<bar> \<le> 3 / 10000" unfolding u(1,3) by simp
  with t(1,2) show ?thesis by blast
qed

end
