(* ===== verification/Flash_Race.thy ===== *)
theory Flash_Race
  imports Qspi_Flash
begin

text \<open>
  Two tasks that write to the flash at the same time. Every client has a task of its own, the console has
  another, and nothing keeps them from \<open>QspiFlashWrite\<close> together.
\<close>

section \<open>The write enable latch\<close>

text \<open>
  The chip forgets that writing was enabled once it has programmed a page, and a program command that
  comes then is ignored; enabling alone changes nothing.
\<close>

definition latched :: "(io list \<Rightarrow> nat \<Rightarrow> u8) \<Rightarrow> bool" where
  "latched mem \<longleftrightarrow> (\<forall>h. mem (h @ [Spi [FLASH_WRITE_ENABLE_CMD] 1]) = mem h) \<and>
     (\<forall>h A d n A' d' n'. mem (h @ enabled (flash_cmd FLASH_WRITE_CMD A @ d) n @ [Spi (flash_cmd FLASH_WRITE_CMD A' @ d') n']) =
        mem (h @ enabled (flash_cmd FLASH_WRITE_CMD A @ d) n))"

lemma sim_board_latched: "latched chip_mem"
proof -
  have "chip_mem (h @ enabled (flash_cmd FLASH_WRITE_CMD A @ d) n @ [Spi (flash_cmd FLASH_WRITE_CMD A' @ d') n']) =
      chip_mem (h @ enabled (flash_cmd FLASH_WRITE_CMD A @ d) n)" for h A d n A' d' n'
    by (cases "fold chip_step h (False, \<lambda>_. 0xFF)") (simp add: chip_mem_def enabled_def flash_cmd_shape)
  then show ?thesis by (simp add: latched_def chip_step_keep) (simp add: chip_mem_def)
qed

text \<open>The operations of two calls: both enable, both program, both wait.\<close>

lemma both_at_once:
  "[Spi w 1, Spi w 1, Spi p 256, Spi q 256] @ replicate (m + k) e \<in> shuffles (Spi w 1 # Spi p 256 # replicate m e) (Spi w 1 # Spi q 256 # replicate k e)"
proof -
  have "replicate (m + k) e \<in> shuffles (replicate m e) (replicate k e)"
    by (induction m) (auto simp: Cons_in_shuffles_iff)
  then show ?thesis by (simp add: Cons_in_shuffles_iff)
qed

lemma page_program:
  assumes ok: "flash_ok b mem" and A: "A < 0x1000000" "unat A mod 256 = 0" and len: "length buf = 256"
  shows "mem (h @ enabled (flash_cmd FLASH_WRITE_CMD A @ drop 4 buf) 256 @ replicate k poll) =
    (\<lambda>a. if unat A \<le> a \<and> a < unat A + 252 then mem h a AND drop 4 buf ! (a - unat A) else mem h a)"
proof -
  have n: "length (drop 4 buf) \<le> 256" "256 = 4 + length (drop 4 buf)" using len by simp_all
  from flash_program [OF ok A n, of h] len
    flash_mem_poll [OF ok, of "h @ enabled (flash_cmd FLASH_WRITE_CMD A @ drop 4 buf) 256" k] show ?thesis by simp
qed

section \<open>Properties\<close>

text \<open>
  C32. A page can be lost when two clients save at the same time: of any two calls of \<open>QspiFlashWrite\<close>, for
  whatever pages and data, the transfers can come in an order in which the second page is not programmed
  at all, the flash is as if only the first call had been made, and both calls end as usual. In the order
  the latch of the chip is set twice and used once.
\<close>

theorem flash_race_loses_page:
  assumes "flash_ok b mem" "latched mem" and A: "A1 < 0x1000000" "unat A1 mod 256 = 0"
    and len: "length buf1 = 256" "length buf2 = 256"
  shows "\<exists>buf1' buf2' e1 e2 e. QspiFlashWrite b A1 256 buf1 s = Ret (buf1', s\<lparr>bus := bus s @ e1\<rparr>)
    \<and> QspiFlashWrite b A2 256 buf2 s = Ret (buf2', s\<lparr>bus := bus s @ e2\<rparr>)
    \<and> e \<in> shuffles e1 e2 \<and> mem (bus s @ e) = mem (bus s @ e1)"
proof -
  let ?p = "flash_cmd FLASH_WRITE_CMD A1 @ drop 4 buf1" and ?q = "flash_cmd FLASH_WRITE_CMD A2 @ drop 4 buf2"
  let ?w = "Spi [FLASH_WRITE_ENABLE_CMD] 1"
  obtain m where m: "QspiFlashWrite b A1 256 buf1 s = Ret (?p, s\<lparr>bus := bus s @ enabled ?p 256 @ replicate m poll\<rparr>)"
    using flash_write [OF assms(1) len(1)] by fastforce
  obtain k where k: "QspiFlashWrite b A2 256 buf2 s = Ret (?q, s\<lparr>bus := bus s @ enabled ?q 256 @ replicate k poll\<rparr>)"
    using flash_write [OF assms(1) len(2)] by fastforce
  note prog = page_program [OF assms(1) A len(1)]
  let ?e = "[?w, ?w, Spi ?p 256, Spi ?q 256] @ replicate (m + k) poll"
  have "mem (bus s @ ?e) = mem ((bus s @ [?w]) @ enabled ?p 256 @ [Spi ?q 256])"
    using flash_mem_poll [OF assms(1), of "(bus s @ [?w]) @ enabled ?p 256 @ [Spi ?q 256]" "m + k"] by (simp add: enabled_def)
  also have "\<dots> = mem ((bus s @ [?w]) @ enabled ?p 256)" using assms(2) unfolding latched_def by blast
  also have "\<dots> = mem (bus s @ enabled ?p 256 @ replicate m poll)"
  proof -
    have "mem (bus s @ [?w]) = mem (bus s)" using assms(2) by (simp add: latched_def)
    then have "mem ((bus s @ [?w]) @ enabled ?p 256 @ replicate 0 poll) = mem (bus s @ enabled ?p 256 @ replicate m poll)"
      by (simp only: prog)
    then show ?thesis by simp
  qed
  finally have "mem (bus s @ ?e) = mem (bus s @ enabled ?p 256 @ replicate m poll)" .
  moreover have "?e \<in> shuffles (enabled ?p 256 @ replicate m poll) (enabled ?q 256 @ replicate k poll)"
    unfolding enabled_def append_Cons append_Nil using both_at_once by simp
  ultimately show ?thesis using m k by blast
qed

text \<open>Clients 1 and 2 save their channels: the first byte of the second page stays erased, alone it is written.\<close>

theorem flash_race_loses_page_witness:
  "\<exists>buf1' buf2' e1 e2 e. QspiFlashWrite sim_board 0x10000 256 (replicate 256 1) some_psc = Ret (buf1', some_psc\<lparr>bus := e1\<rparr>)
    \<and> QspiFlashWrite sim_board 0x20000 256 (replicate 256 2) some_psc = Ret (buf2', some_psc\<lparr>bus := e2\<rparr>)
    \<and> e \<in> shuffles e1 e2 \<and> chip_mem e 0x20000 = 0xFF \<and> chip_mem e2 0x20000 = 2"
proof -
  obtain buf1' buf2' e1 e2 e where w: "QspiFlashWrite sim_board 0x10000 256 (replicate 256 1) some_psc = Ret (buf1', some_psc\<lparr>bus := e1\<rparr>)"
    "QspiFlashWrite sim_board 0x20000 256 (replicate 256 2) some_psc = Ret (buf2', some_psc\<lparr>bus := e2\<rparr>)"
    "e \<in> shuffles e1 e2" "chip_mem e = chip_mem e1"
    using flash_race_loses_page [OF sim_board_flash sim_board_latched, of "0x10000" "replicate 256 1" "replicate 256 2" some_psc "0x20000"]
    by (auto simp: some_psc_bus)
  have page: "chip_mem e' a = (if unat A \<le> a \<and> a < unat A + 252 then v else 0xFF)"
    if "QspiFlashWrite sim_board A 256 (replicate 256 v) some_psc = Ret (buf', some_psc\<lparr>bus := e'\<rparr>)" "A < 0x1000000" "unat A mod 256 = 0"
    for A v e' buf' a
  proof -
    have len: "length (replicate 256 v) = 256" "4 \<le> (256 :: nat)" by simp_all
    obtain k where k: "QspiFlashWrite sim_board A 256 (replicate 256 v) some_psc = Ret (flash_cmd FLASH_WRITE_CMD A @ drop 4 (replicate 256 v),
        some_psc\<lparr>bus := bus some_psc @ enabled (flash_cmd FLASH_WRITE_CMD A @ drop 4 (replicate 256 v)) 256 @ replicate k poll\<rparr>)"
      using flash_write [OF sim_board_flash len] by blast
    then have b: "bus (some_psc\<lparr>bus := e'\<rparr>) = bus (some_psc\<lparr>bus := bus some_psc @ enabled (flash_cmd FLASH_WRITE_CMD A @ drop 4 (replicate 256 v)) 256 @ replicate k poll\<rparr>)"
      using that(1) by simp
    have e': "e' = [] @ enabled (flash_cmd FLASH_WRITE_CMD A @ drop 4 (replicate 256 v)) 256 @ replicate k poll"
    proof -
      have upd: "bus (s\<lparr>bus := x\<rparr>) = x" for s :: psc and x by simp
      show ?thesis using b unfolding upd some_psc_bus .
    qed
    have "chip_mem [] a = 0xFF" by (simp add: chip_mem_def)
    then show ?thesis
      unfolding e' page_program [OF sim_board_flash that(2,3) len(1)] by (auto simp: and_FF)
  qed
  have "chip_mem e 0x20000 = 0xFF" using page [OF w(1), of "0x20000"] w(4) by simp
  moreover have "chip_mem e2 0x20000 = 2" using page [OF w(2), of "0x20000"] by simp
  ultimately show ?thesis using w(1-3) by blast
qed

end
